(* ===== verification/Prelude.thy ===== *)
theory Prelude
  imports Main "HOL-Library.Word" "HOL-Library.List_Lexorder" "HOL-Library.Multiset"
begin

text \<open>
  Shared vocabulary of the development: machine integers, byte strings, the
  \<open>Result\<close> monad of the Rust sources, checked arithmetic, loops with early
  return, and little-endian and big-endian byte codecs of machine words.

  A Rust \<open>Result<T, E>\<close> is a sum \<open>'e + 'a\<close> with \<open>Inl\<close> for \<open>Err\<close>; the \<open>?\<close>
  operator and \<open>and_then\<close> are \<open>and_then\<close> below. \<open>usize\<close> is the 64-bit one.
\<close>

section \<open>Types\<close>

type_synonym u8 = "8 word"
type_synonym u16 = "16 word"
type_synonym u32 = "32 word"
type_synonym u64 = "64 word"
type_synonym u128 = "128 word"
type_synonym bytes = "u8 list"
type_synonym bytes32 = "u8 list"

named_theorems res_simps \<open>characterisations of successful and failed results\<close>
named_theorems const_defs \<open>definitions of the protocol constants\<close>

definition usize_max :: nat where
  "usize_max = 2 ^ 64 - 1"

definition isize_max :: nat where
  "isize_max = 2 ^ 63 - 1"

section \<open>Results\<close>

definition and_then :: "'e + 'a \<Rightarrow> ('a \<Rightarrow> 'e + 'b) \<Rightarrow> 'e + 'b" where
  "and_then m f = (case m of Inl e \<Rightarrow> Inl e | Inr x \<Rightarrow> f x)"

definition map_err :: "('e \<Rightarrow> 'f) \<Rightarrow> 'e + 'a \<Rightarrow> 'f + 'a" where
  "map_err h m = (case m of Inl e \<Rightarrow> Inl (h e) | Inr x \<Rightarrow> Inr x)"

definition map_ok :: "('a \<Rightarrow> 'b) \<Rightarrow> 'e + 'a \<Rightarrow> 'e + 'b" where
  "map_ok h m = (case m of Inl e \<Rightarrow> Inl e | Inr x \<Rightarrow> Inr (h x))"

definition ok_or :: "'e \<Rightarrow> 'a option \<Rightarrow> 'e + 'a" where
  "ok_or e v = (case v of None \<Rightarrow> Inl e | Some x \<Rightarrow> Inr x)"

definition is_ok :: "'e + 'a \<Rightarrow> bool" where
  "is_ok m = (case m of Inl _ \<Rightarrow> False | Inr _ \<Rightarrow> True)"

lemma and_then_simps [simp]:
  "and_then (Inl e) f = Inl e"
  "and_then (Inr x) f = f x"
  by (simp_all add: and_then_def)

lemma map_err_simps [simp]:
  "map_err h (Inl e) = Inl (h e)"
  "map_err h (Inr x) = Inr x"
  by (simp_all add: map_err_def)

lemma map_ok_simps [simp]:
  "map_ok h (Inl e) = Inl e"
  "map_ok h (Inr x) = Inr (h x)"
  by (simp_all add: map_ok_def)

lemma ok_or_simps [simp]:
  "ok_or e None = Inl e"
  "ok_or e (Some x) = Inr x"
  by (simp_all add: ok_or_def)

lemma is_ok_simps [simp]:
  "is_ok (Inl e) = False"
  "is_ok (Inr x) = True"
  by (simp_all add: is_ok_def)

lemma and_then_Inr [simp]:
  "(and_then m f = Inr y) = (\<exists>x. m = Inr x \<and> f x = Inr y)"
  by (cases m) simp_all

lemma and_then_Inl [res_simps]:
  "(and_then m f = Inl e) = (m = Inl e \<or> (\<exists>x. m = Inr x \<and> f x = Inl e))"
  by (cases m) simp_all

lemma map_err_Inr [simp]: "(map_err h m = Inr y) = (m = Inr y)"
  by (cases m) simp_all

lemma map_ok_Inr [simp]: "(map_ok h m = Inr y) = (\<exists>x. m = Inr x \<and> y = h x)"
  by (cases m) auto

lemma ok_or_Inr [simp]: "(ok_or e v = Inr y) = (v = Some y)"
  by (cases v) simp_all

lemma ok_or_Inl [res_simps]: "(ok_or e v = Inl e') = (v = None \<and> e' = e)"
  by (cases v) auto

lemma if_Inl_eq_Inr [simp]:
  "((if c then Inl e else m) = Inr y) = (\<not> c \<and> m = Inr y)"
  "((if c then m else Inl e) = Inr y) = (c \<and> m = Inr y)"
  by simp_all

lemma is_ok_iff: "is_ok m \<longleftrightarrow> (\<exists>x. m = Inr x)"
  by (cases m) simp_all

lemma and_then_cong [fundef_cong]:
  "m = m' \<Longrightarrow> (\<And>x. m' = Inr x \<Longrightarrow> f x = g x) \<Longrightarrow> and_then m f = and_then m' g"
  by (cases m') simp_all

lemma and_then_assoc: "and_then (and_then m f) g = and_then m (\<lambda>x. and_then (f x) g)"
  by (cases m) simp_all

subsection \<open>Loops with early return\<close>

text \<open>
  \<open>for x in xs { s = f(s, x)?; }\<close> is \<open>try_fold f s xs\<close>; a loop whose body
  keeps no state is \<open>try_for_each\<close>.
\<close>

fun try_fold :: "('s \<Rightarrow> 'a \<Rightarrow> 'e + 's) \<Rightarrow> 's \<Rightarrow> 'a list \<Rightarrow> 'e + 's" where
  "try_fold f s [] = Inr s"
| "try_fold f s (x # xs) = and_then (f s x) (\<lambda>s'. try_fold f s' xs)"

fun try_for_each :: "('a \<Rightarrow> 'e + unit) \<Rightarrow> 'a list \<Rightarrow> 'e + unit" where
  "try_for_each f [] = Inr ()"
| "try_for_each f (x # xs) = and_then (f x) (\<lambda>_. try_for_each f xs)"

lemma try_fold_append:
  "try_fold f s (xs @ ys) = and_then (try_fold f s xs) (\<lambda>s'. try_fold f s' ys)"
  by (induction xs arbitrary: s) (simp_all add: and_then_assoc)

lemma try_fold_cong [fundef_cong]:
  assumes "s = s'" and "xs = ys" and "\<And>t x. x \<in> set ys \<Longrightarrow> f t x = g t x"
  shows "try_fold f s xs = try_fold g s' ys"
proof -
  have "try_fold f t zs = try_fold g t zs" if "set zs \<subseteq> set ys" for t zs
    using that assms(3) by (induction zs arbitrary: t) (auto intro!: and_then_cong)
  then show ?thesis using assms(1,2) by blast
qed

lemma try_for_each_append: "try_for_each f (xs @ ys) = and_then (try_for_each f xs) (\<lambda>_. try_for_each f ys)"
  by (induction xs) (auto simp: and_then_assoc)

lemma try_for_each_Inr [simp]:
  "(try_for_each f xs = Inr u) = (\<forall>x \<in> set xs. f x = Inr ())"
  by (induction xs) auto

text \<open>An invariant of the state that every successful body keeps.\<close>

lemma try_fold_invariant:
  assumes "try_fold f s xs = Inr t" and "P s"
    and "\<And>s x s'. x \<in> set xs \<Longrightarrow> P s \<Longrightarrow> f s x = Inr s' \<Longrightarrow> P s'"
  shows "P t"
  using assms by (induction xs arbitrary: s) auto

text \<open>
  An invariant that also knows how far the loop got: \<open>P done state\<close>.
\<close>

lemma try_fold_prefix_invariant:
  assumes "try_fold f s xs = Inr t" and "P [] s"
    and "\<And>ys x zs s s'. xs = ys @ x # zs \<Longrightarrow> P ys s \<Longrightarrow> f s x = Inr s' \<Longrightarrow> P (ys @ [x]) s'"
  shows "P xs t"
proof -
  have "P (pre @ zs) t'" if "try_fold f s' zs = Inr t'" and "P pre s'" and "xs = pre @ zs" for pre zs s' t'
    using that
  proof (induction zs arbitrary: pre s')
    case Nil
    then show ?case by simp
  next
    case (Cons z zs)
    then obtain s'' where s'': "f s' z = Inr s''" and rest: "try_fold f s'' zs = Inr t'"
      by auto
    have "P (pre @ [z]) s''" using assms(3) [OF Cons.prems(3) Cons.prems(2) s''] .
    then have "P ((pre @ [z]) @ zs) t'"
      using Cons.IH [OF rest, of "pre @ [z]"] Cons.prems(3) by simp
    then show ?case by simp
  qed
  from this [of s xs t "[]"] show ?thesis using assms(1,2) by simp
qed

section \<open>Checked and saturating arithmetic\<close>

definition checked_add :: "'a::len word \<Rightarrow> 'a word \<Rightarrow> 'a word option" where
  "checked_add a b = (if unat a + unat b < 2 ^ LENGTH('a) then Some (a + b) else None)"

definition checked_mul :: "'a::len word \<Rightarrow> 'a word \<Rightarrow> 'a word option" where
  "checked_mul a b = (if unat a * unat b < 2 ^ LENGTH('a) then Some (a * b) else None)"

definition saturating_add :: "'a::len word \<Rightarrow> 'a word \<Rightarrow> 'a word" where
  "saturating_add a b = (if unat a + unat b < 2 ^ LENGTH('a) then a + b else - 1)"

text \<open>Checked addition of \<open>usize\<close> values.\<close>

definition usize_checked_add :: "nat \<Rightarrow> nat \<Rightarrow> nat option" where
  "usize_checked_add a b = (if a + b \<le> usize_max then Some (a + b) else None)"

lemma usize_checked_add_Some [simp]: "(usize_checked_add a b = Some c) = (c = a + b \<and> a + b \<le> usize_max)"
  by (auto simp: usize_checked_add_def)

text \<open>The word \<open>-1\<close> is the largest value of its type, Rust's \<open>MAX\<close>.\<close>

lemma checked_add_Some:
  "checked_add a b = Some c \<longleftrightarrow> unat c = unat a + unat b"
  for a b c :: "'a::len word"
proof
  assume "checked_add a b = Some c"
  then show "unat c = unat a + unat b"
    by (auto simp: checked_add_def unat_word_ariths split: if_splits)
next
  assume c: "unat c = unat a + unat b"
  then have "unat a + unat b < 2 ^ LENGTH('a)" by (metis unsigned_less)
  moreover from this have "c = a + b" using c by (simp add: word_unat_eq_iff unat_word_ariths)
  ultimately show "checked_add a b = Some c" by (simp add: checked_add_def)
qed

lemma checked_add_None:
  "checked_add a b = None \<longleftrightarrow> 2 ^ LENGTH('a) \<le> unat a + unat b"
  for a b :: "'a::len word"
  by (simp add: checked_add_def)

lemma checked_mul_Some:
  "checked_mul a b = Some c \<longleftrightarrow> unat c = unat a * unat b"
  for a b c :: "'a::len word"
proof
  assume "checked_mul a b = Some c"
  then show "unat c = unat a * unat b"
    by (auto simp: checked_mul_def unat_word_ariths split: if_splits)
next
  assume c: "unat c = unat a * unat b"
  then have "unat a * unat b < 2 ^ LENGTH('a)" by (metis unsigned_less)
  moreover from this have "c = a * b" using c by (simp add: word_unat_eq_iff unat_word_ariths)
  ultimately show "checked_mul a b = Some c" by (simp add: checked_mul_def)
qed

lemma unat_saturating_add:
  "unat (saturating_add a b) = min (unat a + unat b) (2 ^ LENGTH('a) - 1)"
  for a b :: "'a::len word"
  by (auto simp: saturating_add_def unat_word_ariths unsigned_minus_1_eq_mask mask_eq_exp_minus_1)

lemma unat_ucast: "unat (ucast w :: 'b::len word) = unat w mod 2 ^ LENGTH('b)"
  for w :: "'a::len word"
  by (simp add: unsigned_ucast_eq take_bit_eq_mod)

lemma ucast_u64_eq_iff:
  "v = ucast a \<longleftrightarrow> v \<le> 0xff \<and> a = ucast v"
  "v = ucast b \<longleftrightarrow> v \<le> 0xffff \<and> b = ucast v"
  "v = ucast c \<longleftrightarrow> v \<le> 0xffffffff \<and> c = ucast v"
  for v :: u64 and a :: u8 and b :: u16 and c :: u32
  using unsigned_less [of a, where 'a = nat] unsigned_less [of b, where 'a = nat]
    unsigned_less [of c, where 'a = nat]
  by (auto simp: word_unat_eq_iff unat_ucast word_le_nat_alt)

section \<open>Byte slices\<close>

text \<open>\<open>slice b i j\<close> is \<open>&b[i..j]\<close> for a range inside \<open>b\<close>.\<close>

definition slice :: "'a list \<Rightarrow> nat \<Rightarrow> nat \<Rightarrow> 'a list" where
  "slice b i j = take (j - i) (drop i b)"

lemma length_slice [simp]: "j \<le> length b \<Longrightarrow> length (slice b i j) = j - i"
  by (auto simp: slice_def)

lemma slice_append_left: "j \<le> length a \<Longrightarrow> slice (a @ b) i j = slice a i j"
  by (simp add: slice_def)

section \<open>Little-endian and big-endian values\<close>

fun nat_le :: "nat \<Rightarrow> nat \<Rightarrow> bytes" where
  "nat_le 0 v = []"
| "nat_le (Suc n) v = of_nat v # nat_le n (v div 256)"

fun le_nat :: "bytes \<Rightarrow> nat" where
  "le_nat [] = 0"
| "le_nat (b # bs) = unat b + 256 * le_nat bs"

lemma length_nat_le [simp]: "length (nat_le n v) = n"
  by (induction n arbitrary: v) simp_all

lemma le_nat_bound: "le_nat bs < 256 ^ length bs"
proof (induction bs)
  case Nil
  then show ?case by simp
next
  case (Cons b bs)
  have "unat b < 256" using unsigned_less [of b] by simp
  with Cons show ?case by simp
qed

lemma le_nat_nat_le: "le_nat (nat_le n v) = v mod 256 ^ n"
proof (induction n arbitrary: v)
  case 0
  then show ?case by simp
next
  case (Suc n)
  have "unat (of_nat v :: u8) = v mod 256"
    by (simp add: unat_of_nat)
  then have "le_nat (nat_le (Suc n) v) = v mod 256 + 256 * (v div 256 mod 256 ^ n)"
    by (simp add: Suc)
  then show ?case
    by (simp add: mod_mult2_eq)
qed

lemma nat_le_le_nat: "length bs = n \<Longrightarrow> nat_le n (le_nat bs) = bs"
proof (induction bs arbitrary: n)
  case Nil
  then show ?case by simp
next
  case (Cons b bs)
  have b: "unat b < 256" using unsigned_less [of b] by simp
  have "(of_nat (unat b + 256 * le_nat bs) :: u8) = b"
    using b by (simp add: word_unat_eq_iff unsigned_of_nat take_bit_eq_mod del: of_nat_add)
  moreover have "(unat b + 256 * le_nat bs) div 256 = le_nat bs" using b by simp
  ultimately show ?case using Cons by (cases n) simp_all
qed

fun be_nat_aux :: "nat \<Rightarrow> bytes \<Rightarrow> nat" where
  "be_nat_aux a [] = a"
| "be_nat_aux a (b # bs) = be_nat_aux (a * 256 + unat b) bs"

definition be_nat :: "bytes \<Rightarrow> nat" where
  "be_nat bs = be_nat_aux 0 bs"

definition to_le16 :: "u16 \<Rightarrow> bytes" where "to_le16 w = nat_le 2 (unat w)"
definition to_le32 :: "u32 \<Rightarrow> bytes" where "to_le32 w = nat_le 4 (unat w)"
definition to_le64 :: "u64 \<Rightarrow> bytes" where "to_le64 w = nat_le 8 (unat w)"
definition from_le16 :: "bytes \<Rightarrow> u16" where "from_le16 bs = of_nat (le_nat bs)"
definition from_le32 :: "bytes \<Rightarrow> u32" where "from_le32 bs = of_nat (le_nat bs)"
definition from_le64 :: "bytes \<Rightarrow> u64" where "from_le64 bs = of_nat (le_nat bs)"

text \<open>Decimal numbers in messages.\<close>

fun show_nat :: "nat \<Rightarrow> string" where
  "show_nat n =
    (if n < 10 then [char_of (48 + n)] else show_nat (n div 10) @ [char_of (48 + n mod 10)])"

declare show_nat.simps [simp del]

text \<open>The bytes of an ASCII byte-string literal.\<close>

definition ascii :: "string \<Rightarrow> bytes" where
  "ascii s = map (\<lambda>c. of_nat (of_char c)) s"

lemma length_ascii [simp]: "length (ascii s) = length s"
  by (simp add: ascii_def)

lemma length_concat_map_le:
  "(\<And>x. x \<in> set xs \<Longrightarrow> length (f x) \<le> k) \<Longrightarrow> length (concat (map f xs)) \<le> length xs * k"
proof (induction xs)
  case Nil
  then show ?case by simp
next
  case (Cons x xs)
  have "length (f x) \<le> k" "length (concat (map f xs)) \<le> length xs * k"
    using Cons by simp_all
  then show ?case by simp
qed

lemma nat_le_numeral:
  "nat_le (numeral k) v = of_nat v # nat_le (pred_numeral k) (v div 256)"
  by (simp only: numeral_eq_Suc [of k] nat_le.simps)

lemma be_nat_aux_eq: "be_nat_aux a bs = a * 256 ^ length bs + be_nat_aux 0 bs"
proof (induction bs arbitrary: a)
  case Nil
  then show ?case by simp
next
  case (Cons b bs)
  have "be_nat_aux a (b # bs) = (a * 256 + unat b) * 256 ^ length bs + be_nat_aux 0 bs"
    by (simp add: Cons [of "a * 256 + unat b"])
  moreover have "be_nat_aux 0 (b # bs) = unat b * 256 ^ length bs + be_nat_aux 0 bs"
    by (simp add: Cons [of "unat b"])
  ultimately show ?case by (simp add: algebra_simps)
qed

lemma be_nat_simps [simp]:
  "be_nat [] = 0"
  "be_nat (b # bs) = unat b * 256 ^ length bs + be_nat bs"
  using be_nat_aux_eq [of "unat b" bs] by (simp_all add: be_nat_def)

lemma be_nat_append: "be_nat (a @ b) = be_nat a * 256 ^ length b + be_nat b"
  by (induction a) (simp_all add: algebra_simps power_add)

lemma be_nat_zeros [simp]: "be_nat (replicate n 0) = 0"
  by (induction n) simp_all

lemma be_nat_bound: "be_nat bs < 256 ^ length bs"
proof (induction bs)
  case Nil
  then show ?case by simp
next
  case (Cons b bs)
  have "unat b \<le> 255" using unsigned_less [of b, where 'a = nat] by simp
  then have "unat b * 256 ^ length bs \<le> 255 * 256 ^ length bs" by (rule mult_le_mono1)
  with Cons have "unat b * 256 ^ length bs + be_nat bs < 256 * 256 ^ length bs" by linarith
  then show ?case by simp
qed

lemma bytes_less_be_nat:
  "length a = length b \<Longrightarrow> a < b \<longleftrightarrow> be_nat a < be_nat b" for a b :: bytes
proof (induction a b rule: list_induct2)
  case Nil
  then show ?case by simp
next
  case (Cons x xs y ys)
  let ?k = "256 ^ length xs :: nat"
  have k: "be_nat xs < ?k" "be_nat ys < ?k" using be_nat_bound [of xs] be_nat_bound [of ys] Cons by simp_all
  have len: "length ys = length xs" using Cons by simp
  show ?case
  proof (cases "x = y")
    case True
    then show ?thesis using Cons by simp
  next
    case False
    then consider "unat x < unat y" | "unat y < unat x" using word_unat_eq_iff [of x y] by linarith
    then show ?thesis
    proof cases
      case 1
      then have "(unat x + 1) * ?k \<le> unat y * ?k" by (intro mult_le_mono1) simp
      with k have "unat x * ?k + be_nat xs < unat y * ?k + be_nat ys" by simp
      then show ?thesis using 1 len by (simp add: word_less_nat_alt)
    next
      case 2
      then have "(unat y + 1) * ?k \<le> unat x * ?k" by (intro mult_le_mono1) simp
      with k have "\<not> unat x * ?k + be_nat xs < unat y * ?k + be_nat ys" by simp
      then show ?thesis using 2 len False by (simp add: word_less_nat_alt)
    qed
  qed
qed

lemma slice_split:
  assumes "i \<le> j" and "j \<le> k"
  shows "slice b i j @ slice b j k = slice b i k"
proof -
  have "drop j b = drop (j - i) (drop i b)" "k - i = (j - i) + (k - j)" using assms by simp_all
  then show ?thesis unfolding slice_def by (simp only: take_add)
qed

lemma sorted_wrt_insert:
  assumes "\<And>a b. P a b = P b a"
  shows "sorted_wrt P (us @ x # vs) \<longleftrightarrow> (\<forall>y \<in> set (us @ vs). P x y) \<and> sorted_wrt P (us @ vs)"
  using assms by (auto simp: sorted_wrt_append)

lemma sorted_wrt_mset:
  assumes sym: "\<And>a b. P a b = P b a"
  shows "mset xs = mset ys \<Longrightarrow> sorted_wrt P xs \<longleftrightarrow> sorted_wrt P ys"
proof (induction xs arbitrary: ys)
  case Nil
  then show ?case by simp
next
  case (Cons x xs)
  have "x \<in> set ys" using Cons.prems by (metis list.set_intros(1) set_mset_mset)
  then obtain us vs where ys: "ys = us @ x # vs" by (meson split_list)
  then have m: "mset xs = mset (us @ vs)" using Cons.prems by simp
  then have "set xs = set (us @ vs)" by (metis set_mset_mset)
  then show ?case using Cons.IH [OF m] by (simp add: ys sorted_wrt_insert [of P, OF sym])
qed

lemma in_set_map_filter: "y \<in> set (List.map_filter f xs) \<longleftrightarrow> (\<exists>x \<in> set xs. f x = Some y)"
  by (force simp: List.map_filter_def)

lemma sorted_wrt_map_filter:
  "sorted_wrt P (List.map_filter f xs) \<longleftrightarrow>
   sorted_wrt (\<lambda>x y. \<forall>a b. f x = Some a \<and> f y = Some b \<longrightarrow> P a b) xs"
proof (induction xs)
  case Nil
  then show ?case by (simp add: map_filter_simps)
next
  case (Cons x xs)
  then show ?case by (auto simp: map_filter_simps in_set_map_filter split: option.splits)
qed

lemma slice_two: "i + 2 \<le> length b \<Longrightarrow> slice b i (i + 2) = [b ! i, b ! Suc i]"
  by (simp add: slice_def take_Suc_conv_app_nth numeral_2_eq_2)

lemma count_list_concat: "count_list (concat xss) c = (\<Sum>xs\<leftarrow>xss. count_list xs c)"
  by (induction xss) (simp_all add: count_list_append)

lemma replicate_less: "0 < n \<Longrightarrow> a < b \<Longrightarrow> replicate n a < replicate n b" for a b :: u8
  by (cases n) simp_all

end
