(* ===== verification/Base.thy ===== *)
theory Base
  imports Prelude
begin

text \<open>
  The protocol constants of \<^verbatim>\<open>constants.rs\<close> and the error values of
  \<^verbatim>\<open>error.rs\<close>. Every constant is a definition collected in \<open>const_defs\<close>, so
  that a proof unfolds numbers only where it needs them.
\<close>

section \<open>Errors\<close>

datatype ErrorCode =
    TxErrParse
  | TxErrWitnessOverflow
  | TxErrSigNoncanonical
  | TxErrSigAlgInvalid
  | TxErrSigInvalid
  | TxErrSighashTypeInvalid
  | TxErrTimelockNotMet
  | TxErrValueConservation
  | TxErrTxNonceInvalid
  | TxErrSequenceInvalid
  | TxErrNonceReplay
  | TxErrCovenantTypeInvalid
  | TxErrVaultMalformed
  | TxErrVaultParamsInvalid
  | TxErrVaultKeysNotCanonical
  | TxErrVaultWhitelistNotCanonical
  | TxErrVaultOwnerDestinationForbidden
  | TxErrVaultOwnerAuthRequired
  | TxErrVaultFeeSponsorForbidden
  | TxErrVaultMultiInputForbidden
  | TxErrVaultOutputNotWhitelisted
  | TxErrMissingUtxo
  | TxErrCoinbaseImmature
  | BlockErrParse
  | BlockErrWeightExceeded
  | BlockErrAnchorBytesExceeded
  | BlockErrPowInvalid
  | BlockErrTargetInvalid
  | BlockErrLinkageInvalid
  | BlockErrMerkleInvalid
  | BlockErrWitnessCommitment
  | BlockErrCoinbaseInvalid
  | BlockErrSubsidyExceeded
  | BlockErrTimestampOld
  | BlockErrTimestampFuture
  | BlockErrDaIncomplete
  | BlockErrDaChunkHashInvalid
  | BlockErrDaSetInvalid
  | BlockErrDaPayloadCommitInvalid
  | BlockErrDaBatchExceeded

primrec ErrorCode_as_str :: "ErrorCode \<Rightarrow> string" where
  "ErrorCode_as_str TxErrParse = ''TX_ERR_PARSE''"
| "ErrorCode_as_str TxErrWitnessOverflow = ''TX_ERR_WITNESS_OVERFLOW''"
| "ErrorCode_as_str TxErrSigNoncanonical = ''TX_ERR_SIG_NONCANONICAL''"
| "ErrorCode_as_str TxErrSigAlgInvalid = ''TX_ERR_SIG_ALG_INVALID''"
| "ErrorCode_as_str TxErrSigInvalid = ''TX_ERR_SIG_INVALID''"
| "ErrorCode_as_str TxErrSighashTypeInvalid = ''TX_ERR_SIGHASH_TYPE_INVALID''"
| "ErrorCode_as_str TxErrTimelockNotMet = ''TX_ERR_TIMELOCK_NOT_MET''"
| "ErrorCode_as_str TxErrValueConservation = ''TX_ERR_VALUE_CONSERVATION''"
| "ErrorCode_as_str TxErrTxNonceInvalid = ''TX_ERR_TX_NONCE_INVALID''"
| "ErrorCode_as_str TxErrSequenceInvalid = ''TX_ERR_SEQUENCE_INVALID''"
| "ErrorCode_as_str TxErrNonceReplay = ''TX_ERR_NONCE_REPLAY''"
| "ErrorCode_as_str TxErrCovenantTypeInvalid = ''TX_ERR_COVENANT_TYPE_INVALID''"
| "ErrorCode_as_str TxErrVaultMalformed = ''TX_ERR_VAULT_MALFORMED''"
| "ErrorCode_as_str TxErrVaultParamsInvalid = ''TX_ERR_VAULT_PARAMS_INVALID''"
| "ErrorCode_as_str TxErrVaultKeysNotCanonical = ''TX_ERR_VAULT_KEYS_NOT_CANONICAL''"
| "ErrorCode_as_str TxErrVaultWhitelistNotCanonical = ''TX_ERR_VAULT_WHITELIST_NOT_CANONICAL''"
| "ErrorCode_as_str TxErrVaultOwnerDestinationForbidden = ''TX_ERR_VAULT_OWNER_DESTINATION_FORBIDDEN''"
| "ErrorCode_as_str TxErrVaultOwnerAuthRequired = ''TX_ERR_VAULT_OWNER_AUTH_REQUIRED''"
| "ErrorCode_as_str TxErrVaultFeeSponsorForbidden = ''TX_ERR_VAULT_FEE_SPONSOR_FORBIDDEN''"
| "ErrorCode_as_str TxErrVaultMultiInputForbidden = ''TX_ERR_VAULT_MULTI_INPUT_FORBIDDEN''"
| "ErrorCode_as_str TxErrVaultOutputNotWhitelisted = ''TX_ERR_VAULT_OUTPUT_NOT_WHITELISTED''"
| "ErrorCode_as_str TxErrMissingUtxo = ''TX_ERR_MISSING_UTXO''"
| "ErrorCode_as_str TxErrCoinbaseImmature = ''TX_ERR_COINBASE_IMMATURE''"
| "ErrorCode_as_str BlockErrParse = ''BLOCK_ERR_PARSE''"
| "ErrorCode_as_str BlockErrWeightExceeded = ''BLOCK_ERR_WEIGHT_EXCEEDED''"
| "ErrorCode_as_str BlockErrAnchorBytesExceeded = ''BLOCK_ERR_ANCHOR_BYTES_EXCEEDED''"
| "ErrorCode_as_str BlockErrPowInvalid = ''BLOCK_ERR_POW_INVALID''"
| "ErrorCode_as_str BlockErrTargetInvalid = ''BLOCK_ERR_TARGET_INVALID''"
| "ErrorCode_as_str BlockErrLinkageInvalid = ''BLOCK_ERR_LINKAGE_INVALID''"
| "ErrorCode_as_str BlockErrMerkleInvalid = ''BLOCK_ERR_MERKLE_INVALID''"
| "ErrorCode_as_str BlockErrWitnessCommitment = ''BLOCK_ERR_WITNESS_COMMITMENT''"
| "ErrorCode_as_str BlockErrCoinbaseInvalid = ''BLOCK_ERR_COINBASE_INVALID''"
| "ErrorCode_as_str BlockErrSubsidyExceeded = ''BLOCK_ERR_SUBSIDY_EXCEEDED''"
| "ErrorCode_as_str BlockErrTimestampOld = ''BLOCK_ERR_TIMESTAMP_OLD''"
| "ErrorCode_as_str BlockErrTimestampFuture = ''BLOCK_ERR_TIMESTAMP_FUTURE''"
| "ErrorCode_as_str BlockErrDaIncomplete = ''BLOCK_ERR_DA_INCOMPLETE''"
| "ErrorCode_as_str BlockErrDaChunkHashInvalid = ''BLOCK_ERR_DA_CHUNK_HASH_INVALID''"
| "ErrorCode_as_str BlockErrDaSetInvalid = ''BLOCK_ERR_DA_SET_INVALID''"
| "ErrorCode_as_str BlockErrDaPayloadCommitInvalid = ''BLOCK_ERR_DA_PAYLOAD_COMMIT_INVALID''"
| "ErrorCode_as_str BlockErrDaBatchExceeded = ''BLOCK_ERR_DA_BATCH_EXCEEDED''"

record TxError =
  err_code :: ErrorCode
  err_msg :: string

definition TxError_new :: "ErrorCode \<Rightarrow> string \<Rightarrow> TxError" where
  "TxError_new c m = \<lparr>err_code = c, err_msg = m\<rparr>"

definition TxError_fmt :: "TxError \<Rightarrow> string" where
  "TxError_fmt e =
    (if err_msg e = [] then ErrorCode_as_str (err_code e)
     else ErrorCode_as_str (err_code e) @ '': '' @ err_msg e)"

type_synonym 'a res = "TxError + 'a"

abbreviation Err :: "ErrorCode \<Rightarrow> string \<Rightarrow> 'a res" where
  "Err c m \<equiv> Inl (TxError_new c m)"

abbreviation Ok :: "'a \<Rightarrow> 'e + 'a" where
  "Ok x \<equiv> Inr x"

lemma TxError_new_sel [simp]:
  "err_code (TxError_new c m) = c"
  "err_msg (TxError_new c m) = m"
  by (simp_all add: TxError_new_def)

lemma TxError_new_inject [simp]:
  "TxError_new c m = TxError_new c' m' \<longleftrightarrow> c = c' \<and> m = m'"
  by (simp add: TxError_new_def)

text \<open>The simplifier does not look inside an error value.\<close>

lemma TxError_new_cong [cong]: "TxError_new c m = TxError_new c m"
  by (rule refl)

section \<open>Constants\<close>

definition WITNESS_DISCOUNT_DIVISOR :: u64 where [const_defs]:
  "WITNESS_DISCOUNT_DIVISOR = 4"

definition TARGET_BLOCK_INTERVAL :: u64 where [const_defs]:
  "TARGET_BLOCK_INTERVAL = 120"

definition WINDOW_SIZE :: u64 where [const_defs]:
  "WINDOW_SIZE = 10080"

definition COINBASE_MATURITY :: u64 where [const_defs]:
  "COINBASE_MATURITY = 100"

definition MAX_FUTURE_DRIFT :: u64 where [const_defs]:
  "MAX_FUTURE_DRIFT = 7200"

definition MAX_TIMESTAMP_STEP_PER_BLOCK :: u64 where [const_defs]:
  "MAX_TIMESTAMP_STEP_PER_BLOCK = 10 * TARGET_BLOCK_INTERVAL"

definition GENESIS_ALLOCATION :: u64 where [const_defs]:
  "GENESIS_ALLOCATION = 100000000000000"

definition MINEABLE_CAP :: u64 where [const_defs]:
  "MINEABLE_CAP = 4900000000000000"

definition EMISSION_SPEED_FACTOR :: u8 where [const_defs]:
  "EMISSION_SPEED_FACTOR = 20"

definition TAIL_EMISSION_PER_BLOCK :: u64 where [const_defs]:
  "TAIL_EMISSION_PER_BLOCK = 19025875"

definition MAX_BLOCK_WEIGHT :: u64 where [const_defs]:
  "MAX_BLOCK_WEIGHT = 68000000"

definition MAX_DA_BYTES_PER_BLOCK :: u64 where [const_defs]:
  "MAX_DA_BYTES_PER_BLOCK = 32000000"

definition MAX_DA_MANIFEST_BYTES_PER_TX :: u64 where [const_defs]:
  "MAX_DA_MANIFEST_BYTES_PER_TX = 65536"

definition CHUNK_BYTES :: u64 where [const_defs]:
  "CHUNK_BYTES = 524288"

definition MAX_DA_BATCHES_PER_BLOCK :: u64 where [const_defs]:
  "MAX_DA_BATCHES_PER_BLOCK = 128"

definition MAX_DA_CHUNK_COUNT :: u64 where [const_defs]:
  "MAX_DA_CHUNK_COUNT = MAX_DA_BYTES_PER_BLOCK div CHUNK_BYTES"

definition MAX_ANCHOR_PAYLOAD_SIZE :: u64 where [const_defs]:
  "MAX_ANCHOR_PAYLOAD_SIZE = 65536"

definition MAX_COVENANT_DATA_PER_OUTPUT :: u64 where [const_defs]:
  "MAX_COVENANT_DATA_PER_OUTPUT = MAX_ANCHOR_PAYLOAD_SIZE"

definition MAX_ANCHOR_BYTES_PER_BLOCK :: u64 where [const_defs]:
  "MAX_ANCHOR_BYTES_PER_BLOCK = 131072"

definition MAX_P2PK_COVENANT_DATA :: u64 where [const_defs]:
  "MAX_P2PK_COVENANT_DATA = 33"

definition MAX_HTLC_COVENANT_DATA :: u64 where [const_defs]:
  "MAX_HTLC_COVENANT_DATA = 105"

definition MIN_HTLC_PREIMAGE_BYTES :: u64 where [const_defs]:
  "MIN_HTLC_PREIMAGE_BYTES = 16"

definition MAX_HTLC_PREIMAGE_BYTES :: u64 where [const_defs]:
  "MAX_HTLC_PREIMAGE_BYTES = 256"

definition MAX_SIMPLICITY_STATE_BYTES :: u64 where [const_defs]:
  "MAX_SIMPLICITY_STATE_BYTES = 512"

definition SIMPLICITY_MAX_GROUP_OUTPUTS :: nat where [const_defs]:
  "SIMPLICITY_MAX_GROUP_OUTPUTS = 8"

definition MAX_VAULT_KEYS :: u8 where [const_defs]:
  "MAX_VAULT_KEYS = 12"

definition MAX_VAULT_WHITELIST_ENTRIES :: u16 where [const_defs]:
  "MAX_VAULT_WHITELIST_ENTRIES = 1024"

definition MAX_MULTISIG_KEYS :: u8 where [const_defs]:
  "MAX_MULTISIG_KEYS = 12"

definition COV_TYPE_MULTISIG :: u16 where [const_defs]:
  "COV_TYPE_MULTISIG = 0x0104"

definition COV_TYPE_CORE_EXT :: u16 where [const_defs]:
  "COV_TYPE_CORE_EXT = 0x0102"

definition COV_TYPE_CORE_STEALTH :: u16 where [const_defs]:
  "COV_TYPE_CORE_STEALTH = 0x0105"

definition CORE_STEALTH_WITNESS_SLOTS :: u64 where [const_defs]:
  "CORE_STEALTH_WITNESS_SLOTS = 1"

definition COV_TYPE_CORE_SIMPLICITY :: u16 where [const_defs]:
  "COV_TYPE_CORE_SIMPLICITY = 0x0106"

definition SIMPLICITY_WITNESS_SLOTS :: u64 where [const_defs]:
  "SIMPLICITY_WITNESS_SLOTS = 1"

definition MAX_TX_INPUTS :: u64 where [const_defs]:
  "MAX_TX_INPUTS = 1024"

definition MAX_TX_OUTPUTS :: u64 where [const_defs]:
  "MAX_TX_OUTPUTS = 1024"

definition MAX_WITNESS_ITEMS :: u64 where [const_defs]:
  "MAX_WITNESS_ITEMS = 1024"

definition MAX_WITNESS_BYTES_PER_TX :: nat where [const_defs]:
  "MAX_WITNESS_BYTES_PER_TX = 100000"

definition MAX_SCRIPT_SIG_BYTES :: u64 where [const_defs]:
  "MAX_SCRIPT_SIG_BYTES = 32"

definition TX_WIRE_VERSION :: u32 where [const_defs]:
  "TX_WIRE_VERSION = 1"

definition SUITE_ID_SENTINEL :: u8 where [const_defs]:
  "SUITE_ID_SENTINEL = 0x00"

definition SUITE_ID_ML_DSA_87 :: u8 where [const_defs]:
  "SUITE_ID_ML_DSA_87 = 0x01"

definition SUITE_ID_SIMPLICITY_ENVELOPE :: u8 where [const_defs]:
  "SUITE_ID_SIMPLICITY_ENVELOPE = 0xf0"

definition MAX_SIMPLICITY_PROGRAM_BYTES :: u64 where [const_defs]:
  "MAX_SIMPLICITY_PROGRAM_BYTES = 16384"

definition MAX_SIMPLICITY_ENVELOPE_BYTES :: nat where [const_defs]:
  "MAX_SIMPLICITY_ENVELOPE_BYTES = 32768"

definition COV_TYPE_P2PK :: u16 where [const_defs]:
  "COV_TYPE_P2PK = 0x0000"

definition COV_TYPE_ANCHOR :: u16 where [const_defs]:
  "COV_TYPE_ANCHOR = 0x0002"

definition COV_TYPE_RESERVED_FUTURE :: u16 where [const_defs]:
  "COV_TYPE_RESERVED_FUTURE = 0x00FF"

definition COV_TYPE_HTLC :: u16 where [const_defs]:
  "COV_TYPE_HTLC = 0x0100"

definition COV_TYPE_VAULT :: u16 where [const_defs]:
  "COV_TYPE_VAULT = 0x0101"

definition COV_TYPE_DA_COMMIT :: u16 where [const_defs]:
  "COV_TYPE_DA_COMMIT = 0x0103"

definition LOCK_MODE_HEIGHT :: u8 where [const_defs]:
  "LOCK_MODE_HEIGHT = 0x00"

definition LOCK_MODE_TIMESTAMP :: u8 where [const_defs]:
  "LOCK_MODE_TIMESTAMP = 0x01"

definition ML_DSA_87_PUBKEY_BYTES :: u64 where [const_defs]:
  "ML_DSA_87_PUBKEY_BYTES = 2592"

definition ML_DSA_87_SIG_BYTES :: u64 where [const_defs]:
  "ML_DSA_87_SIG_BYTES = 4627"

definition ML_KEM_1024_CT_BYTES :: u64 where [const_defs]:
  "ML_KEM_1024_CT_BYTES = 1568"

definition MAX_STEALTH_COVENANT_DATA :: u64 where [const_defs]:
  "MAX_STEALTH_COVENANT_DATA = 1600"

definition SIGHASH_ALL :: u8 where [const_defs]:
  "SIGHASH_ALL = 0x01"

definition SIGHASH_NONE :: u8 where [const_defs]:
  "SIGHASH_NONE = 0x02"

definition SIGHASH_SINGLE :: u8 where [const_defs]:
  "SIGHASH_SINGLE = 0x03"

definition SIGHASH_ANYONECANPAY :: u8 where [const_defs]:
  "SIGHASH_ANYONECANPAY = 0x80"

definition VERIFY_COST_ML_DSA_87 :: u64 where [const_defs]:
  "VERIFY_COST_ML_DSA_87 = 8"

definition VERIFY_COST_UNKNOWN_SUITE :: u64 where [const_defs]:
  "VERIFY_COST_UNKNOWN_SUITE = 64"

definition SIMPLICITY_BASE_VERIFY_COST :: u64 where [const_defs]:
  "SIMPLICITY_BASE_VERIFY_COST = 64"

definition SIGNAL_WINDOW :: u64 where [const_defs]:
  "SIGNAL_WINDOW = 2016"

definition SIGNAL_THRESHOLD :: u32 where [const_defs]:
  "SIGNAL_THRESHOLD = 1815"

definition FALLOW_PERIOD :: u64 where [const_defs]:
  "FALLOW_PERIOD = 2016"

definition POW_LIMIT :: bytes32 where [const_defs]:
  "POW_LIMIT = replicate 32 0xff"

text \<open>The constants as natural numbers.\<close>

lemma const_unat [simp]:
  "unat WITNESS_DISCOUNT_DIVISOR = 4"
  "unat TARGET_BLOCK_INTERVAL = 120"
  "unat WINDOW_SIZE = 10080"
  "unat COINBASE_MATURITY = 100"
  "unat MAX_FUTURE_DRIFT = 7200"
  "unat MAX_TIMESTAMP_STEP_PER_BLOCK = 1200"
  "unat GENESIS_ALLOCATION = 100000000000000"
  "unat MINEABLE_CAP = 4900000000000000"
  "unat EMISSION_SPEED_FACTOR = 20"
  "unat TAIL_EMISSION_PER_BLOCK = 19025875"
  "unat MAX_BLOCK_WEIGHT = 68000000"
  "unat MAX_DA_BYTES_PER_BLOCK = 32000000"
  "unat MAX_DA_MANIFEST_BYTES_PER_TX = 65536"
  "unat CHUNK_BYTES = 524288"
  "unat MAX_DA_BATCHES_PER_BLOCK = 128"
  "unat MAX_DA_CHUNK_COUNT = 61"
  "unat MAX_ANCHOR_PAYLOAD_SIZE = 65536"
  "unat MAX_COVENANT_DATA_PER_OUTPUT = 65536"
  "unat MAX_ANCHOR_BYTES_PER_BLOCK = 131072"
  "unat MAX_P2PK_COVENANT_DATA = 33"
  "unat MAX_HTLC_COVENANT_DATA = 105"
  "unat MIN_HTLC_PREIMAGE_BYTES = 16"
  "unat MAX_HTLC_PREIMAGE_BYTES = 256"
  "unat MAX_SIMPLICITY_STATE_BYTES = 512"
  "unat MAX_VAULT_KEYS = 12"
  "unat MAX_VAULT_WHITELIST_ENTRIES = 1024"
  "unat MAX_MULTISIG_KEYS = 12"
  "unat COV_TYPE_MULTISIG = 260"
  "unat COV_TYPE_CORE_EXT = 258"
  "unat COV_TYPE_CORE_STEALTH = 261"
  "unat CORE_STEALTH_WITNESS_SLOTS = 1"
  "unat COV_TYPE_CORE_SIMPLICITY = 262"
  "unat SIMPLICITY_WITNESS_SLOTS = 1"
  "unat MAX_TX_INPUTS = 1024"
  "unat MAX_TX_OUTPUTS = 1024"
  "unat MAX_WITNESS_ITEMS = 1024"
  "unat MAX_SCRIPT_SIG_BYTES = 32"
  "unat TX_WIRE_VERSION = 1"
  "unat SUITE_ID_SENTINEL = 0"
  "unat SUITE_ID_ML_DSA_87 = 1"
  "unat SUITE_ID_SIMPLICITY_ENVELOPE = 240"
  "unat MAX_SIMPLICITY_PROGRAM_BYTES = 16384"
  "unat COV_TYPE_P2PK = 0"
  "unat COV_TYPE_ANCHOR = 2"
  "unat COV_TYPE_RESERVED_FUTURE = 255"
  "unat COV_TYPE_HTLC = 256"
  "unat COV_TYPE_VAULT = 257"
  "unat COV_TYPE_DA_COMMIT = 259"
  "unat LOCK_MODE_HEIGHT = 0"
  "unat LOCK_MODE_TIMESTAMP = 1"
  "unat ML_DSA_87_PUBKEY_BYTES = 2592"
  "unat ML_DSA_87_SIG_BYTES = 4627"
  "unat ML_KEM_1024_CT_BYTES = 1568"
  "unat MAX_STEALTH_COVENANT_DATA = 1600"
  "unat SIGHASH_ALL = 1"
  "unat SIGHASH_NONE = 2"
  "unat SIGHASH_SINGLE = 3"
  "unat SIGHASH_ANYONECANPAY = 128"
  "unat VERIFY_COST_ML_DSA_87 = 8"
  "unat VERIFY_COST_UNKNOWN_SUITE = 64"
  "unat SIMPLICITY_BASE_VERIFY_COST = 64"
  "unat SIGNAL_WINDOW = 2016"
  "unat SIGNAL_THRESHOLD = 1815"
  "unat FALLOW_PERIOD = 2016"
  by (simp_all add: const_defs unat_div)

text \<open>The covenant types are pairwise different.\<close>

lemma cov_type_neq [simp]:
  "COV_TYPE_P2PK \<noteq> COV_TYPE_ANCHOR"
  "COV_TYPE_P2PK \<noteq> COV_TYPE_RESERVED_FUTURE"
  "COV_TYPE_P2PK \<noteq> COV_TYPE_HTLC"
  "COV_TYPE_P2PK \<noteq> COV_TYPE_VAULT"
  "COV_TYPE_P2PK \<noteq> COV_TYPE_CORE_EXT"
  "COV_TYPE_P2PK \<noteq> COV_TYPE_DA_COMMIT"
  "COV_TYPE_P2PK \<noteq> COV_TYPE_MULTISIG"
  "COV_TYPE_P2PK \<noteq> COV_TYPE_CORE_STEALTH"
  "COV_TYPE_P2PK \<noteq> COV_TYPE_CORE_SIMPLICITY"
  "COV_TYPE_ANCHOR \<noteq> COV_TYPE_P2PK"
  "COV_TYPE_ANCHOR \<noteq> COV_TYPE_RESERVED_FUTURE"
  "COV_TYPE_ANCHOR \<noteq> COV_TYPE_HTLC"
  "COV_TYPE_ANCHOR \<noteq> COV_TYPE_VAULT"
  "COV_TYPE_ANCHOR \<noteq> COV_TYPE_CORE_EXT"
  "COV_TYPE_ANCHOR \<noteq> COV_TYPE_DA_COMMIT"
  "COV_TYPE_ANCHOR \<noteq> COV_TYPE_MULTISIG"
  "COV_TYPE_ANCHOR \<noteq> COV_TYPE_CORE_STEALTH"
  "COV_TYPE_ANCHOR \<noteq> COV_TYPE_CORE_SIMPLICITY"
  "COV_TYPE_RESERVED_FUTURE \<noteq> COV_TYPE_P2PK"
  "COV_TYPE_RESERVED_FUTURE \<noteq> COV_TYPE_ANCHOR"
  "COV_TYPE_RESERVED_FUTURE \<noteq> COV_TYPE_HTLC"
  "COV_TYPE_RESERVED_FUTURE \<noteq> COV_TYPE_VAULT"
  "COV_TYPE_RESERVED_FUTURE \<noteq> COV_TYPE_CORE_EXT"
  "COV_TYPE_RESERVED_FUTURE \<noteq> COV_TYPE_DA_COMMIT"
  "COV_TYPE_RESERVED_FUTURE \<noteq> COV_TYPE_MULTISIG"
  "COV_TYPE_RESERVED_FUTURE \<noteq> COV_TYPE_CORE_STEALTH"
  "COV_TYPE_RESERVED_FUTURE \<noteq> COV_TYPE_CORE_SIMPLICITY"
  "COV_TYPE_HTLC \<noteq> COV_TYPE_P2PK"
  "COV_TYPE_HTLC \<noteq> COV_TYPE_ANCHOR"
  "COV_TYPE_HTLC \<noteq> COV_TYPE_RESERVED_FUTURE"
  "COV_TYPE_HTLC \<noteq> COV_TYPE_VAULT"
  "COV_TYPE_HTLC \<noteq> COV_TYPE_CORE_EXT"
  "COV_TYPE_HTLC \<noteq> COV_TYPE_DA_COMMIT"
  "COV_TYPE_HTLC \<noteq> COV_TYPE_MULTISIG"
  "COV_TYPE_HTLC \<noteq> COV_TYPE_CORE_STEALTH"
  "COV_TYPE_HTLC \<noteq> COV_TYPE_CORE_SIMPLICITY"
  "COV_TYPE_VAULT \<noteq> COV_TYPE_P2PK"
  "COV_TYPE_VAULT \<noteq> COV_TYPE_ANCHOR"
  "COV_TYPE_VAULT \<noteq> COV_TYPE_RESERVED_FUTURE"
  "COV_TYPE_VAULT \<noteq> COV_TYPE_HTLC"
  "COV_TYPE_VAULT \<noteq> COV_TYPE_CORE_EXT"
  "COV_TYPE_VAULT \<noteq> COV_TYPE_DA_COMMIT"
  "COV_TYPE_VAULT \<noteq> COV_TYPE_MULTISIG"
  "COV_TYPE_VAULT \<noteq> COV_TYPE_CORE_STEALTH"
  "COV_TYPE_VAULT \<noteq> COV_TYPE_CORE_SIMPLICITY"
  "COV_TYPE_CORE_EXT \<noteq> COV_TYPE_P2PK"
  "COV_TYPE_CORE_EXT \<noteq> COV_TYPE_ANCHOR"
  "COV_TYPE_CORE_EXT \<noteq> COV_TYPE_RESERVED_FUTURE"
  "COV_TYPE_CORE_EXT \<noteq> COV_TYPE_HTLC"
  "COV_TYPE_CORE_EXT \<noteq> COV_TYPE_VAULT"
  "COV_TYPE_CORE_EXT \<noteq> COV_TYPE_DA_COMMIT"
  "COV_TYPE_CORE_EXT \<noteq> COV_TYPE_MULTISIG"
  "COV_TYPE_CORE_EXT \<noteq> COV_TYPE_CORE_STEALTH"
  "COV_TYPE_CORE_EXT \<noteq> COV_TYPE_CORE_SIMPLICITY"
  "COV_TYPE_DA_COMMIT \<noteq> COV_TYPE_P2PK"
  "COV_TYPE_DA_COMMIT \<noteq> COV_TYPE_ANCHOR"
  "COV_TYPE_DA_COMMIT \<noteq> COV_TYPE_RESERVED_FUTURE"
  "COV_TYPE_DA_COMMIT \<noteq> COV_TYPE_HTLC"
  "COV_TYPE_DA_COMMIT \<noteq> COV_TYPE_VAULT"
  "COV_TYPE_DA_COMMIT \<noteq> COV_TYPE_CORE_EXT"
  "COV_TYPE_DA_COMMIT \<noteq> COV_TYPE_MULTISIG"
  "COV_TYPE_DA_COMMIT \<noteq> COV_TYPE_CORE_STEALTH"
  "COV_TYPE_DA_COMMIT \<noteq> COV_TYPE_CORE_SIMPLICITY"
  "COV_TYPE_MULTISIG \<noteq> COV_TYPE_P2PK"
  "COV_TYPE_MULTISIG \<noteq> COV_TYPE_ANCHOR"
  "COV_TYPE_MULTISIG \<noteq> COV_TYPE_RESERVED_FUTURE"
  "COV_TYPE_MULTISIG \<noteq> COV_TYPE_HTLC"
  "COV_TYPE_MULTISIG \<noteq> COV_TYPE_VAULT"
  "COV_TYPE_MULTISIG \<noteq> COV_TYPE_CORE_EXT"
  "COV_TYPE_MULTISIG \<noteq> COV_TYPE_DA_COMMIT"
  "COV_TYPE_MULTISIG \<noteq> COV_TYPE_CORE_STEALTH"
  "COV_TYPE_MULTISIG \<noteq> COV_TYPE_CORE_SIMPLICITY"
  "COV_TYPE_CORE_STEALTH \<noteq> COV_TYPE_P2PK"
  "COV_TYPE_CORE_STEALTH \<noteq> COV_TYPE_ANCHOR"
  "COV_TYPE_CORE_STEALTH \<noteq> COV_TYPE_RESERVED_FUTURE"
  "COV_TYPE_CORE_STEALTH \<noteq> COV_TYPE_HTLC"
  "COV_TYPE_CORE_STEALTH \<noteq> COV_TYPE_VAULT"
  "COV_TYPE_CORE_STEALTH \<noteq> COV_TYPE_CORE_EXT"
  "COV_TYPE_CORE_STEALTH \<noteq> COV_TYPE_DA_COMMIT"
  "COV_TYPE_CORE_STEALTH \<noteq> COV_TYPE_MULTISIG"
  "COV_TYPE_CORE_STEALTH \<noteq> COV_TYPE_CORE_SIMPLICITY"
  "COV_TYPE_CORE_SIMPLICITY \<noteq> COV_TYPE_P2PK"
  "COV_TYPE_CORE_SIMPLICITY \<noteq> COV_TYPE_ANCHOR"
  "COV_TYPE_CORE_SIMPLICITY \<noteq> COV_TYPE_RESERVED_FUTURE"
  "COV_TYPE_CORE_SIMPLICITY \<noteq> COV_TYPE_HTLC"
  "COV_TYPE_CORE_SIMPLICITY \<noteq> COV_TYPE_VAULT"
  "COV_TYPE_CORE_SIMPLICITY \<noteq> COV_TYPE_CORE_EXT"
  "COV_TYPE_CORE_SIMPLICITY \<noteq> COV_TYPE_DA_COMMIT"
  "COV_TYPE_CORE_SIMPLICITY \<noteq> COV_TYPE_MULTISIG"
  "COV_TYPE_CORE_SIMPLICITY \<noteq> COV_TYPE_CORE_STEALTH"
  by (simp_all add: const_defs)

end
