(* ===== verification/Wire.thy ===== *)
theory Wire
  imports Base
begin

text \<open>
  The wire reader of \<^verbatim>\<open>wire_read.rs\<close> and the CompactSize integers of
  \<^verbatim>\<open>compactsize.rs\<close>. A reader method that advances \<open>off\<close> returns the advanced
  reader beside its value; on an error the reader is dropped by every caller.

  A successful read is characterised by the relation \<open>reads r bs r'\<close>: the
  reader moved from \<open>r\<close> to \<open>r'\<close> over exactly the bytes \<open>bs\<close>. The locale
  \<open>codec\<close> is the contract between a parser and an encoder, and it lifts the
  contract from an element to a counted list.
\<close>

abbreviation len64 :: "'a list \<Rightarrow> u64" where
  "len64 xs \<equiv> of_nat (length xs)"

section \<open>The reader\<close>

record Reader =
  rd_b :: bytes
  rd_off :: nat

definition Reader_new :: "bytes \<Rightarrow> Reader" where
  "Reader_new b = \<lparr>rd_b = b, rd_off = 0\<rparr>"

definition offset :: "Reader \<Rightarrow> nat" where
  "offset r = rd_off r"

definition checked_end :: "Reader \<Rightarrow> nat \<Rightarrow> string \<Rightarrow> nat res" where
  "checked_end r n eof_msg =
    (if rd_off r + n \<le> usize_max \<and> rd_off r + n \<le> length (rd_b r)
     then Ok (rd_off r + n) else Err TxErrParse eof_msg)"

definition read_u8 :: "Reader \<Rightarrow> (u8 \<times> Reader) res" where
  "read_u8 r = and_then (checked_end r 1 ''unexpected EOF (u8)'')
    (\<lambda>end'. Ok (rd_b r ! rd_off r, r\<lparr>rd_off := end'\<rparr>))"

definition read_u16_le :: "Reader \<Rightarrow> (u16 \<times> Reader) res" where
  "read_u16_le r = and_then (checked_end r 2 ''unexpected EOF (u16le)'')
    (\<lambda>end'. Ok (from_le16 (slice (rd_b r) (rd_off r) end'), r\<lparr>rd_off := end'\<rparr>))"

definition read_u32_le :: "Reader \<Rightarrow> (u32 \<times> Reader) res" where
  "read_u32_le r = and_then (checked_end r 4 ''unexpected EOF (u32le)'')
    (\<lambda>end'. Ok (from_le32 (slice (rd_b r) (rd_off r) end'), r\<lparr>rd_off := end'\<rparr>))"

definition read_u64_le :: "Reader \<Rightarrow> (u64 \<times> Reader) res" where
  "read_u64_le r = and_then (checked_end r 8 ''unexpected EOF (u64le)'')
    (\<lambda>end'. Ok (from_le64 (slice (rd_b r) (rd_off r) end'), r\<lparr>rd_off := end'\<rparr>))"

definition read_bytes :: "Reader \<Rightarrow> nat \<Rightarrow> (bytes \<times> Reader) res" where
  "read_bytes r n = and_then (checked_end r n ''unexpected EOF (bytes)'')
    (\<lambda>end'. Ok (slice (rd_b r) (rd_off r) end', r\<lparr>rd_off := end'\<rparr>))"

section \<open>CompactSize\<close>

definition read_compact_size :: "Reader \<Rightarrow> ((u64 \<times> nat) \<times> Reader) res" where
  "read_compact_size r =
    (let start = offset r in
     and_then (read_u8 r) (\<lambda>(tag, r).
     and_then
       (if tag \<le> 0xfc then Ok (ucast tag, True, r)
        else if tag = 0xfd then
          and_then (read_u16_le r) (\<lambda>(w, r). let v = ucast w in Ok (v, 0xfd \<le> v, r))
        else if tag = 0xfe then
          and_then (read_u32_le r) (\<lambda>(w, r). let v = ucast w in Ok (v, 0xffff < v, r))
        else and_then (read_u64_le r) (\<lambda>(v, r). Ok (v, 0xffffffff < v, r)))
       (\<lambda>(v :: u64, minimal_ok, r).
         if \<not> minimal_ok then Err TxErrParse ''non-minimal CompactSize''
         else Ok ((v, offset r - start), r))))"

definition read_compact_size_bytes :: "bytes \<Rightarrow> (u64 \<times> nat) res" where
  "read_compact_size_bytes b = map_ok fst (read_compact_size (Reader_new b))"

text \<open>The bytes that \<open>encode_compact_size\<close> pushes onto its output vector.\<close>

definition encode_compact_size :: "u64 \<Rightarrow> bytes" where
  "encode_compact_size n =
    (if n \<le> 0xfc then [ucast n]
     else if n \<le> 0xffff then 0xfd # to_le16 (ucast n)
     else if n \<le> 0xffffffff then 0xfe # to_le32 (ucast n)
     else 0xff # to_le64 n)"

text \<open>\<open>for _ in 0..n { v.push(p(r)?) }\<close>.\<close>

fun parse_many :: "nat \<Rightarrow> (Reader \<Rightarrow> ('a \<times> Reader) res) \<Rightarrow> Reader \<Rightarrow> ('a list \<times> Reader) res" where
  "parse_many 0 p r = Ok ([], r)"
| "parse_many (Suc n) p r =
    and_then (p r) (\<lambda>(x, r). and_then (parse_many n p r) (\<lambda>(xs, r). Ok (x # xs, r)))"

section \<open>What a successful read consumed\<close>

definition reads :: "Reader \<Rightarrow> bytes \<Rightarrow> Reader \<Rightarrow> bool" where
  "reads r bs r' \<longleftrightarrow>
     r' = r\<lparr>rd_off := rd_off r + length bs\<rparr> \<and>
     rd_off r + length bs \<le> usize_max \<and>
     rd_off r + length bs \<le> length (rd_b r) \<and>
     take (length bs) (drop (rd_off r) (rd_b r)) = bs"

lemma take_append_split:
  "take (m + n) xs = a @ b \<longleftrightarrow> take m xs = a \<and> take n (drop m xs) = b"
  if "length a = m" and "m \<le> length xs"
  using that by (simp add: take_add append_eq_append_conv)

lemma reads_append:
  "reads r (a @ b) r' \<longleftrightarrow> (\<exists>r1. reads r a r1 \<and> reads r1 b r')"
proof (cases "rd_off r + length a \<le> length (rd_b r)")
  case True
  have "take (length a + length b) (drop (rd_off r) (rd_b r)) = a @ b \<longleftrightarrow>
      take (length a) (drop (rd_off r) (rd_b r)) = a \<and>
      take (length b) (drop (length a) (drop (rd_off r) (rd_b r))) = b"
    by (rule take_append_split) (use True in simp_all)
  then show ?thesis
    unfolding reads_def using True by (auto simp: add.assoc add.commute)
next
  case False
  then show ?thesis by (auto simp: reads_def)
qed

definition rd_valid :: "Reader \<Rightarrow> bool" where
  "rd_valid r \<longleftrightarrow> rd_off r \<le> usize_max \<and> rd_off r \<le> length (rd_b r)"

lemma reads_valid: "reads r bs r' \<Longrightarrow> rd_valid r'"
  by (simp add: reads_def rd_valid_def)

lemma reads_Nil: "reads r [] r' \<longleftrightarrow> r' = r \<and> rd_valid r"
  by (auto simp: reads_def rd_valid_def)

lemma reads_offset: "reads r bs r' \<Longrightarrow> offset r' = offset r + length bs"
  by (simp add: reads_def offset_def)

lemma reads_inj: "reads r bs r1 \<Longrightarrow> reads r cs r2 \<Longrightarrow> length bs = length cs \<Longrightarrow> bs = cs \<and> r1 = r2"
  by (simp add: reads_def)

lemma reads_Reader_new:
  "reads (Reader_new b) bs r' \<longleftrightarrow>
     (\<exists>tl. b = bs @ tl) \<and> length bs \<le> usize_max \<and> r' = \<lparr>rd_b = b, rd_off = length bs\<rparr>"
proof -
  have "length bs \<le> length b \<and> take (length bs) b = bs \<longleftrightarrow> (\<exists>tl. b = bs @ tl)"
    by (metis append_eq_conv_conj append_take_drop_id length_append le_add1)
  then show ?thesis by (auto simp: reads_def Reader_new_def)
qed

named_theorems wire_simps \<open>exact characterisations of successful reads\<close>

lemma checked_end_Inr [simp]:
  "(checked_end r n m = Inr e) =
     (e = rd_off r + n \<and> rd_off r + n \<le> usize_max \<and> rd_off r + n \<le> length (rd_b r))"
  by (auto simp: checked_end_def)

lemma read_bytes_iff [wire_simps]:
  "(read_bytes r n = Inr (v, r')) = (length v = n \<and> reads r v r')"
  by (auto simp: read_bytes_def reads_def slice_def)

lemma read_u8_iff [wire_simps]: "(read_u8 r = Inr (v, r')) = reads r [v] r'"
  by (auto simp: read_u8_def reads_def take_Suc_conv_app_nth hd_drop_conv_nth Cons_nth_drop_Suc [symmetric])

lemma read_fixed_iff:
  assumes len: "\<And>v. length (to v) = n" and left: "\<And>v. from (to v) = v"
    and right: "\<And>bs. length bs = n \<Longrightarrow> to (from bs) = bs"
  shows "(and_then (checked_end r n m)
      (\<lambda>e. Inr (from (slice (rd_b r) (rd_off r) e), r\<lparr>rd_off := e\<rparr>)) = Inr (v, r')) =
    reads r (to v) r'"
proof -
  have "from bs = v \<longleftrightarrow> bs = to v" if "length bs = n" for bs
    using left right that by metis
  moreover have "length (slice (rd_b r) (rd_off r) (rd_off r + n)) = n"
    if "rd_off r + n \<le> length (rd_b r)" using that by simp
  ultimately show ?thesis
    by (auto simp: reads_def slice_def len right)
qed

lemma to_le_length [simp]:
  "length (to_le16 a) = 2" "length (to_le32 b) = 4" "length (to_le64 c) = 8"
  by (simp_all add: to_le16_def to_le32_def to_le64_def)

lemma of_nat_le_nat_nat_le:
  "LENGTH('a) = 8 * n \<Longrightarrow> of_nat (le_nat (nat_le n (unat w))) = w"
  for w :: "'a::len word"
  using unsigned_less [of w, where 'a = nat] by (simp add: le_nat_nat_le power_mult)

lemma nat_le_unat_le_nat:
  "LENGTH('a) = 8 * length bs \<Longrightarrow> nat_le (length bs) (unat (of_nat (le_nat bs) :: 'a::len word)) = bs"
  using le_nat_bound [of bs] by (simp add: unat_of_nat power_mult nat_le_le_nat)

lemma from_to_le [simp]:
  "from_le16 (to_le16 a) = a" "from_le32 (to_le32 b) = b" "from_le64 (to_le64 c) = c"
  by (simp_all add: from_le16_def to_le16_def from_le32_def to_le32_def from_le64_def to_le64_def
      of_nat_le_nat_nat_le)

lemma to_from_le:
  "length bs = 2 \<Longrightarrow> to_le16 (from_le16 bs) = bs"
  "length bs = 4 \<Longrightarrow> to_le32 (from_le32 bs) = bs"
  "length bs = 8 \<Longrightarrow> to_le64 (from_le64 bs) = bs"
  using nat_le_unat_le_nat [of bs, where 'a = 16] nat_le_unat_le_nat [of bs, where 'a = 32]
    nat_le_unat_le_nat [of bs, where 'a = 64]
  by (simp_all add: from_le16_def to_le16_def from_le32_def to_le32_def from_le64_def to_le64_def)

lemma to_le_inject [simp]:
  "to_le16 a = to_le16 a' \<longleftrightarrow> a = a'" "to_le32 b = to_le32 b' \<longleftrightarrow> b = b'"
  "to_le64 c = to_le64 c' \<longleftrightarrow> c = c'"
  using from_to_le by metis+

lemma read_u16_le_iff [wire_simps]: "(read_u16_le r = Inr (v, r')) = reads r (to_le16 v) r'"
  unfolding read_u16_le_def by (rule read_fixed_iff) (simp_all add: to_from_le)

lemma read_u32_le_iff [wire_simps]: "(read_u32_le r = Inr (v, r')) = reads r (to_le32 v) r'"
  unfolding read_u32_le_def by (rule read_fixed_iff) (simp_all add: to_from_le)

lemma read_u64_le_iff [wire_simps]: "(read_u64_le r = Inr (v, r')) = reads r (to_le64 v) r'"
  unfolding read_u64_le_def by (rule read_fixed_iff) (simp_all add: to_from_le)

lemma length_eq_unat: "length xs = unat w \<longleftrightarrow> w = len64 xs \<and> length xs < 2 ^ 64"
  for w :: u64
  using unsigned_less [of w, where 'a = nat]
  by (auto simp: word_unat_eq_iff unat_of_nat)

lemma len64_less: "length xs < 2 ^ 64 \<Longrightarrow> (M < len64 xs) = (unat M < length xs)"
  by (simp add: word_less_nat_alt unat_of_nat)

lemma unat_u64_le_usize_max [simp]: "\<not> usize_max < unat v" for v :: u64
  using unsigned_less [of v, where 'a = nat] by (simp add: usize_max_def)


definition adv :: "Reader \<Rightarrow> nat \<Rightarrow> Reader" where
  "adv r n = r\<lparr>rd_off := rd_off r + n\<rparr>"

definition fits :: "Reader \<Rightarrow> bytes \<Rightarrow> bool" where
  "fits r bs = reads r bs (adv r (length bs))"

lemma reads_iff: "reads r bs r' \<longleftrightarrow> fits r bs \<and> r' = adv r (length bs)"
  by (auto simp: fits_def adv_def reads_def)

lemma adv_adv [simp]: "adv (adv r m) n = adv r (m + n)"
  by (simp add: adv_def)

lemma fits_append: "fits r (a @ b) \<longleftrightarrow> fits r a \<and> fits (adv r (length a)) b"
  using reads_append [of r a b "adv r (length a + length b)"] by (auto simp: reads_iff)


lemma fits_Cons_append: "fits r (x # a @ b) \<longleftrightarrow> fits r [x] \<and> fits (adv r 1) (a @ b)"
  using fits_append [of r "[x]" "a @ b"] by simp

lemmas cursor_simps = reads_iff fits_append fits_Cons_append length_eq_unat len64_less add_ac

section \<open>Parser and encoder contract\<close>

locale codec =
  fixes dec :: "Reader \<Rightarrow> ('a \<times> Reader) res"
    and enc :: "'a \<Rightarrow> bytes"
    and wf :: "'a \<Rightarrow> bool"
  assumes dec_iff: "(dec r = Inr (x, r')) = (wf x \<and> reads r (enc x) r')"
begin

lemma many_iff:
  assumes "rd_valid r"
  shows "(parse_many n dec r = Inr (xs, r')) =
     (length xs = n \<and> list_all wf xs \<and> reads r (concat (map enc xs)) r')"
  using assms
proof (induction n arbitrary: r xs)
  case 0
  then show ?case by (auto simp: reads_Nil)
next
  case (Suc n)
  show ?case
  proof (cases xs)
    case Nil
    then show ?thesis by auto
  next
    case (Cons y ys)
    have "(parse_many (Suc n) dec r = Inr (xs, r')) =
        (\<exists>r1. wf y \<and> reads r (enc y) r1 \<and> parse_many n dec r1 = Inr (ys, r'))"
      using Cons by (auto simp: dec_iff)
    also have "\<dots> = (\<exists>r1. wf y \<and> reads r (enc y) r1 \<and> length ys = n \<and> list_all wf ys \<and>
        reads r1 (concat (map enc ys)) r')"
      using Suc.IH reads_valid by blast
    finally show ?thesis
      using Cons by (auto simp: reads_append)
  qed
qed

lemma counted_iff:
  "(reads r a r1 \<and> parse_many n dec r1 = Inr (xs, r')) =
   (reads r a r1 \<and> length xs = n \<and> list_all wf xs \<and> reads r1 (concat (map enc xs)) r')"
  using many_iff reads_valid by blast

lemma prefix_free:
  assumes "wf x" and "wf y" and "enc x @ a = enc y @ b"
    and "length (enc x @ a) \<le> usize_max"
  shows "x = y \<and> a = b"
proof -
  let ?r = "Reader_new (enc x @ a)"
  have "reads ?r (enc x) \<lparr>rd_b = enc x @ a, rd_off = length (enc x)\<rparr>"
    using assms(4) by (auto simp: reads_Reader_new)
  then have 1: "dec ?r = Inr (x, \<lparr>rd_b = enc x @ a, rd_off = length (enc x)\<rparr>)"
    using assms(1) by (simp add: dec_iff)
  have "reads ?r (enc y) \<lparr>rd_b = enc x @ a, rd_off = length (enc y)\<rparr>"
    using assms(3,4) by (metis reads_Reader_new length_append le_add1 order_trans)
  then have "dec ?r = Inr (y, \<lparr>rd_b = enc x @ a, rd_off = length (enc y)\<rparr>)"
    using assms(2) by (simp add: dec_iff)
  with 1 assms(3) show ?thesis by simp
qed

lemma concat_inject:
  assumes "list_all wf xs" and "list_all wf ys" and "concat (map enc xs) = concat (map enc ys)"
    and "length (concat (map enc xs)) \<le> usize_max" and "\<And>x. wf x \<Longrightarrow> enc x \<noteq> []"
  shows "xs = ys"
  using assms
proof (induction xs arbitrary: ys)
  case Nil
  then show ?case by (cases ys) auto
next
  case (Cons x xs)
  obtain y ys' where ys: "ys = y # ys'" using Cons.prems by (cases ys) auto
  have "x = y \<and> concat (map enc xs) = concat (map enc ys')"
    by (rule prefix_free) (use Cons.prems ys in auto)
  with Cons ys show ?case by auto
qed

end

section \<open>CompactSize is a codec\<close>

lemma reads_Cons: "reads r (x # ys) r' \<longleftrightarrow> (\<exists>r1. reads r [x] r1 \<and> reads r1 ys r')"
  using reads_append [of r "[x]" ys r'] by simp

lemma read_compact_size_complete:
  assumes "reads r (encode_compact_size v) r'"
  shows "\<exists>n. read_compact_size r = Inr ((v, n), r')"
proof -
  consider "v \<le> 0xfc" | "0xfc < v" "v \<le> 0xffff" | "0xffff < v" "v \<le> 0xffffffff" | "0xffffffff < v"
    by fastforce
  then show ?thesis
  proof cases
    case 1
    then have "(ucast v :: u8) \<le> 0xfc" "ucast (ucast v :: u8) = v"
      by (simp_all add: word_le_nat_alt unat_ucast word_unat_eq_iff)
    moreover have "read_u8 r = Inr (ucast v, r')"
      using assms 1 by (simp add: encode_compact_size_def wire_simps)
    ultimately show ?thesis by (simp add: read_compact_size_def Let_def)
  next
    case 2
    then have "encode_compact_size v = 0xfd # to_le16 (ucast v)"
      by (simp add: encode_compact_size_def word_le_nat_alt word_less_nat_alt)
    then obtain r1 where "read_u8 r = Inr (0xfd, r1)" "read_u16_le r1 = Inr (ucast v, r')"
      using assms by (auto simp: wire_simps reads_Cons [of _ _ "to_le16 _"])
    moreover have "ucast (ucast v :: u16) = v" "0xfd \<le> v"
      using 2 by (simp_all add: word_le_nat_alt word_less_nat_alt unat_ucast word_unat_eq_iff)
    ultimately show ?thesis by (simp add: read_compact_size_def Let_def)
  next
    case 3
    then have "encode_compact_size v = 0xfe # to_le32 (ucast v)"
      by (simp add: encode_compact_size_def word_le_nat_alt word_less_nat_alt)
    then obtain r1 where "read_u8 r = Inr (0xfe, r1)" "read_u32_le r1 = Inr (ucast v, r')"
      using assms by (auto simp: wire_simps reads_Cons [of _ _ "to_le32 _"])
    moreover have "ucast (ucast v :: u32) = v"
      using 3 by (simp add: word_le_nat_alt unat_ucast word_unat_eq_iff)
    ultimately show ?thesis using 3 by (simp add: read_compact_size_def Let_def)
  next
    case 4
    then have "encode_compact_size v = 0xff # to_le64 v"
      by (simp add: encode_compact_size_def word_le_nat_alt word_less_nat_alt)
    then obtain r1 where "read_u8 r = Inr (0xff, r1)" "read_u64_le r1 = Inr (v, r')"
      using assms by (auto simp: wire_simps reads_Cons [of _ _ "to_le64 _"])
    then show ?thesis using 4 by (simp add: read_compact_size_def Let_def)
  qed
qed

lemma read_compact_size_sound:
  assumes "read_compact_size r = Inr ((v, n), r')"
  shows "n = offset r' - offset r \<and> reads r (encode_compact_size v) r'"
proof -
  from assms obtain tag r1 where tag: "reads r [tag] r1" and n: "n = offset r' - offset r"
    by (auto simp: read_compact_size_def Let_def wire_simps split: if_splits)
  have t: "read_u8 r = Inr (tag, r1)" using tag by (simp add: wire_simps)
  consider "tag \<le> 0xfc" | "tag = 0xfd" | "tag = 0xfe" | "0xfc < tag" "tag \<noteq> 0xfd" "tag \<noteq> 0xfe" "tag = 0xff"
  proof -
    have "unat tag < 256" using unsigned_less [of tag, where 'a = nat] by simp
    then show ?thesis using that by (fastforce simp: word_le_nat_alt word_less_nat_alt word_unat_eq_iff)
  qed
  then have "reads r (encode_compact_size v) r'"
  proof cases
    case 1
    then have v: "v = ucast tag" "r' = r1" using assms t by (auto simp: read_compact_size_def Let_def)
    then have "v \<le> 0xfc" "ucast v = tag" using 1
      by (simp_all add: word_le_nat_alt unat_ucast word_unat_eq_iff)
    then show ?thesis using tag v(2) by (simp add: encode_compact_size_def)
  next
    case 2
    then obtain w where w: "reads r1 (to_le16 w) r'" "v = ucast w" "0xfd \<le> v"
      using assms t by (auto simp: read_compact_size_def Let_def wire_simps split: if_splits)
    then have "v \<le> 0xffff" "\<not> v \<le> 0xfc" "ucast v = w"
      using ucast_u64_eq_iff(2) [of v w] by (auto simp: word_le_nat_alt)
    then show ?thesis using tag 2 w(1) by (auto simp: encode_compact_size_def reads_Cons [of _ _ "to_le16 _"])
  next
    case 3
    then obtain w where w: "reads r1 (to_le32 w) r'" "v = ucast w" "0xffff < v"
      using assms t by (auto simp: read_compact_size_def Let_def wire_simps split: if_splits)
    then have "v \<le> 0xffffffff" "\<not> v \<le> 0xfc" "\<not> v \<le> 0xffff" "ucast v = w"
      using ucast_u64_eq_iff(3) [of v w] by (auto simp: word_le_nat_alt word_less_nat_alt)
    then show ?thesis using tag 3 w(1) by (auto simp: encode_compact_size_def reads_Cons [of _ _ "to_le32 _"])
  next
    case 4
    then have w: "reads r1 (to_le64 v) r'" "0xffffffff < v"
      using assms t by (auto simp: read_compact_size_def Let_def wire_simps split: if_splits)
    then have "\<not> v \<le> 0xfc" "\<not> v \<le> 0xffff" "\<not> v \<le> 0xffffffff"
      by (auto simp: word_le_nat_alt word_less_nat_alt)
    then show ?thesis using tag 4 w(1) by (auto simp: encode_compact_size_def reads_Cons [of _ _ "to_le64 _"])
  qed
  with n show ?thesis by blast
qed

lemma read_compact_size_iff [wire_simps]:
  "(read_compact_size r = Inr ((v, n), r')) =
     (n = length (encode_compact_size v) \<and> reads r (encode_compact_size v) r')"
proof
  assume *: "read_compact_size r = Inr ((v, n), r')"
  show "n = length (encode_compact_size v) \<and> reads r (encode_compact_size v) r'"
    using read_compact_size_sound [OF *] reads_offset by fastforce
next
  assume *: "n = length (encode_compact_size v) \<and> reads r (encode_compact_size v) r'"
  then obtain m where m: "read_compact_size r = Inr ((v, m), r')"
    using read_compact_size_complete by blast
  then have "m = n" using read_compact_size_sound [OF m] reads_offset * by fastforce
  with m show "read_compact_size r = Inr ((v, n), r')" by simp
qed

interpretation compact_size: codec "read_compact_size" "\<lambda>(v, n). encode_compact_size v"
  "\<lambda>(v, n). n = length (encode_compact_size v)"
  by unfold_locales (auto simp: wire_simps)

interpretation le16: codec read_u16_le to_le16 "\<lambda>_. True"
  by unfold_locales (simp add: wire_simps)

interpretation le32: codec read_u32_le to_le32 "\<lambda>_. True"
  by unfold_locales (simp add: wire_simps)

interpretation le64: codec read_u64_le to_le64 "\<lambda>_. True"
  by unfold_locales (simp add: wire_simps)

interpretation le8: codec read_u8 "\<lambda>b. [b]" "\<lambda>_. True"
  by unfold_locales (simp add: wire_simps)

lemma length_encode_compact_size:
  "length (encode_compact_size v) = (if unat v < 253 then 1 else if unat v < 65536 then 3
     else if unat v < 4294967296 then 5 else 9)"
  by (simp add: encode_compact_size_def word_le_nat_alt)

lemma fits_Reader_new: "fits (Reader_new b) bs \<longleftrightarrow> (\<exists>tl. b = bs @ tl) \<and> length bs \<le> usize_max"
  by (auto simp: fits_def adv_def reads_Reader_new) (simp_all add: Reader_new_def)

lemma offset_adv [simp]: "offset (adv r n) = offset r + n" "offset (Reader_new b) = 0"
  by (simp_all add: offset_def adv_def Reader_new_def)

lemma unat_len64: "length xs < 2 ^ 64 \<Longrightarrow> unat (len64 xs) = length xs"
  by (simp add: unat_of_nat)

lemma len64_eq_0: "length xs < 2 ^ 64 \<Longrightarrow> (len64 xs = 0) = (xs = [])"
  by (auto simp: word_unat_eq_iff unat_of_nat)

lemma length_encode_compact_size_le: "length (encode_compact_size v) \<le> 9"
  by (simp add: length_encode_compact_size)

section \<open>Properties\<close>

text \<open>
  C24: \<open>read_compact_size_bytes\<close> accepts exactly the strings that start with the
  encoding \<open>encode_compact_size\<close> produces for the returned value, and it reports
  the length of that encoding. Hence decoding inverts encoding, and a value has
  no second (non-minimal) encoding.
\<close>

theorem compact_size_canonical:
  "read_compact_size_bytes b = Ok (v, n) \<longleftrightarrow>
     (\<exists>tl. b = encode_compact_size v @ tl) \<and> n = length (encode_compact_size v)"
proof -
  have "length (encode_compact_size v) \<le> usize_max"
    by (simp add: encode_compact_size_def usize_max_def)
  then show ?thesis
    by (auto simp: read_compact_size_bytes_def wire_simps reads_Reader_new)
qed

end
