(* ===== verification/Tx_Codec.thy ===== *)
theory Tx_Codec
  imports Wire
begin

text \<open>
  Transactions: the structures and the parser of \<^verbatim>\<open>tx.rs\<close> and the serialiser
  \<open>marshal_tx\<close> of \<^verbatim>\<open>tx_helpers.rs\<close>. A \<open>[u8; 32]\<close> is a byte list; that the
  parser only builds lists of length 32 is part of \<open>wf_tx\<close>. The hash function of
  the external crate \<open>sha3\<close> is the argument \<open>sha3_256\<close> of \<open>parse_tx\<close>.
\<close>

section \<open>Structures\<close>

record TxInput =
  prev_txid :: bytes32
  prev_vout :: u32
  script_sig :: bytes
  sequence :: u32

record TxOutput =
  out_value :: u64
  out_covenant_type :: u16
  out_covenant_data :: bytes

record WitnessItem =
  suite_id :: u8
  pubkey :: bytes
  signature :: bytes

record DaCommitCore =
  dc_da_id :: bytes32
  chunk_count :: u16
  retl_domain_id :: bytes32
  batch_number :: u64
  tx_data_root :: bytes32
  state_root :: bytes32
  withdrawals_root :: bytes32
  batch_sig_suite :: u8
  batch_sig :: bytes

record DaChunkCore =
  dk_da_id :: bytes32
  chunk_index :: u16
  chunk_hash :: bytes32

record Tx =
  version :: u32
  tx_kind :: u8
  tx_nonce :: u64
  inputs :: "TxInput list"
  outputs :: "TxOutput list"
  locktime :: u32
  da_commit_core :: "DaCommitCore option"
  da_chunk_core :: "DaChunkCore option"
  witness :: "WitnessItem list"
  da_payload :: bytes

section \<open>Parsing\<close>

definition read_32 :: "Reader \<Rightarrow> (bytes32 \<times> Reader) res" where
  "read_32 r = read_bytes r 32"

definition parse_tx_prefix :: "Reader \<Rightarrow> ((u32 \<times> u8 \<times> u64) \<times> Reader) res" where
  "parse_tx_prefix r =
    and_then (read_u32_le r) (\<lambda>(ver, r).
    if ver \<noteq> TX_WIRE_VERSION then Err TxErrParse ''unsupported tx version''
    else and_then (read_u8 r) (\<lambda>(kind, r).
    if kind \<noteq> 0x00 \<and> kind \<noteq> 0x01 \<and> kind \<noteq> 0x02 then Err TxErrParse ''unsupported tx_kind''
    else and_then (read_u64_le r) (\<lambda>(nonce, r). Ok ((ver, kind, nonce), r))))"

definition parse_tx_input :: "Reader \<Rightarrow> (TxInput \<times> Reader) res" where
  "parse_tx_input r =
    and_then (read_32 r) (\<lambda>(txid, r).
    and_then (read_u32_le r) (\<lambda>(vout, r).
    and_then (read_compact_size r) (\<lambda>((script_sig_len, _), r).
    if script_sig_len > MAX_SCRIPT_SIG_BYTES then Err TxErrParse ''script_sig_len overflow''
    else and_then (read_bytes r (unat script_sig_len)) (\<lambda>(ssig, r).
    and_then (read_u32_le r) (\<lambda>(sq, r).
      Ok (\<lparr>prev_txid = txid, prev_vout = vout, script_sig = ssig, sequence = sq\<rparr>, r))))))"

definition parse_tx_inputs :: "Reader \<Rightarrow> (TxInput list \<times> Reader) res" where
  "parse_tx_inputs r =
    and_then (read_compact_size r) (\<lambda>((in_count, _), r).
    if in_count > MAX_TX_INPUTS then Err TxErrParse ''input_count overflow''
    else parse_many (unat in_count) parse_tx_input r)"

definition parse_tx_output :: "Reader \<Rightarrow> (TxOutput \<times> Reader) res" where
  "parse_tx_output r =
    and_then (read_u64_le r) (\<lambda>(val, r).
    and_then (read_u16_le r) (\<lambda>(cov, r).
    and_then (read_compact_size r) (\<lambda>((cov_len_u64, _), r).
    if unat cov_len_u64 > usize_max then Err TxErrParse ''covenant_data_len overflows usize''
    else if cov_len_u64 > MAX_COVENANT_DATA_PER_OUTPUT
      then Err TxErrParse ''covenant_data_len exceeds MAX_COVENANT_DATA_PER_OUTPUT''
    else and_then (read_bytes r (unat cov_len_u64)) (\<lambda>(data, r).
      Ok (\<lparr>out_value = val, out_covenant_type = cov, out_covenant_data = data\<rparr>, r)))))"

definition parse_tx_outputs :: "Reader \<Rightarrow> (TxOutput list \<times> Reader) res" where
  "parse_tx_outputs r =
    and_then (read_compact_size r) (\<lambda>((out_count, _), r).
    if out_count > MAX_TX_OUTPUTS then Err TxErrParse ''output_count overflow''
    else parse_many (unat out_count) parse_tx_output r)"

record DaCommitFields =
  f_retl_domain_id :: bytes32
  f_batch_number :: u64
  f_tx_data_root :: bytes32
  f_state_root :: bytes32
  f_withdrawals_root :: bytes32

definition read_da_commit_chunk_count :: "Reader \<Rightarrow> (u16 \<times> Reader) res" where
  "read_da_commit_chunk_count r =
    and_then (read_u16_le r) (\<lambda>(count, r).
    if count = 0 \<or> ucast count > MAX_DA_CHUNK_COUNT
    then Err TxErrParse ''chunk_count out of range for tx_kind=0x01''
    else Ok (count, r))"

definition read_da_commit_fields :: "Reader \<Rightarrow> (DaCommitFields \<times> Reader) res" where
  "read_da_commit_fields r =
    and_then (read_32 r) (\<lambda>(domain, r).
    and_then (read_u64_le r) (\<lambda>(number, r).
    and_then (read_32 r) (\<lambda>(data_root, r).
    and_then (read_32 r) (\<lambda>(st_root, r).
    and_then (read_32 r) (\<lambda>(wd_root, r).
      Ok (\<lparr>f_retl_domain_id = domain, f_batch_number = number, f_tx_data_root = data_root,
           f_state_root = st_root, f_withdrawals_root = wd_root\<rparr>, r))))))"

definition read_da_batch_sig :: "Reader \<Rightarrow> (bytes \<times> Reader) res" where
  "read_da_batch_sig r =
    and_then (read_compact_size r) (\<lambda>((batch_sig_len_u64, _), r).
    if batch_sig_len_u64 > MAX_DA_MANIFEST_BYTES_PER_TX \<or> unat batch_sig_len_u64 > usize_max
    then Err TxErrParse ''batch_sig_len overflow''
    else read_bytes r (unat batch_sig_len_u64))"

definition parse_da_commit_core :: "Reader \<Rightarrow> (DaCommitCore \<times> Reader) res" where
  "parse_da_commit_core r =
    and_then (read_32 r) (\<lambda>(id, r).
    and_then (read_da_commit_chunk_count r) (\<lambda>(count, r).
    and_then (read_da_commit_fields r) (\<lambda>(fields, r).
    and_then (read_u8 r) (\<lambda>(suite, r).
    and_then (read_da_batch_sig r) (\<lambda>(sig, r).
      Ok (\<lparr>dc_da_id = id, chunk_count = count, retl_domain_id = f_retl_domain_id fields,
           batch_number = f_batch_number fields, tx_data_root = f_tx_data_root fields,
           state_root = f_state_root fields, withdrawals_root = f_withdrawals_root fields,
           batch_sig_suite = suite, batch_sig = sig\<rparr>, r))))))"

definition parse_da_chunk_core :: "Reader \<Rightarrow> (DaChunkCore \<times> Reader) res" where
  "parse_da_chunk_core r =
    and_then (read_32 r) (\<lambda>(id, r).
    and_then (read_u16_le r) (\<lambda>(index, r).
    if ucast index \<ge> MAX_DA_CHUNK_COUNT
    then Err TxErrParse ''chunk_index out of range for tx_kind=0x02''
    else and_then (read_32 r) (\<lambda>(hash, r).
      Ok (\<lparr>dk_da_id = id, chunk_index = index, chunk_hash = hash\<rparr>, r))))"

definition parse_da_core ::
  "Reader \<Rightarrow> u8 \<Rightarrow> ((DaCommitCore option \<times> DaChunkCore option) \<times> Reader) res" where
  "parse_da_core r kind =
    (if kind = 0x01 then
       and_then (parse_da_commit_core r) (\<lambda>(core, r). Ok ((Some core, None), r))
     else if kind = 0x02 then
       and_then (parse_da_chunk_core r) (\<lambda>(core, r). Ok ((None, Some core), r))
     else Ok ((None, None), r))"

subsection \<open>Witness items\<close>

definition checked_usize_len :: "u64 \<Rightarrow> string \<Rightarrow> nat res" where
  "checked_usize_len len msg =
    (if unat len > usize_max then Err TxErrParse msg else Ok (unat len))"

text \<open>\<open>witness_bytes\<close>, a mutable reference in the source, is threaded through.\<close>

definition read_witness_bytes ::
  "Reader \<Rightarrow> nat \<Rightarrow> string \<Rightarrow> ((u64 \<times> bytes) \<times> nat \<times> Reader) res" where
  "read_witness_bytes r witness_bytes overflow_msg =
    and_then (read_compact_size r) (\<lambda>((len_u64, len_varint_bytes), r).
    let witness_bytes = witness_bytes + len_varint_bytes in
    and_then (checked_usize_len len_u64 overflow_msg) (\<lambda>len.
    and_then (read_bytes r len) (\<lambda>(bs, r).
      Ok ((len_u64, bs), witness_bytes + len, r))))"

definition is_canonical_htlc_claim_signature :: "bytes \<Rightarrow> bool" where
  "is_canonical_htlc_claim_signature sig =
    (if sig = [] \<or> hd sig \<noteq> 0x00 then False
     else if length sig < 3 then False
     else let pre_len = unat (from_le16 (slice sig 1 3)) in
       MIN_HTLC_PREIMAGE_BYTES \<le> of_nat pre_len \<and> of_nat pre_len \<le> MAX_HTLC_PREIMAGE_BYTES \<and>
       length sig = 3 + pre_len)"

definition is_canonical_sentinel_witness :: "nat \<Rightarrow> bytes \<Rightarrow> bool" where
  "is_canonical_sentinel_witness pub_len sig =
    (if pub_len = 0 \<and> length sig = 0 then True
     else if pub_len = 32 \<and> length sig = 1 then hd sig = 0x01
     else if pub_len = 32 \<and> length sig \<ge> 3 then is_canonical_htlc_claim_signature sig
     else False)"

definition validate_sentinel_witness :: "nat \<Rightarrow> bytes \<Rightarrow> unit res" where
  "validate_sentinel_witness pub_len sig =
    (if is_canonical_sentinel_witness pub_len sig then Ok ()
     else Err TxErrParse ''non-canonical sentinel witness item'')"

definition validate_simplicity_envelope_signature :: "bytes \<Rightarrow> unit res" where
  "validate_simplicity_envelope_signature sig =
    (if length sig < 2 then Err TxErrParse ''non-canonical Simplicity envelope witness item''
     else let envelope = slice sig 0 (length sig - 1) in
     if length envelope > MAX_SIMPLICITY_ENVELOPE_BYTES
     then Err TxErrParse ''Simplicity envelope too large''
     else let r = Reader_new envelope in
     and_then (read_u8 r) (\<lambda>(b, r).
     if b \<noteq> 0x01 then Err TxErrParse ''non-canonical Simplicity envelope witness item''
     else and_then (read_compact_size r) (\<lambda>((program_len_u64, _), r).
     if program_len_u64 > MAX_SIMPLICITY_PROGRAM_BYTES
     then Err TxErrParse ''Simplicity program too large''
     else and_then (read_bytes r (unat program_len_u64)) (\<lambda>(_, r).
     and_then (read_compact_size r) (\<lambda>((witness_len_u64, _), r).
     if unat witness_len_u64 > isize_max
     then Err TxErrParse ''Simplicity witness_len overflows int''
     else and_then (read_bytes r (unat witness_len_u64)) (\<lambda>(_, r).
     if offset r \<noteq> length envelope
     then Err TxErrParse ''non-canonical Simplicity envelope witness item''
     else Ok ()))))))"

definition validate_witness_item_shape :: "u8 \<Rightarrow> u64 \<Rightarrow> u64 \<Rightarrow> bytes \<Rightarrow> unit res" where
  "validate_witness_item_shape suite pub_len_u64 sig_len_u64 sig =
    (if suite = SUITE_ID_SENTINEL then validate_sentinel_witness (unat pub_len_u64) sig
     else if suite = SUITE_ID_ML_DSA_87 \<and>
       \<not> (pub_len_u64 = ML_DSA_87_PUBKEY_BYTES \<and> sig_len_u64 = ML_DSA_87_SIG_BYTES + 1)
     then Err TxErrSigNoncanonical ''non-canonical ML-DSA witness item lengths''
     else if suite = SUITE_ID_SIMPLICITY_ENVELOPE \<and> pub_len_u64 \<noteq> 0
     then Err TxErrParse ''non-canonical Simplicity envelope witness item''
     else if suite = SUITE_ID_SIMPLICITY_ENVELOPE
     then validate_simplicity_envelope_signature sig
     else Ok ())"

definition validate_witness_item_ordered ::
  "u8 \<Rightarrow> u64 \<Rightarrow> u64 \<Rightarrow> nat \<Rightarrow> bytes \<Rightarrow> unit res" where
  "validate_witness_item_ordered suite pub_len_u64 sig_len_u64 witness_bytes sig =
    (if suite \<noteq> SUITE_ID_SENTINEL \<and> sig_len_u64 = 0
     then Err TxErrParse ''missing sighash_type byte''
     else if witness_bytes > MAX_WITNESS_BYTES_PER_TX
     then Err TxErrWitnessOverflow ''witness bytes overflow''
     else validate_witness_item_shape suite pub_len_u64 sig_len_u64 sig)"

definition parse_witness_item :: "Reader \<Rightarrow> nat \<Rightarrow> (WitnessItem \<times> nat \<times> Reader) res" where
  "parse_witness_item r witness_bytes =
    and_then (read_u8 r) (\<lambda>(suite, r).
    let witness_bytes = witness_bytes + 1 in
    and_then (read_witness_bytes r witness_bytes ''pubkey_length overflows usize'')
      (\<lambda>((pub_len_u64, pk), witness_bytes, r).
    and_then (read_witness_bytes r witness_bytes ''sig_length overflows usize'')
      (\<lambda>((sig_len_u64, sig), witness_bytes, r).
    and_then (validate_witness_item_ordered suite pub_len_u64 sig_len_u64 witness_bytes sig) (\<lambda>_.
      Ok (\<lparr>suite_id = suite, pubkey = pk, signature = sig\<rparr>, witness_bytes, r)))))"

fun parse_witness_items :: "nat \<Rightarrow> Reader \<Rightarrow> nat \<Rightarrow> (WitnessItem list \<times> Reader) res" where
  "parse_witness_items 0 r witness_bytes = Ok ([], r)"
| "parse_witness_items (Suc n) r witness_bytes =
    and_then (parse_witness_item r witness_bytes) (\<lambda>(item, witness_bytes, r).
    and_then (parse_witness_items n r witness_bytes) (\<lambda>(items, r). Ok (item # items, r)))"

definition parse_witnesses :: "Reader \<Rightarrow> (WitnessItem list \<times> Reader) res" where
  "parse_witnesses r =
    and_then (read_compact_size r) (\<lambda>((witness_count_u64, witness_count_varint_bytes), r).
    if witness_count_u64 > MAX_WITNESS_ITEMS
    then Err TxErrWitnessOverflow ''witness_count overflow''
    else parse_witness_items (unat witness_count_u64) r witness_count_varint_bytes)"

subsection \<open>Payload and the whole transaction\<close>

definition parse_standard_da_payload :: "u64 \<Rightarrow> bytes res" where
  "parse_standard_da_payload da_len_u64 =
    (if da_len_u64 \<noteq> 0 then Err TxErrParse ''da_payload_len must be 0 for tx_kind=0x00''
     else Ok [])"

definition parse_da_commit_payload :: "Reader \<Rightarrow> u64 \<Rightarrow> (bytes \<times> Reader) res" where
  "parse_da_commit_payload r da_len_u64 =
    (if da_len_u64 > MAX_DA_MANIFEST_BYTES_PER_TX \<or> unat da_len_u64 > usize_max
     then Err TxErrParse ''da_payload_len out of range for tx_kind=0x01''
     else read_bytes r (unat da_len_u64))"

definition parse_da_chunk_payload :: "Reader \<Rightarrow> u64 \<Rightarrow> (bytes \<times> Reader) res" where
  "parse_da_chunk_payload r da_len_u64 =
    (if da_len_u64 = 0 \<or> da_len_u64 > CHUNK_BYTES \<or> unat da_len_u64 > usize_max
     then Err TxErrParse ''da_payload_len out of range for tx_kind=0x02''
     else read_bytes r (unat da_len_u64))"

definition parse_da_payload :: "Reader \<Rightarrow> u8 \<Rightarrow> (bytes \<times> Reader) res" where
  "parse_da_payload r kind =
    and_then (read_compact_size r) (\<lambda>((da_len_u64, _), r).
    if kind = 0x00 then map_ok (\<lambda>p. (p, r)) (parse_standard_da_payload da_len_u64)
    else if kind = 0x01 then parse_da_commit_payload r da_len_u64
    else if kind = 0x02 then parse_da_chunk_payload r da_len_u64
    else Err TxErrParse ''unsupported tx_kind'')"

definition parse_tx_without_hashes :: "bytes \<Rightarrow> (Tx \<times> nat \<times> nat) res" where
  "parse_tx_without_hashes b =
    (let r = Reader_new b in
    and_then (parse_tx_prefix r) (\<lambda>((ver, kind, nonce), r).
    and_then (parse_tx_inputs r) (\<lambda>(ins, r).
    and_then (parse_tx_outputs r) (\<lambda>(outs, r).
    and_then (read_u32_le r) (\<lambda>(lock, r).
    and_then (parse_da_core r kind) (\<lambda>((commit, chunk), r).
    let core_end = offset r in
    and_then (parse_witnesses r) (\<lambda>(wits, r).
    and_then (parse_da_payload r kind) (\<lambda>(payload, r).
    let total_end = offset r in
      Ok (\<lparr>version = ver, tx_kind = kind, tx_nonce = nonce, inputs = ins, outputs = outs,
           locktime = lock, da_commit_core = commit, da_chunk_core = chunk, witness = wits,
           da_payload = payload\<rparr>, core_end, total_end)))))))))"

definition parse_tx :: "(bytes \<Rightarrow> bytes32) \<Rightarrow> bytes \<Rightarrow> (Tx \<times> bytes32 \<times> bytes32 \<times> nat) res" where
  "parse_tx sha3_256 b =
    and_then (parse_tx_without_hashes b) (\<lambda>(tx, core_end, total_end).
    let txid = sha3_256 (slice b 0 core_end);
        wtxid = sha3_256 (slice b 0 total_end) in
      Ok (tx, txid, wtxid, total_end))"

section \<open>Serialising\<close>

text \<open>
  \<open>marshal_tx\<close> pushes onto one output vector; the pushes of a loop body are one
  definition each.
\<close>

definition marshal_input :: "TxInput \<Rightarrow> bytes" where
  "marshal_input i = prev_txid i @ to_le32 (prev_vout i) @
    encode_compact_size (len64 (script_sig i)) @ script_sig i @ to_le32 (sequence i)"

definition marshal_output :: "TxOutput \<Rightarrow> bytes" where
  "marshal_output out = to_le64 (out_value out) @ to_le16 (out_covenant_type out) @
    encode_compact_size (len64 (out_covenant_data out)) @ out_covenant_data out"

definition marshal_witness_item :: "WitnessItem \<Rightarrow> bytes" where
  "marshal_witness_item item = [suite_id item] @
    encode_compact_size (len64 (pubkey item)) @ pubkey item @
    encode_compact_size (len64 (signature item)) @ signature item"

definition da_commit_core_bytes :: "DaCommitCore \<Rightarrow> bytes" where
  "da_commit_core_bytes core = dc_da_id core @ to_le16 (chunk_count core) @ retl_domain_id core @
    to_le64 (batch_number core) @ tx_data_root core @ state_root core @ withdrawals_root core @
    [batch_sig_suite core] @ encode_compact_size (len64 (batch_sig core)) @ batch_sig core"

definition da_chunk_core_bytes :: "DaChunkCore \<Rightarrow> bytes" where
  "da_chunk_core_bytes core = dk_da_id core @ to_le16 (chunk_index core) @ chunk_hash core"

definition da_core_fields_bytes :: "Tx \<Rightarrow> bytes res" where
  "da_core_fields_bytes tx =
    (if tx_kind tx = 0x00 then Ok []
     else if tx_kind tx = 0x01 then
       (case da_commit_core tx of
          None \<Rightarrow> Err TxErrParse ''missing da_commit_core for tx_kind=0x01''
        | Some core \<Rightarrow> Ok (da_commit_core_bytes core))
     else if tx_kind tx = 0x02 then
       (case da_chunk_core tx of
          None \<Rightarrow> Err TxErrParse ''missing da_chunk_core for tx_kind=0x02''
        | Some core \<Rightarrow> Ok (da_chunk_core_bytes core))
     else Err TxErrParse ''unsupported tx_kind'')"

definition marshal_tx :: "Tx \<Rightarrow> bytes res" where
  "marshal_tx tx =
    (let head = to_le32 (version tx) @ [tx_kind tx] @ to_le64 (tx_nonce tx) @
       encode_compact_size (len64 (inputs tx)) @ concat (map marshal_input (inputs tx)) @
       encode_compact_size (len64 (outputs tx)) @ concat (map marshal_output (outputs tx)) @
       to_le32 (locktime tx) in
     and_then (da_core_fields_bytes tx) (\<lambda>da_core.
       Ok (head @ da_core @
         encode_compact_size (len64 (witness tx)) @ concat (map marshal_witness_item (witness tx)) @
         encode_compact_size (len64 (da_payload tx)) @ da_payload tx)))"

section \<open>Which transactions the wire format can carry\<close>

definition wf_input :: "TxInput \<Rightarrow> bool" where
  "wf_input i \<longleftrightarrow> length (prev_txid i) = 32 \<and> length (script_sig i) \<le> 32"

definition wf_output :: "TxOutput \<Rightarrow> bool" where
  "wf_output out \<longleftrightarrow> length (out_covenant_data out) \<le> 65536"

definition wf_da_commit :: "DaCommitCore \<Rightarrow> bool" where
  "wf_da_commit c \<longleftrightarrow>
     length (dc_da_id c) = 32 \<and> length (retl_domain_id c) = 32 \<and> length (tx_data_root c) = 32 \<and>
     length (state_root c) = 32 \<and> length (withdrawals_root c) = 32 \<and>
     0 < unat (chunk_count c) \<and> unat (chunk_count c) \<le> 61 \<and> length (batch_sig c) \<le> 65536"

definition wf_da_chunk :: "DaChunkCore \<Rightarrow> bool" where
  "wf_da_chunk c \<longleftrightarrow>
     length (dk_da_id c) = 32 \<and> unat (chunk_index c) < 61 \<and> length (chunk_hash c) = 32"

lemma read_32_iff [wire_simps]: "(read_32 r = Inr (v, r')) = (length v = 32 \<and> reads r v r')"
  by (simp add: read_32_def wire_simps)

lemma parse_tx_input_iff:
  "(parse_tx_input r = Inr (i, r')) = (wf_input i \<and> reads r (marshal_input i) r')"
  by (cases i) (auto simp: parse_tx_input_def marshal_input_def wf_input_def wire_simps cursor_simps)

lemma parse_tx_output_iff:
  "(parse_tx_output r = Inr (out, r')) = (wf_output out \<and> reads r (marshal_output out) r')"
  by (cases out) (auto simp: parse_tx_output_def marshal_output_def wf_output_def wire_simps cursor_simps)

interpretation tx_input: codec parse_tx_input marshal_input wf_input
  by unfold_locales (rule parse_tx_input_iff)

interpretation tx_output: codec parse_tx_output marshal_output wf_output
  by unfold_locales (rule parse_tx_output_iff)

lemma ucast_u16_bounds:
  "(MAX_DA_CHUNK_COUNT < ucast w) = (61 < unat w)" "(MAX_DA_CHUNK_COUNT \<le> ucast w) = (61 \<le> unat w)"
  for w :: u16
  using unsigned_less [of w, where 'a = nat]
  by (simp_all add: word_less_nat_alt word_le_nat_alt unat_ucast)

lemma parse_da_chunk_core_iff:
  "(parse_da_chunk_core r = Inr (c, r')) = (wf_da_chunk c \<and> reads r (da_chunk_core_bytes c) r')"
  by (cases c) (auto simp: parse_da_chunk_core_def da_chunk_core_bytes_def wf_da_chunk_def
      ucast_u16_bounds wire_simps cursor_simps)

lemma read_da_batch_sig_iff [wire_simps]:
  "(read_da_batch_sig r = Inr (bs, r')) =
    (length bs \<le> 65536 \<and> reads r (encode_compact_size (len64 bs) @ bs) r')"
  by (auto simp: read_da_batch_sig_def wire_simps cursor_simps)

lemma read_da_commit_fields_iff [wire_simps]:
  "(read_da_commit_fields r = Inr (f, r')) =
    (length (f_retl_domain_id f) = 32 \<and> length (f_tx_data_root f) = 32 \<and>
     length (f_state_root f) = 32 \<and> length (f_withdrawals_root f) = 32 \<and>
     reads r (f_retl_domain_id f @ to_le64 (f_batch_number f) @ f_tx_data_root f @ f_state_root f @
       f_withdrawals_root f) r')"
  by (cases f) (auto simp: read_da_commit_fields_def wire_simps cursor_simps)

lemma ex_DaCommitFields:
  "(\<exists>f. P f) \<longleftrightarrow> (\<exists>a b c d e. P \<lparr>f_retl_domain_id = a, f_batch_number = b, f_tx_data_root = c,
     f_state_root = d, f_withdrawals_root = e\<rparr>)"
  by (metis DaCommitFields.cases)

lemma parse_da_commit_core_iff:
  "(parse_da_commit_core r = Inr (c, r')) = (wf_da_commit c \<and> reads r (da_commit_core_bytes c) r')"
  by (cases c) (auto simp: parse_da_commit_core_def read_da_commit_chunk_count_def ex_DaCommitFields
      da_commit_core_bytes_def wf_da_commit_def ucast_u16_bounds wire_simps cursor_simps unat_gt_0)

interpretation da_chunk: codec parse_da_chunk_core da_chunk_core_bytes wf_da_chunk
  by unfold_locales (rule parse_da_chunk_core_iff)

interpretation da_commit: codec parse_da_commit_core da_commit_core_bytes wf_da_commit
  by unfold_locales (rule parse_da_commit_core_iff)


subsection \<open>The grammar of witness items\<close>

definition sentinel_shape :: "bytes \<Rightarrow> bytes \<Rightarrow> bool" where
  "sentinel_shape pk sig \<longleftrightarrow>
     pk = [] \<and> sig = [] \<or>
     length pk = 32 \<and> sig = [0x01] \<or>
     length pk = 32 \<and> (\<exists>preimage. 16 \<le> length preimage \<and> length preimage \<le> 256 \<and>
       sig = 0x00 # to_le16 (of_nat (length preimage)) @ preimage)"

definition envelope_shape :: "bytes \<Rightarrow> bool" where
  "envelope_shape sig \<longleftrightarrow>
     (\<exists>program wit sighash_byte.
        sig = (0x01 # encode_compact_size (len64 program) @ program @
                encode_compact_size (len64 wit) @ wit) @ [sighash_byte] \<and>
        length program \<le> 16384 \<and> length sig \<le> 32769)"

definition wf_witness_item :: "WitnessItem \<Rightarrow> bool" where
  "wf_witness_item w \<longleftrightarrow>
     (if suite_id w = SUITE_ID_SENTINEL then sentinel_shape (pubkey w) (signature w)
      else if suite_id w = SUITE_ID_ML_DSA_87
        then length (pubkey w) = 2592 \<and> length (signature w) = 4628
      else if suite_id w = SUITE_ID_SIMPLICITY_ENVELOPE
        then pubkey w = [] \<and> envelope_shape (signature w)
      else signature w \<noteq> [])"

definition wf_witnesses :: "WitnessItem list \<Rightarrow> bool" where
  "wf_witnesses ws \<longleftrightarrow>
     length ws \<le> 1024 \<and> list_all wf_witness_item ws \<and>
     (ws \<noteq> [] \<longrightarrow>
       length (encode_compact_size (len64 ws)) + length (concat (map marshal_witness_item ws)) \<le> 100000)"

lemma htlc_claim_iff:
  "is_canonical_htlc_claim_signature sig \<longleftrightarrow>
     (\<exists>preimage. 16 \<le> length preimage \<and> length preimage \<le> 256 \<and>
       sig = 0x00 # to_le16 (of_nat (length preimage)) @ preimage)" (is "?l \<longleftrightarrow> ?r")
proof
  assume l: ?l
  then obtain a b c pre where sig: "sig = a # b # c # pre"
    by (cases sig; cases "tl sig"; cases "tl (tl sig)")
       (auto simp: is_canonical_htlc_claim_signature_def split: if_splits)
  let ?n = "unat (from_le16 [b, c])"
  have n: "?n < 65536" using unsigned_less [of "from_le16 [b, c]", where 'a = nat] by simp
  have "16 \<le> ?n" "?n \<le> 256" "length pre = ?n" "a = 0"
    using l n sig by (auto simp: is_canonical_htlc_claim_signature_def slice_def Let_def word_le_nat_alt
        unat_of_nat split: if_splits)
  moreover have "to_le16 (of_nat (length pre)) = [b, c]"
    using \<open>length pre = ?n\<close> by (simp add: to_from_le)
  ultimately show ?r using sig by (intro exI [of _ pre]) simp
next
  assume ?r
  then obtain pre where pre: "16 \<le> length pre" "length pre \<le> 256"
    and sig: "sig = 0x00 # to_le16 (of_nat (length pre)) @ pre" by blast
  have "slice sig 1 3 = to_le16 (of_nat (length pre))" using sig by (simp add: slice_def)
  then show ?l using pre sig
    by (simp add: is_canonical_htlc_claim_signature_def Let_def word_le_nat_alt unat_of_nat)
qed

lemma sentinel_iff:
  "is_canonical_sentinel_witness (length pk) sig \<longleftrightarrow> sentinel_shape pk sig"
proof -
  have "length sig \<ge> 3" if "is_canonical_htlc_claim_signature sig"
    using that by (auto simp: is_canonical_htlc_claim_signature_def split: if_splits)
  then show ?thesis
    unfolding is_canonical_sentinel_witness_def sentinel_shape_def htlc_claim_iff [symmetric]
    by (auto simp: length_Suc_conv)
qed

lemma envelope_iff:
  "validate_simplicity_envelope_signature sig = Inr () \<longleftrightarrow> envelope_shape sig" (is "?l \<longleftrightarrow> ?r")
proof
  assume l: ?l
  define env where "env = slice sig 0 (length sig - Suc 0)"
  have len: "2 \<le> length sig" using l
    by (auto simp: validate_simplicity_envelope_signature_def)
  then have sig: "sig = env @ [last sig]"
    by (cases sig rule: rev_cases) (auto simp: env_def slice_def)
  obtain program wit where
    f: "fits (Reader_new env) (0x01 # encode_compact_size (len64 program) @ program @
          encode_compact_size (len64 wit) @ wit)"
    and p: "length program \<le> 16384" and e: "length env \<le> 32768"
    and off: "length env = 1 + length (encode_compact_size (len64 program)) + length program +
       length (encode_compact_size (len64 wit)) + length wit"
    using l len
    by (auto simp: validate_simplicity_envelope_signature_def env_def [symmetric] Let_def wire_simps
        cursor_simps MAX_SIMPLICITY_ENVELOPE_BYTES_def)
  have "env = 0x01 # encode_compact_size (len64 program) @ program @
          encode_compact_size (len64 wit) @ wit"
    using f off by (auto simp: fits_Reader_new)
  moreover have "length sig = length env + 1" by (subst sig) simp
  ultimately show ?r using p sig e unfolding envelope_shape_def
    by (intro exI [of _ program] exI [of _ wit] exI [of _ "last sig"]) simp
next
  assume ?r
  then obtain program wit sb where sig: "sig = (0x01 # encode_compact_size (len64 program) @ program @
          encode_compact_size (len64 wit) @ wit) @ [sb]"
    and p: "length program \<le> 16384" and s: "length sig \<le> 32769"
    unfolding envelope_shape_def by blast
  define env where "env = 0x01 # encode_compact_size (len64 program) @ program @
          encode_compact_size (len64 wit) @ wit"
  have slice: "slice sig 0 (length sig - 1) = env" using sig by (simp add: slice_def env_def)
  have l: "length env \<le> 32768" "2 \<le> length sig" "length wit \<le> 32768" using s sig
    by (simp_all add: env_def length_encode_compact_size)
  have "fits (Reader_new env) env" using l by (simp add: fits_Reader_new usize_max_def)
  then have f: "fits (Reader_new env) (0x01 # encode_compact_size (len64 program) @ program @
          encode_compact_size (len64 wit) @ wit)" by (simp add: env_def)
  let ?r1 = "adv (Reader_new env) 1"
  let ?r2 = "adv ?r1 (length (encode_compact_size (len64 program)))"
  let ?r3 = "adv ?r2 (length program)"
  let ?r4 = "adv ?r3 (length (encode_compact_size (len64 wit)))"
  have "read_u8 (Reader_new env) = Inr (0x01, ?r1)"
    "read_compact_size ?r1 = Inr ((len64 program, length (encode_compact_size (len64 program))), ?r2)"
    "read_bytes ?r2 (length program) = Inr (program, ?r3)"
    "read_compact_size ?r3 = Inr ((len64 wit, length (encode_compact_size (len64 wit))), ?r4)"
    "read_bytes ?r4 (length wit) = Inr (wit, adv ?r4 (length wit))"
    using f by (simp_all add: wire_simps cursor_simps)
  moreover have "unat (len64 wit) = length wit" "unat (len64 program) = length program"
    using l p by (simp_all add: unat_of_nat)
  moreover have "\<not> MAX_SIMPLICITY_PROGRAM_BYTES < len64 program"
    using p by (simp add: len64_less)
  ultimately show ?l using l p
    by (simp add: validate_simplicity_envelope_signature_def slice [simplified] Let_def MAX_SIMPLICITY_ENVELOPE_BYTES_def isize_max_def
        env_def del: adv_adv)
qed

lemma read_witness_bytes_iff [wire_simps]:
  "(read_witness_bytes r wb m = Inr ((n, bs), wb', r')) =
    (n = len64 bs \<and> length bs < 2 ^ 64 \<and>
     wb' = wb + length (encode_compact_size (len64 bs)) + length bs \<and>
     reads r (encode_compact_size (len64 bs) @ bs) r')"
  by (auto simp: read_witness_bytes_def checked_usize_len_def wire_simps cursor_simps Let_def unat_len64)

lemma witness_shape_iff:
  assumes "length (pubkey w) < 2 ^ 64" and "length (signature w) < 2 ^ 64"
  shows "(suite_id w \<noteq> SUITE_ID_SENTINEL \<longrightarrow> signature w \<noteq> []) \<and>
    validate_witness_item_shape (suite_id w) (len64 (pubkey w)) (len64 (signature w)) (signature w) = Inr ()
    \<longleftrightarrow> wf_witness_item w"
proof -
  have u: "unat (len64 (pubkey w)) = length (pubkey w)" "unat (len64 (signature w)) = length (signature w)"
    using assms by (simp_all add: unat_of_nat)
  then have e: "len64 (pubkey w) = n \<longleftrightarrow> length (pubkey w) = unat n"
      "len64 (signature w) = n \<longleftrightarrow> length (signature w) = unat n" for n
    by (simp_all add: word_unat_eq_iff)
  have s: "unat (ML_DSA_87_SIG_BYTES + 1) = 4628" "unat (0 :: u64) = 0"
    by (simp_all add: ML_DSA_87_SIG_BYTES_def)
  have ne: "signature w \<noteq> []" if "envelope_shape (signature w)"
    using that by (auto simp: envelope_shape_def)
  have d: "SUITE_ID_SENTINEL \<noteq> SUITE_ID_ML_DSA_87" "SUITE_ID_SENTINEL \<noteq> SUITE_ID_SIMPLICITY_ENVELOPE"
    "SUITE_ID_ML_DSA_87 \<noteq> SUITE_ID_SIMPLICITY_ENVELOPE" by (simp_all add: const_defs)
  show ?thesis
    using ne d by (auto simp: validate_witness_item_shape_def wf_witness_item_def validate_sentinel_witness_def
      sentinel_iff envelope_iff e u s)
qed

lemma parse_witness_item_iff:
  "(parse_witness_item r wb = Inr (w, wb', r')) =
    (wf_witness_item w \<and> reads r (marshal_witness_item w) r' \<and>
     length (pubkey w) < 2 ^ 64 \<and> length (signature w) < 2 ^ 64 \<and>
     wb' = wb + length (marshal_witness_item w) \<and> wb' \<le> 100000)"
proof -
  have "(parse_witness_item r wb = Inr (w, wb', r')) =
    (reads r (marshal_witness_item w) r' \<and>
     length (pubkey w) < 2 ^ 64 \<and> length (signature w) < 2 ^ 64 \<and>
     wb' = wb + length (marshal_witness_item w) \<and>
     validate_witness_item_ordered (suite_id w) (len64 (pubkey w)) (len64 (signature w)) wb' (signature w) = Inr ())"
    by (cases w) (auto simp: parse_witness_item_def marshal_witness_item_def wire_simps cursor_simps Let_def)
  also have "\<dots> = (wf_witness_item w \<and> reads r (marshal_witness_item w) r' \<and>
     length (pubkey w) < 2 ^ 64 \<and> length (signature w) < 2 ^ 64 \<and>
     wb' = wb + length (marshal_witness_item w) \<and> wb' \<le> 100000)"
  proof (cases "length (pubkey w) < 2 ^ 64 \<and> length (signature w) < 2 ^ 64")
    case True
    then have "(len64 (signature w) = 0) = (signature w = [])"
      by (auto simp: word_unat_eq_iff unat_of_nat)
    then show ?thesis
      using True witness_shape_iff [of w]
      by (auto simp: validate_witness_item_ordered_def MAX_WITNESS_BYTES_PER_TX_def)
  next
    case False
    then show ?thesis by auto
  qed
  finally show ?thesis .
qed

lemma marshal_witness_item_length:
  "length (pubkey w) + length (signature w) \<le> length (marshal_witness_item w)"
  by (simp add: marshal_witness_item_def)

lemma parse_witness_items_iff:
  assumes "rd_valid r"
  shows "(parse_witness_items n r wb = Inr (ws, r')) =
    (length ws = n \<and> list_all wf_witness_item ws \<and> reads r (concat (map marshal_witness_item ws)) r' \<and>
     (ws \<noteq> [] \<longrightarrow> wb + length (concat (map marshal_witness_item ws)) \<le> 100000))"
  using assms
proof (induction n arbitrary: r ws wb)
  case 0
  then show ?case by (auto simp: reads_Nil)
next
  case (Suc n)
  show ?case
  proof (cases ws)
    case Nil
    then show ?thesis by auto
  next
    case (Cons y ys)
    have small: "length (pubkey y) < 2 ^ 64 \<and> length (signature y) < 2 ^ 64"
      if "wb + length (marshal_witness_item y) \<le> 100000"
      using that marshal_witness_item_length [of y] by simp
    have "(parse_witness_items (Suc n) r wb = Inr (ws, r')) =
       (\<exists>r1 wb1. parse_witness_item r wb = Inr (y, wb1, r1) \<and> parse_witness_items n r1 wb1 = Inr (ys, r'))"
      using Cons by auto
    also have "\<dots> = (\<exists>r1. wf_witness_item y \<and> reads r (marshal_witness_item y) r1 \<and>
        length (pubkey y) < 2 ^ 64 \<and> length (signature y) < 2 ^ 64 \<and>
        wb + length (marshal_witness_item y) \<le> 100000 \<and>
        parse_witness_items n r1 (wb + length (marshal_witness_item y)) = Inr (ys, r'))"
      unfolding parse_witness_item_iff by blast
    also have "\<dots> = (\<exists>r1. wf_witness_item y \<and> reads r (marshal_witness_item y) r1 \<and>
        wb + length (marshal_witness_item y) \<le> 100000 \<and> length ys = n \<and> list_all wf_witness_item ys \<and>
        reads r1 (concat (map marshal_witness_item ys)) r' \<and>
        (ys \<noteq> [] \<longrightarrow> wb + length (marshal_witness_item y) + length (concat (map marshal_witness_item ys)) \<le> 100000))"
      using Suc.IH reads_valid small by blast
    finally show ?thesis
      using Cons by (auto simp: reads_append)
  qed
qed

lemma parse_witnesses_iff [wire_simps]:
  "(parse_witnesses r = Inr (ws, r')) =
    (wf_witnesses ws \<and> reads r (encode_compact_size (len64 ws) @ concat (map marshal_witness_item ws)) r')"
proof -
  have "(parse_witnesses r = Inr (ws, r')) =
    (\<exists>v r1. reads r (encode_compact_size v) r1 \<and> \<not> MAX_WITNESS_ITEMS < v \<and>
      parse_witness_items (unat v) r1 (length (encode_compact_size v)) = Inr (ws, r'))"
    by (auto simp: parse_witnesses_def wire_simps)
  also have "\<dots> = (\<exists>v r1. reads r (encode_compact_size v) r1 \<and> \<not> MAX_WITNESS_ITEMS < v \<and>
      length ws = unat v \<and> list_all wf_witness_item ws \<and> reads r1 (concat (map marshal_witness_item ws)) r' \<and>
     (ws \<noteq> [] \<longrightarrow> length (encode_compact_size v) + length (concat (map marshal_witness_item ws)) \<le> 100000))"
    using parse_witness_items_iff reads_valid by blast
  also have "\<dots> = (wf_witnesses ws \<and> reads r (encode_compact_size (len64 ws) @ concat (map marshal_witness_item ws)) r')"
    by (auto simp: reads_append length_eq_unat wf_witnesses_def len64_less)
  finally show ?thesis .
qed

definition marshal_core :: "Tx \<Rightarrow> bytes" where
  "marshal_core tx = to_le32 (version tx) @ [tx_kind tx] @ to_le64 (tx_nonce tx) @
     encode_compact_size (len64 (inputs tx)) @ concat (map marshal_input (inputs tx)) @
     encode_compact_size (len64 (outputs tx)) @ concat (map marshal_output (outputs tx)) @
     to_le32 (locktime tx) @
     (case da_commit_core tx of Some c \<Rightarrow> da_commit_core_bytes c | None \<Rightarrow>
       (case da_chunk_core tx of Some c \<Rightarrow> da_chunk_core_bytes c | None \<Rightarrow> []))"

definition marshal_tail :: "Tx \<Rightarrow> bytes" where
  "marshal_tail tx =
     encode_compact_size (len64 (witness tx)) @ concat (map marshal_witness_item (witness tx)) @
     encode_compact_size (len64 (da_payload tx)) @ da_payload tx"

definition wf_core :: "Tx \<Rightarrow> bool" where
  "wf_core tx \<longleftrightarrow> version tx = 1 \<and>
     length (inputs tx) \<le> 1024 \<and> list_all wf_input (inputs tx) \<and>
     length (outputs tx) \<le> 1024 \<and> list_all wf_output (outputs tx) \<and>
     ((tx_kind tx = 0 \<and> da_commit_core tx = None \<and> da_chunk_core tx = None) \<or>
      (tx_kind tx = 1 \<and> da_chunk_core tx = None \<and> (\<exists>c. da_commit_core tx = Some c \<and> wf_da_commit c)) \<or>
      (tx_kind tx = 2 \<and> da_commit_core tx = None \<and> (\<exists>c. da_chunk_core tx = Some c \<and> wf_da_chunk c)))"

definition wf_payload :: "u8 \<Rightarrow> bytes \<Rightarrow> bool" where
  "wf_payload kind p \<longleftrightarrow>
     kind = 0 \<and> p = [] \<or> kind = 1 \<and> length p \<le> 65536 \<or> kind = 2 \<and> p \<noteq> [] \<and> length p \<le> 524288"

definition wf_tx :: "Tx \<Rightarrow> bool" where
  "wf_tx tx \<longleftrightarrow> wf_core tx \<and> wf_witnesses (witness tx) \<and> wf_payload (tx_kind tx) (da_payload tx)"

lemma marshal_tx_wf: "wf_core tx \<Longrightarrow> marshal_tx tx = Ok (marshal_core tx @ marshal_tail tx)"
  by (auto simp: marshal_tx_def marshal_core_def marshal_tail_def wf_core_def da_core_fields_bytes_def Let_def)

lemma parse_tx_inputs_iff [wire_simps]:
  "(parse_tx_inputs r = Inr (ins, r')) =
    (length ins \<le> 1024 \<and> list_all wf_input ins \<and>
     reads r (encode_compact_size (len64 ins) @ concat (map marshal_input ins)) r')"
proof -
  have "(parse_tx_inputs r = Inr (ins, r')) =
    (\<exists>v r1. \<not> MAX_TX_INPUTS < v \<and> (reads r (encode_compact_size v) r1 \<and> parse_many (unat v) parse_tx_input r1 = Inr (ins, r')))"
    by (auto simp: parse_tx_inputs_def wire_simps)
  then show ?thesis
    unfolding tx_input.counted_iff by (auto simp: length_eq_unat len64_less reads_append)
qed

lemma parse_tx_outputs_iff [wire_simps]:
  "(parse_tx_outputs r = Inr (outs, r')) =
    (length outs \<le> 1024 \<and> list_all wf_output outs \<and>
     reads r (encode_compact_size (len64 outs) @ concat (map marshal_output outs)) r')"
proof -
  have "(parse_tx_outputs r = Inr (outs, r')) =
    (\<exists>v r1. \<not> MAX_TX_OUTPUTS < v \<and> (reads r (encode_compact_size v) r1 \<and> parse_many (unat v) parse_tx_output r1 = Inr (outs, r')))"
    by (auto simp: parse_tx_outputs_def wire_simps)
  then show ?thesis
    unfolding tx_output.counted_iff by (auto simp: length_eq_unat len64_less reads_append)
qed

lemma parse_tx_prefix_iff [wire_simps]:
  "(parse_tx_prefix r = Inr ((ver, kind, nonce), r')) =
    (ver = 1 \<and> kind \<in> {0, 1, 2} \<and> reads r (to_le32 ver @ [kind] @ to_le64 nonce) r')"
  by (auto simp: parse_tx_prefix_def wire_simps reads_append
      reads_Cons [of _ _ "to_le64 _"] TX_WIRE_VERSION_def)

lemma parse_da_core_iff:
  assumes "rd_valid r" "kind \<in> {0, 1, 2}"
  shows "(parse_da_core r kind = Inr ((commit, chunk), r')) =
    (((kind = 0 \<and> commit = None \<and> chunk = None) \<or>
      (kind = 1 \<and> chunk = None \<and> (\<exists>c. commit = Some c \<and> wf_da_commit c)) \<or>
      (kind = 2 \<and> commit = None \<and> (\<exists>c. chunk = Some c \<and> wf_da_chunk c))) \<and>
     reads r (case commit of Some c \<Rightarrow> da_commit_core_bytes c | None \<Rightarrow>
       (case chunk of Some c \<Rightarrow> da_chunk_core_bytes c | None \<Rightarrow> [])) r')"
  using assms by (auto simp: parse_da_core_def reads_Nil parse_da_commit_core_iff parse_da_chunk_core_iff)

lemma parse_da_payload_iff [wire_simps]:
  "(parse_da_payload r kind = Inr (p, r')) =
    (wf_payload kind p \<and> reads r (encode_compact_size (len64 p) @ p) r')"
proof -
  have "(parse_da_payload r kind = Inr (p, r')) =
    ((kind = 0 \<and> p = [] \<or> kind = 1 \<and> length p \<le> 65536 \<or> kind = 2 \<and> p \<noteq> [] \<and> length p \<le> 524288) \<and>
     (\<exists>r1. reads r (encode_compact_size (len64 p)) r1 \<and> (if kind = 0 then r' = r1 else reads r1 p r')))"
    by (auto simp: parse_da_payload_def parse_standard_da_payload_def parse_da_commit_payload_def
       parse_da_chunk_payload_def wire_simps length_eq_unat len64_less len64_eq_0)
  then show ?thesis
    by (auto simp: wf_payload_def reads_append reads_Nil dest: reads_valid)
qed

text \<open>The part of the parser that builds the transaction without its witness.\<close>

definition parse_core ::
  "Reader \<Rightarrow> ((u32 \<times> u8 \<times> u64) \<times> TxInput list \<times> TxOutput list \<times> u32 \<times>
     DaCommitCore option \<times> DaChunkCore option \<times> Reader) res" where
  "parse_core r =
    and_then (parse_tx_prefix r) (\<lambda>((ver, kind, nonce), r).
    and_then (parse_tx_inputs r) (\<lambda>(ins, r).
    and_then (parse_tx_outputs r) (\<lambda>(outs, r).
    and_then (read_u32_le r) (\<lambda>(lock, r).
    and_then (parse_da_core r kind) (\<lambda>((commit, chunk), r).
      Ok ((ver, kind, nonce), ins, outs, lock, commit, chunk, r))))))"

lemma parse_tx_without_hashes_core:
  "parse_tx_without_hashes b =
    and_then (parse_core (Reader_new b)) (\<lambda>((ver, kind, nonce), ins, outs, lock, commit, chunk, r).
    let core_end = offset r in
    and_then (parse_witnesses r) (\<lambda>(wits, r).
    and_then (parse_da_payload r kind) (\<lambda>(payload, r).
    let total_end = offset r in
      Ok (\<lparr>version = ver, tx_kind = kind, tx_nonce = nonce, inputs = ins, outputs = outs,
           locktime = lock, da_commit_core = commit, da_chunk_core = chunk, witness = wits,
           da_payload = payload\<rparr>, core_end, total_end))))"
  by (simp add: parse_tx_without_hashes_def parse_core_def Let_def and_then_assoc split_def)

lemma parse_core_iff:
  "(parse_core r = Inr ((version tx, tx_kind tx, tx_nonce tx), inputs tx, outputs tx, locktime tx,
      da_commit_core tx, da_chunk_core tx, r')) =
   (wf_core tx \<and> reads r (marshal_core tx) r')"
proof -
  have "(parse_core r = Inr ((version tx, tx_kind tx, tx_nonce tx), inputs tx, outputs tx, locktime tx,
      da_commit_core tx, da_chunk_core tx, r')) =
    (\<exists>r1 r2 r3 r4. parse_tx_prefix r = Inr ((version tx, tx_kind tx, tx_nonce tx), r1) \<and>
      parse_tx_inputs r1 = Inr (inputs tx, r2) \<and> parse_tx_outputs r2 = Inr (outputs tx, r3) \<and>
      read_u32_le r3 = Inr (locktime tx, r4) \<and>
      parse_da_core r4 (tx_kind tx) = Inr ((da_commit_core tx, da_chunk_core tx), r'))"
    by (auto simp: parse_core_def)
  also have "\<dots> = (wf_core tx \<and> reads r (marshal_core tx) r')" (is "?l = ?r")
  proof
    assume ?l
    then obtain r1 r2 r3 r4 where
      1: "parse_tx_prefix r = Inr ((version tx, tx_kind tx, tx_nonce tx), r1)"
      and 2: "parse_tx_inputs r1 = Inr (inputs tx, r2)" "parse_tx_outputs r2 = Inr (outputs tx, r3)"
        "read_u32_le r3 = Inr (locktime tx, r4)"
      and 5: "parse_da_core r4 (tx_kind tx) = Inr ((da_commit_core tx, da_chunk_core tx), r')"
      by blast
    have "rd_valid r4" using 2(3) reads_valid unfolding wire_simps by blast
    moreover have "tx_kind tx \<in> {0, 1, 2}" using 1 unfolding wire_simps by blast
    ultimately have 6: "wf_core tx \<longleftrightarrow> version tx = 1 \<and> length (inputs tx) \<le> 1024 \<and>
        list_all wf_input (inputs tx) \<and> length (outputs tx) \<le> 1024 \<and> list_all wf_output (outputs tx)"
       "reads r4 (case da_commit_core tx of Some c \<Rightarrow> da_commit_core_bytes c | None \<Rightarrow>
         (case da_chunk_core tx of Some c \<Rightarrow> da_chunk_core_bytes c | None \<Rightarrow> [])) r'"
      using 5 unfolding wf_core_def by (simp_all add: parse_da_core_iff)
    show ?r
      using 1 2 6 unfolding wire_simps marshal_core_def reads_append by blast
  next
    assume r: ?r
    then obtain r1 r2 r3 r4 where *:
      "reads r (to_le32 (version tx) @ [tx_kind tx] @ to_le64 (tx_nonce tx)) r1"
      "reads r1 (encode_compact_size (len64 (inputs tx)) @ concat (map marshal_input (inputs tx))) r2"
      "reads r2 (encode_compact_size (len64 (outputs tx)) @ concat (map marshal_output (outputs tx))) r3"
      "reads r3 (to_le32 (locktime tx)) r4"
      "reads r4 (case da_commit_core tx of Some c \<Rightarrow> da_commit_core_bytes c | None \<Rightarrow>
         (case da_chunk_core tx of Some c \<Rightarrow> da_chunk_core_bytes c | None \<Rightarrow> [])) r'"
      unfolding marshal_core_def reads_append by blast
    have w: "wf_core tx" using r by blast
    then have "tx_kind tx \<in> {0, 1, 2}" by (auto simp: wf_core_def)
    moreover have "rd_valid r4" using *(4) reads_valid by blast
    ultimately have "parse_da_core r4 (tx_kind tx) = Inr ((da_commit_core tx, da_chunk_core tx), r')"
      using w *(5) by (simp add: parse_da_core_iff wf_core_def)
    moreover have "parse_tx_prefix r = Inr ((version tx, tx_kind tx, tx_nonce tx), r1)"
      using w *(1) \<open>tx_kind tx \<in> {0, 1, 2}\<close> by (simp add: wire_simps wf_core_def)
    moreover have "parse_tx_inputs r1 = Inr (inputs tx, r2)" "parse_tx_outputs r2 = Inr (outputs tx, r3)"
        "read_u32_le r3 = Inr (locktime tx, r4)"
      using w *(2-4) by (simp_all add: wire_simps wf_core_def)
    ultimately show ?l by blast
  qed
  finally show ?thesis .
qed

lemma parse_tx_without_hashes_iff:
  "(parse_tx_without_hashes b = Inr (tx, ce, te)) =
    (wf_tx tx \<and> (\<exists>tl. b = marshal_core tx @ marshal_tail tx @ tl) \<and>
     ce = length (marshal_core tx) \<and> te = length (marshal_core tx @ marshal_tail tx) \<and> te \<le> usize_max)"
proof -
  have "(parse_tx_without_hashes b = Inr (tx, ce, te)) =
    (\<exists>r1 r2 r3. parse_core (Reader_new b) =
        Inr ((version tx, tx_kind tx, tx_nonce tx), inputs tx, outputs tx, locktime tx,
          da_commit_core tx, da_chunk_core tx, r1) \<and>
      parse_witnesses r1 = Inr (witness tx, r2) \<and> parse_da_payload r2 (tx_kind tx) = Inr (da_payload tx, r3) \<and>
      ce = offset r1 \<and> te = offset r3)"
    by (cases tx) (auto simp: parse_tx_without_hashes_core Let_def)
  also have "\<dots> = (\<exists>r1 r3. wf_tx tx \<and> reads (Reader_new b) (marshal_core tx) r1 \<and>
      reads r1 (marshal_tail tx) r3 \<and> ce = offset r1 \<and> te = offset r3)"
    unfolding parse_core_iff wire_simps wf_tx_def marshal_tail_def reads_append by blast
  also have "\<dots> = (wf_tx tx \<and> fits (Reader_new b) (marshal_core tx @ marshal_tail tx) \<and>
      ce = length (marshal_core tx) \<and> te = length (marshal_core tx @ marshal_tail tx))"
    by (auto simp: reads_iff fits_append)
  also have "\<dots> = (wf_tx tx \<and> (\<exists>tl. b = marshal_core tx @ marshal_tail tx @ tl) \<and>
     ce = length (marshal_core tx) \<and> te = length (marshal_core tx @ marshal_tail tx) \<and> te \<le> usize_max)"
    by (auto simp: fits_Reader_new)
  finally show ?thesis .
qed

subsection \<open>Size bounds\<close>

lemma marshal_outputs_bound:
  assumes "list_all wf_output outs"
  shows "length (concat (map marshal_output outs)) \<le> length outs * 65555"
proof (rule length_concat_map_le)
  fix out assume "out \<in> set outs"
  with assms length_encode_compact_size_le [of "len64 (out_covenant_data out)"]
  show "length (marshal_output out) \<le> 65555"
    by (fastforce simp: wf_output_def marshal_output_def list_all_iff)
qed

lemma da_core_bytes_bound:
  "wf_da_commit c \<Longrightarrow> length (da_commit_core_bytes c) \<le> 66000"
  "wf_da_chunk k \<Longrightarrow> length (da_chunk_core_bytes k) \<le> 66000"
  using length_encode_compact_size_le
  by (auto simp: wf_da_commit_def wf_da_chunk_def da_commit_core_bytes_def da_chunk_core_bytes_def
      length_encode_compact_size)

lemma marshal_core_bound: "wf_core tx \<Longrightarrow> length (marshal_core tx) \<le> 70000000"
proof -
  assume w: "wf_core tx"
  note c = length_encode_compact_size_le
  have "length (marshal_input i) \<le> 81" if "i \<in> set (inputs tx)" for i
    using w that c [of "len64 (script_sig i)"]
    by (auto simp: wf_core_def wf_input_def marshal_input_def list_all_iff)
  then have 1: "length (concat (map marshal_input (inputs tx))) \<le> length (inputs tx) * 81"
    by (rule length_concat_map_le)
  have 2: "length (concat (map marshal_output (outputs tx))) \<le> length (outputs tx) * 65555"
    using w by (simp add: wf_core_def marshal_outputs_bound)
  have 3: "length (case da_commit_core tx of Some c \<Rightarrow> da_commit_core_bytes c | None \<Rightarrow>
       (case da_chunk_core tx of Some c \<Rightarrow> da_chunk_core_bytes c | None \<Rightarrow> [])) \<le> 66000"
    using w by (auto simp: wf_core_def da_core_bytes_bound)
  have 4: "length (inputs tx) \<le> 1024" "length (outputs tx) \<le> 1024" using w by (simp_all add: wf_core_def)
  show ?thesis
    using 1 2 3 4 c [of "len64 (inputs tx)"] c [of "len64 (outputs tx)"]
    unfolding marshal_core_def by simp
qed

lemma marshal_tail_bound: "wf_tx tx \<Longrightarrow> length (marshal_tail tx) \<le> 700000"
proof -
  assume w: "wf_tx tx"
  have "length (encode_compact_size (len64 (witness tx))) +
      length (concat (map marshal_witness_item (witness tx))) \<le> 100009"
    using w length_encode_compact_size_le [of "len64 (witness tx)"]
    by (cases "witness tx") (auto simp: wf_tx_def wf_witnesses_def)
  moreover have "length (da_payload tx) \<le> 524288" using w by (auto simp: wf_tx_def wf_payload_def)
  ultimately show ?thesis
    using length_encode_compact_size_le [of "len64 (da_payload tx)"]
    unfolding marshal_tail_def by simp
qed

lemma wf_tx_length: "wf_tx tx \<Longrightarrow> length (marshal_core tx @ marshal_tail tx) \<le> usize_max"
  using marshal_core_bound [of tx] marshal_tail_bound [of tx] by (simp add: wf_tx_def usize_max_def)

text \<open>
  C16: the transaction parser accepts a byte string exactly when it starts with the
  serialisation of a transaction within the wire limits, and it reports the end of
  the core and of the whole encoding. So parsing inverts \<open>marshal_tx\<close>, no
  transaction has two encodings, and trailing bytes are never looked at.
\<close>

theorem parse_tx_canonical:
  "parse_tx_without_hashes b = Ok (tx, core_end, total_end) \<longleftrightarrow>
     wf_tx tx \<and> (\<exists>enc tl. marshal_tx tx = Ok enc \<and> b = enc @ tl \<and> total_end = length enc) \<and>
     core_end = length (marshal_core tx)"
proof -
  show ?thesis
    unfolding parse_tx_without_hashes_iff
    using wf_tx_length [of tx] by (auto simp: wf_tx_def marshal_tx_wf)
qed

lemma marshal_core_inject:
  assumes "wf_core t1" and "wf_core t2" and "marshal_core t1 = marshal_core t2"
  shows "version t1 = version t2 \<and> tx_kind t1 = tx_kind t2 \<and> tx_nonce t1 = tx_nonce t2 \<and>
    inputs t1 = inputs t2 \<and> outputs t1 = outputs t2 \<and> locktime t1 = locktime t2 \<and>
    da_commit_core t1 = da_commit_core t2 \<and> da_chunk_core t1 = da_chunk_core t2"
proof -
  let ?r = "Reader_new (marshal_core t1)" and ?r' = "adv (Reader_new (marshal_core t1)) (length (marshal_core t1))"
  have "reads ?r (marshal_core t1) ?r'"
    using marshal_core_bound [OF assms(1)]
    by (simp add: reads_iff fits_Reader_new usize_max_def)
  then show ?thesis
    using assms parse_core_iff [of ?r t1 ?r'] parse_core_iff [of ?r t2 ?r'] by simp
qed

text \<open>
  C25: a transaction identifier commits to every field except the witness and the
  payload, and a witness identifier commits to the whole transaction: two parsed
  transactions with equal identifiers agree on those parts, provided the hash
  function does not collide on the two hashed strings.
\<close>

theorem txid_binds_core:
  assumes "parse_tx H b1 = Ok (t1, txid1, wtxid1, n1)" and "parse_tx H b2 = Ok (t2, txid2, wtxid2, n2)"
  shows "(txid1 = txid2 \<and> inj_on H {marshal_core t1, marshal_core t2} \<longrightarrow>
      t1 = t2\<lparr>witness := witness t1, da_payload := da_payload t1\<rparr>) \<and>
    (wtxid1 = wtxid2 \<and> inj_on H {take n1 b1, take n2 b2} \<longrightarrow> t1 = t2)"
proof -
  obtain l1 l2 where
    b1: "b1 = (marshal_core t1 @ marshal_tail t1) @ l1" and b2: "b2 = (marshal_core t2 @ marshal_tail t2) @ l2"
    and w: "wf_tx t1" "wf_tx t2"
    and n: "n1 = length (marshal_core t1 @ marshal_tail t1)" "n2 = length (marshal_core t2 @ marshal_tail t2)"
    and ids: "txid1 = H (marshal_core t1)" "wtxid1 = H (take n1 b1)"
      "txid2 = H (marshal_core t2)" "wtxid2 = H (take n2 b2)"
    using assms by (auto simp: parse_tx_def parse_tx_without_hashes_iff Let_def slice_def)
  have 1: "t1 = t2\<lparr>witness := witness t1, da_payload := da_payload t1\<rparr>"
    if "marshal_core t1 = marshal_core t2"
    using marshal_core_inject [OF _ _ that] w by (simp add: wf_tx_def)
  have 2: "t1 = t2" if eq: "take n1 b1 = take n2 b2"
  proof -
    have "take n1 b1 = marshal_core t1 @ marshal_tail t1" "take n2 b2 = marshal_core t2 @ marshal_tail t2"
      by (simp_all add: b1 b2 n)
    with eq have e: "marshal_core t1 @ marshal_tail t1 = marshal_core t2 @ marshal_tail t2" by simp
    have p: "parse_tx_without_hashes (marshal_core t @ marshal_tail t) =
        Inr (t, length (marshal_core t), length (marshal_core t @ marshal_tail t))" if "wf_tx t" for t
      using that wf_tx_length [of t] unfolding parse_tx_without_hashes_iff by simp
    show ?thesis using p [OF w(1)] p [OF w(2)] unfolding e by (simp only: sum.inject prod.inject)
  qed
  have "marshal_core t1 = marshal_core t2" if "txid1 = txid2" "inj_on H {marshal_core t1, marshal_core t2}"
    by (rule inj_onD [OF that(2)]) (use that(1) in \<open>simp_all add: ids\<close>)
  moreover have "take n1 b1 = take n2 b2" if "wtxid1 = wtxid2" "inj_on H {take n1 b1, take n2 b2}"
    by (rule inj_onD [OF that(2)]) (use that(1) in \<open>simp_all add: ids\<close>)
  ultimately show ?thesis using 1 2 by blast
qed

lemma parse_tx_intro:
  assumes "wf_tx tx" and "marshal_core tx = core" and "marshal_tail tx = tail"
  shows "parse_tx H (core @ tail) = Ok (tx, H core, H (core @ tail), length (core @ tail))"
proof -
  have "parse_tx_without_hashes (core @ tail) = Ok (tx, length core, length (core @ tail))"
    using assms wf_tx_length [of tx] unfolding parse_tx_without_hashes_iff by auto
  then show ?thesis by (simp add: parse_tx_def slice_def Let_def)
qed

theorem txid_binds_core_witness:
  "(let b1 = [1, 0, 0, 0, 0, 7, 0, 0, 0, 0, 0, 0, 0, 0, 0, 0, 0, 0, 0] @ [0, 0];
        b2 = [1, 0, 0, 0, 0, 7, 0, 0, 0, 0, 0, 0, 0, 0, 0, 0, 0, 0, 0] @ [1, 0, 0, 0, 0] in
    \<exists>t1 t2 txid w1 w2. parse_tx id b1 = Ok (t1, txid, w1, 21) \<and> parse_tx id b2 = Ok (t2, txid, w2, 24) \<and>
      t1 \<noteq> t2 \<and> t1 = t2\<lparr>witness := witness t1, da_payload := da_payload t1\<rparr>)"
proof -
  let ?t = "\<lparr>version = 1, tx_kind = 0, tx_nonce = 7, inputs = [], outputs = [], locktime = 0,
      da_commit_core = None, da_chunk_core = None, witness = [], da_payload = []\<rparr>"
  let ?u = "?t\<lparr>witness := [\<lparr>suite_id = 0, pubkey = [], signature = []\<rparr>]\<rparr>"
  let ?c = "[1, 0, 0, 0, 0, 7, 0, 0, 0, 0, 0, 0, 0, 0, 0, 0, 0, 0, 0] :: bytes"
  have "parse_tx id (?c @ [0, 0]) = Ok (?t, id ?c, id (?c @ [0, 0]), length (?c @ [0, 0]))"
    by (rule parse_tx_intro) (simp_all add: wf_tx_def wf_core_def wf_payload_def wf_witnesses_def
      marshal_core_def marshal_tail_def to_le32_def to_le64_def nat_le_numeral encode_compact_size_def)
  then have 1: "parse_tx id (?c @ [0, 0]) = Ok (?t, ?c, ?c @ [0, 0], 21)" by simp
  have "parse_tx id (?c @ [1, 0, 0, 0, 0]) = Ok (?u, id ?c, id (?c @ [1, 0, 0, 0, 0]), length (?c @ [1, 0, 0, 0, 0]))"
    by (rule parse_tx_intro) (simp_all add: wf_tx_def wf_core_def wf_payload_def wf_witnesses_def
      marshal_core_def marshal_tail_def to_le32_def to_le64_def nat_le_numeral encode_compact_size_def
      wf_witness_item_def SUITE_ID_SENTINEL_def sentinel_shape_def marshal_witness_item_def)
  then have 2: "parse_tx id (?c @ [1, 0, 0, 0, 0]) = Ok (?u, ?c, ?c @ [1, 0, 0, 0, 0], 24)" by simp
  show ?thesis
    unfolding Let_def
    by (intro exI conjI) (rule 1, rule 2, simp, use txid_binds_core [OF 1 2] in simp)
qed

end
