(* ===== verification/Merkle.thy ===== *)
theory Merkle
  imports Base
begin

text \<open>
  The tagged Merkle trees of \<^verbatim>\<open>merkle.rs\<close>. \<open>merkle_root_tagged\<close> runs level by
  level and carries an odd last node up unchanged; \<open>mth\<close> is the recursive tree
  that splits at the largest power of two below the number of leaves. The two
  agree, and the tree determines its leaves when the hash does not collide.
\<close>

section \<open>The level loop\<close>

fun merkle_next_level :: "(bytes \<Rightarrow> bytes32) \<Rightarrow> u8 \<Rightarrow> bytes32 list \<Rightarrow> bytes32 list" where
  "merkle_next_level H node_tag [] = []"
| "merkle_next_level H node_tag [x] = [x]"
| "merkle_next_level H node_tag (x # y # zs) = H (node_tag # x @ y) # merkle_next_level H node_tag zs"

lemma length_merkle_next_level [simp]:
  "length (merkle_next_level H t xs) = (length xs + 1) div 2"
  by (induction H t xs rule: merkle_next_level.induct) simp_all

function merkle_levels :: "(bytes \<Rightarrow> bytes32) \<Rightarrow> u8 \<Rightarrow> bytes32 list \<Rightarrow> bytes32 list" where
  "merkle_levels H node_tag level =
    (if length level > 1 then merkle_levels H node_tag (merkle_next_level H node_tag level)
     else level)"
  by pat_completeness auto
termination
  by (relation "measure (\<lambda>(_, _, l). length l)") auto

declare merkle_levels.simps [simp del]

definition merkle_root_tagged :: "(bytes \<Rightarrow> bytes32) \<Rightarrow> bytes32 list \<Rightarrow> u8 \<Rightarrow> u8 \<Rightarrow> bytes32 res" where
  "merkle_root_tagged H ids leaf_tag node_tag =
    (if ids = [] then Err TxErrParse ''merkle: empty id list''
     else Ok (merkle_levels H node_tag (map (\<lambda>id. H (leaf_tag # id)) ids) ! 0))"

definition merkle_root_txids :: "(bytes \<Rightarrow> bytes32) \<Rightarrow> bytes32 list \<Rightarrow> bytes32 res" where
  "merkle_root_txids H txids = merkle_root_tagged H txids 0x00 0x01"

definition witness_merkle_root_wtxids :: "(bytes \<Rightarrow> bytes32) \<Rightarrow> bytes32 list \<Rightarrow> bytes32 res" where
  "witness_merkle_root_wtxids H wtxids =
    (if wtxids = [] then Err TxErrParse ''merkle: empty wtxid list''
     else merkle_root_tagged H (wtxids[0 := replicate 32 0]) 0x02 0x03)"

definition witness_commitment_hash :: "(bytes \<Rightarrow> bytes32) \<Rightarrow> bytes32 \<Rightarrow> bytes32" where
  "witness_commitment_hash H witness_root = H (ascii ''RUBIN-WITNESS/'' @ witness_root)"

section \<open>The recursive tree\<close>

function split_point_from :: "nat \<Rightarrow> nat \<Rightarrow> nat" where
  "split_point_from k n = (if 0 < k \<and> 2 * k < n then split_point_from (2 * k) n else k)"
  by pat_completeness auto
termination
  by (relation "measure (\<lambda>(k, n). n - k)") auto

declare split_point_from.simps [simp del]

text \<open>The largest power of two below \<open>n\<close>, for \<open>n \<ge> 2\<close>.\<close>

definition split_point :: "nat \<Rightarrow> nat" where
  "split_point n = split_point_from 1 n"

lemma split_point_from_pow:
  "\<exists>j. k = 2 ^ j \<Longrightarrow> k < n \<Longrightarrow>
   (\<exists>j. split_point_from k n = 2 ^ j) \<and> split_point_from k n < n \<and> n \<le> 2 * split_point_from k n"
proof (induction k n rule: split_point_from.induct)
  case (1 k n)
  show ?case
  proof (cases "2 * k < n")
    case True
    have pos: "0 < k" using "1.prems" by auto
    moreover have "\<exists>j. 2 * k = 2 ^ j" using "1.prems"(1) by (metis power_Suc)
    ultimately show ?thesis
      using 1 True by (subst (1 2 3) split_point_from.simps) simp
  next
    case False
    then show ?thesis using "1.prems" by (simp add: split_point_from.simps [of k n])
  qed
qed

lemma split_point_props:
  assumes "2 \<le> n"
  shows "\<exists>j. split_point n = 2 ^ j" "split_point n < n" "n \<le> 2 * split_point n" "0 < split_point n"
proof -
  have "(\<exists>j. split_point n = 2 ^ j) \<and> split_point n < n \<and> n \<le> 2 * split_point n"
    unfolding split_point_def using assms by (intro split_point_from_pow) (auto intro: exI [of _ 0])
  then show "\<exists>j. split_point n = 2 ^ j" "split_point n < n" "n \<le> 2 * split_point n" "0 < split_point n"
    using assms by auto
qed

lemma split_point_diff: "2 \<le> n \<Longrightarrow> n - split_point n < n"
  using split_point_props(4) [of n] by simp

function mth :: "(bytes \<Rightarrow> bytes32) \<Rightarrow> u8 \<Rightarrow> u8 \<Rightarrow> bytes32 list \<Rightarrow> bytes32" where
  "mth H leaf_tag node_tag ids =
    (if length ids < 2 then H (leaf_tag # hd ids)
     else H (node_tag # mth H leaf_tag node_tag (take (split_point (length ids)) ids)
                      @ mth H leaf_tag node_tag (drop (split_point (length ids)) ids)))"
  by pat_completeness auto
termination
  by (relation "measure (\<lambda>(_, _, _, l). length l)") (auto simp: not_less split_point_props split_point_diff)

declare mth.simps [simp del]

section \<open>The loop computes the recursive tree\<close>

lemma merkle_next_level_append:
  "even (length xs) \<Longrightarrow>
   merkle_next_level H t (xs @ ys) = merkle_next_level H t xs @ merkle_next_level H t ys"
  by (induction H t xs rule: merkle_next_level.induct) simp_all

lemma merkle_levels_next:
  "xs \<noteq> [] \<Longrightarrow> merkle_levels H t (merkle_next_level H t xs) = merkle_levels H t xs"
  using merkle_levels.simps [of H t xs] by (cases xs; cases "tl xs") simp_all

lemma merkle_levels_split:
  assumes "length xs = 2 ^ k" and "ys \<noteq> []" and "length ys \<le> 2 ^ k"
  shows "merkle_levels H t (xs @ ys) =
    [H (t # merkle_levels H t xs ! 0 @ merkle_levels H t ys ! 0)]"
  using assms
proof (induction k arbitrary: xs ys)
  case 0
  then obtain x y where xy: "xs = [x]" "ys = [y]"
    by (auto simp: length_Suc_conv le_Suc_eq)
  show ?case
    unfolding xy by (simp add: merkle_levels.simps [of _ _ "[x, y]"] merkle_levels.simps [of _ _ "[_]"])
next
  case (Suc k)
  let ?n = "merkle_next_level H t"
  have ne: "xs \<noteq> []" using Suc.prems(1) by auto
  have even: "even (length xs)" using Suc.prems(1) by simp
  have "length (?n xs) = 2 ^ k" using Suc.prems(1) by simp
  moreover have "?n ys \<noteq> []" using Suc.prems(2) by (cases ys; cases "tl ys") auto
  moreover have "length (?n ys) \<le> 2 ^ k" using Suc.prems(3) by simp
  ultimately have "merkle_levels H t (?n xs @ ?n ys) =
      [H (t # merkle_levels H t (?n xs) ! 0 @ merkle_levels H t (?n ys) ! 0)]"
    by (rule Suc.IH)
  moreover have "merkle_levels H t (xs @ ys) = merkle_levels H t (?n xs @ ?n ys)"
    using ne merkle_levels_next [of "xs @ ys" H t] even by (simp add: merkle_next_level_append)
  ultimately show ?case
    using ne Suc.prems(2) by (simp add: merkle_levels_next)
qed

lemma merkle_levels_mth:
  "ids \<noteq> [] \<Longrightarrow>
   merkle_levels H node_tag (map (\<lambda>id. H (leaf_tag # id)) ids) = [mth H leaf_tag node_tag ids]"
proof (induction H leaf_tag node_tag ids rule: mth.induct)
  case (1 H leaf_tag node_tag ids)
  show ?case
  proof (cases "length ids < 2")
    case True
    with "1.prems" obtain x where "ids = [x]" by (cases ids) auto
    then show ?thesis by (simp add: merkle_levels.simps mth.simps)
  next
    case False
    let ?s = "split_point (length ids)" and ?f = "\<lambda>id. H (leaf_tag # id)"
    note sp = split_point_props [of "length ids"]
    have len: "2 \<le> length ids" using False by simp
    obtain k where k: "?s = 2 ^ k" using sp(1) len by blast
    have ne: "take ?s ids \<noteq> []" "drop ?s ids \<noteq> []" using sp len by auto
    have "merkle_levels H node_tag (map ?f (take ?s ids) @ map ?f (drop ?s ids)) =
        [H (node_tag # merkle_levels H node_tag (map ?f (take ?s ids)) ! 0
            @ merkle_levels H node_tag (map ?f (drop ?s ids)) ! 0)]"
      using sp len k ne by (intro merkle_levels_split [where k = k]) auto
    then show ?thesis
      using "1.IH" [OF False] ne False
      by (simp add: mth.simps [of H leaf_tag node_tag ids] flip: map_append)
  qed
qed

section \<open>The root commits to the leaves\<close>

text \<open>The strings that the recursive tree hashes.\<close>

function merkle_preimages :: "(bytes \<Rightarrow> bytes32) \<Rightarrow> u8 \<Rightarrow> u8 \<Rightarrow> bytes32 list \<Rightarrow> bytes set" where
  "merkle_preimages H leaf_tag node_tag ids =
    (if length ids < 2 then {leaf_tag # hd ids}
     else insert (node_tag # mth H leaf_tag node_tag (take (split_point (length ids)) ids)
                      @ mth H leaf_tag node_tag (drop (split_point (length ids)) ids))
       (merkle_preimages H leaf_tag node_tag (take (split_point (length ids)) ids) \<union>
        merkle_preimages H leaf_tag node_tag (drop (split_point (length ids)) ids)))"
  by pat_completeness auto
termination
  by (relation "measure (\<lambda>(_, _, _, l). length l)") (auto simp: not_less split_point_props split_point_diff)

declare merkle_preimages.simps [simp del]

lemma length_mth: "(\<And>x. length (H x) = 32) \<Longrightarrow> length (mth H l t ids) = 32"
  by (simp add: mth.simps [of H l t ids])

lemma mth_leaf_node_distinct:
  assumes "\<And>x. length (H x) = 32" and "length (hd xs) = 32"
  shows "l # hd xs \<noteq> t # mth H l t ys @ mth H l t zs"
proof
  assume eq: "l # hd xs = t # mth H l t ys @ mth H l t zs"
  have "length (mth H l t ys) = 32" "length (mth H l t zs) = 32" using assms(1) length_mth by blast+
  then show False using arg_cong [OF eq, of length] assms(2) by simp
qed

abbreviation mth_node_preimage :: "(bytes \<Rightarrow> bytes32) \<Rightarrow> u8 \<Rightarrow> u8 \<Rightarrow> bytes32 list \<Rightarrow> bytes" where
  "mth_node_preimage H l t xs \<equiv> t # mth H l t (take (split_point (length xs)) xs)
      @ mth H l t (drop (split_point (length xs)) xs)"

lemma mth_cases:
  "length xs < 2 \<Longrightarrow> mth H l t xs = H (l # hd xs)"
  "\<not> length xs < 2 \<Longrightarrow> mth H l t xs = H (mth_node_preimage H l t xs)"
  by (simp_all add: mth.simps [of H l t xs])

lemma merkle_preimages_self:
  "length xs < 2 \<Longrightarrow> l # hd xs \<in> merkle_preimages H l t xs"
  "\<not> length xs < 2 \<Longrightarrow> mth_node_preimage H l t xs \<in> merkle_preimages H l t xs"
  by (simp_all add: merkle_preimages.simps [of H l t xs])

lemma mth_inject:
  assumes len: "\<And>x. length (H x) = 32"
    and "inj_on H (merkle_preimages H l t xs \<union> merkle_preimages H l t ys)"
    and "xs \<noteq> []" and "ys \<noteq> []" and "\<forall>x \<in> set xs \<union> set ys. length x = 32"
    and "mth H l t xs = mth H l t ys"
  shows "xs = ys"
  using assms(2-)
proof (induction "length xs" arbitrary: xs ys rule: less_induct)
  case less
  note inj = inj_onD [OF less.prems(1)]
  note self = merkle_preimages_self
  have lens: "length (mth H l t zs) = 32" for zs by (rule length_mth) (rule len)
  have hd32: "length (hd xs) = 32" "length (hd ys) = 32" using less.prems by auto
  note distinct = mth_leaf_node_distinct [where H = H, OF len hd32(1)]
    mth_leaf_node_distinct [where H = H, OF len hd32(2)]
  have same: "length xs < 2 \<longleftrightarrow> length ys < 2"
    using less.prems(5) distinct inj self mth_cases by (metis UnCI)
  show ?case
  proof (cases "length xs < 2")
    case True
    with less.prems(5) same have "l # hd xs = l # hd ys"
      using inj self(1) mth_cases(1) by (metis UnCI)
    then show ?thesis
      using less.prems(2,3) True same by (cases xs; cases ys) auto
  next
    case False
    let ?s = "split_point (length xs)" and ?u = "split_point (length ys)"
    have xs: "2 \<le> length xs" and ys: "2 \<le> length ys" using False same by auto
    have "mth_node_preimage H l t xs = mth_node_preimage H l t ys"
      using less.prems(5) False same inj self(2) mth_cases(2) by (metis UnCI)
    then have eq: "mth H l t (take ?s xs) = mth H l t (take ?u ys)" "mth H l t (drop ?s xs) = mth H l t (drop ?u ys)"
      using lens by auto
    have sub: "merkle_preimages H l t (take ?s xs) \<union> merkle_preimages H l t (take ?u ys)
        \<subseteq> merkle_preimages H l t xs \<union> merkle_preimages H l t ys"
      "merkle_preimages H l t (drop ?s xs) \<union> merkle_preimages H l t (drop ?u ys)
        \<subseteq> merkle_preimages H l t xs \<union> merkle_preimages H l t ys"
      using False same
      by (auto simp: merkle_preimages.simps [of H l t xs] merkle_preimages.simps [of H l t ys])
    note sp = split_point_props [OF xs] split_point_props [OF ys]
    have ne: "take ?s xs \<noteq> []" "take ?u ys \<noteq> []" "drop ?s xs \<noteq> []" "drop ?u ys \<noteq> []"
      using sp xs ys by auto
    have ids: "\<forall>x \<in> set (take ?s xs) \<union> set (take ?u ys). length x = 32"
      "\<forall>x \<in> set (drop ?s xs) \<union> set (drop ?u ys). length x = 32"
      using less.prems(4) in_set_takeD in_set_dropD by (metis UnCI UnE)+
    have "take ?s xs = take ?u ys"
      using sp(2) by (intro less.hyps [OF _ inj_on_subset [OF less.prems(1) sub(1)]] ne ids(1) eq(1)) simp
    moreover have "drop ?s xs = drop ?u ys"
      using split_point_diff [OF xs]
      by (intro less.hyps [OF _ inj_on_subset [OF less.prems(1) sub(2)]] ne ids(2) eq(2)) simp
    ultimately show ?thesis by (metis append_take_drop_id)
  qed
qed

section \<open>Properties\<close>

text \<open>
  C26: the level loop with odd promotion computes, for every non-empty list of
  identifiers, the recursive tree that splits at the largest power of two below
  the number of leaves, and it fails exactly on the empty list.
\<close>

theorem merkle_root_is_recursive_tree:
  "merkle_root_tagged H ids leaf_tag node_tag =
    (if ids = [] then Err TxErrParse ''merkle: empty id list'' else Ok (mth H leaf_tag node_tag ids))"
  by (simp add: merkle_root_tagged_def merkle_levels_mth)

text \<open>
  C27: the transaction Merkle root determines the list of transaction identifiers,
  its length included: two lists of 32-byte identifiers with the same root are
  equal, provided the 32-byte hash does not collide on the strings hashed in the two
  trees. In particular no list has the root of a list with duplicated tail entries.
\<close>

theorem merkle_root_txids_binding:
  assumes "\<And>x. length (H x) = 32"
    and "inj_on H (merkle_preimages H 0x00 0x01 ids \<union> merkle_preimages H 0x00 0x01 ids')"
    and "\<forall>id \<in> set ids \<union> set ids'. length id = 32"
    and "merkle_root_txids H ids = Ok root" and "merkle_root_txids H ids' = Ok root'"
  shows "root = root' \<longleftrightarrow> ids = ids'"
proof -
  have ne: "ids \<noteq> []" "ids' \<noteq> []"
    using assms(4,5) by (auto simp: merkle_root_txids_def merkle_root_tagged_def)
  have r: "root = mth H 0x00 0x01 ids" "root' = mth H 0x00 0x01 ids'"
    using assms(4,5) ne by (auto simp: merkle_root_txids_def merkle_root_tagged_def merkle_levels_mth)
  show ?thesis
    using mth_inject [where H = H, OF assms(1,2) ne assms(3)] r by blast
qed

theorem merkle_root_txids_binding_witness:
  "let H = (\<lambda>x. replicate 31 0 @ [sum_list x]);
       ids = [replicate 32 5]; ids' = [replicate 32 7, replicate 32 8] in
   \<exists>root root'. merkle_root_txids H ids = Ok root \<and> merkle_root_txids H ids' = Ok root' \<and>
     root \<noteq> root'"
proof -
  let ?H = "\<lambda>x :: bytes. replicate 31 0 @ [sum_list x]"
  let ?ids = "[replicate 32 5] :: bytes32 list" and ?ids' = "[replicate 32 7, replicate 32 8] :: bytes32 list"
  have sp: "split_point 2 = 1" "split_point (Suc (Suc 0)) = 1"
    by (simp_all add: split_point_def split_point_from.simps)
  have leaf: "mth ?H 0 1 [x] = ?H (0 # x)" "merkle_preimages ?H 0 1 [x] = {0 # x}" for x
    by (simp_all add: mth.simps merkle_preimages.simps)
  have pre: "merkle_preimages ?H 0 1 ?ids \<union> merkle_preimages ?H 0 1 ?ids' =
      {0 # replicate 32 5, 0 # replicate 32 7, 0 # replicate 32 8,
       1 # ?H (0 # replicate 32 7) @ ?H (0 # replicate 32 8)}"
    by (auto simp: merkle_preimages.simps [of _ _ _ ?ids'] leaf sp)
  have inj: "inj_on ?H (merkle_preimages ?H 0 1 ?ids \<union> merkle_preimages ?H 0 1 ?ids')"
    unfolding pre by (rule inj_onI) (auto simp: sum_list_replicate)
  obtain root root' where r: "merkle_root_txids ?H ?ids = Ok root" "merkle_root_txids ?H ?ids' = Ok root'"
    by (simp add: merkle_root_txids_def merkle_root_tagged_def)
  have "?ids \<noteq> ?ids'" by simp
  then have "root \<noteq> root'"
    using merkle_root_txids_binding [OF _ inj _ r] by simp
  then show ?thesis using r by (simp add: Let_def)
qed

end
