(* ===== verification/Pow.thy ===== *)
theory Pow
  imports Wire
begin

text \<open>
  Block headers (\<^verbatim>\<open>block.rs\<close>), proof of work and retargeting (\<^verbatim>\<open>pow.rs\<close>) and
  chain work (\<^verbatim>\<open>fork_choice.rs\<close>).

  A \<open>BigUint\<close> of the external crate \<open>num_bigint\<close> is the natural number it denotes;
  the crate's two byte conversions are the fields of the parameter \<open>L\<close>, and
  \<open>biguint_spec L\<close> states what its documentation says of them. The hash is the
  parameter \<open>H\<close>.
\<close>

section \<open>Headers\<close>

record BlockHeader =
  hdr_version :: u32
  prev_block_hash :: bytes32
  merkle_root :: bytes32
  timestamp :: u64
  target :: bytes32
  nonce :: u64

definition BLOCK_HEADER_BYTES :: nat where
  "BLOCK_HEADER_BYTES = 116"

definition parse_block_header_bytes :: "bytes \<Rightarrow> BlockHeader res" where
  "parse_block_header_bytes b =
    (if length b \<noteq> BLOCK_HEADER_BYTES then Err TxErrParse ''block header length mismatch''
     else Ok \<lparr>hdr_version = from_le32 (slice b 0 4), prev_block_hash = slice b 4 36,
       merkle_root = slice b 36 68, timestamp = from_le64 (slice b 68 76),
       target = slice b 76 108, nonce = from_le64 (slice b 108 116)\<rparr>)"

definition block_hash :: "(bytes \<Rightarrow> bytes32) \<Rightarrow> bytes \<Rightarrow> bytes32 res" where
  "block_hash H header_bytes =
    (if length header_bytes \<noteq> BLOCK_HEADER_BYTES
     then Err TxErrParse ''block hash: invalid header length''
     else Ok (H header_bytes))"

section \<open>Big integers\<close>

record BigUintLib =
  from_bytes_be :: "bytes \<Rightarrow> nat"
  to_bytes_be :: "nat \<Rightarrow> bytes"

definition biguint_spec :: "BigUintLib \<Rightarrow> bool" where
  "biguint_spec L \<longleftrightarrow>
     (\<forall>b. from_bytes_be L b = be_nat b) \<and>
     (\<forall>n. be_nat (to_bytes_be L n) = n) \<and>
     (\<forall>n k. 0 < k \<and> n < 256 ^ k \<longrightarrow> length (to_bytes_be L n) \<le> k)"

section \<open>Retargeting\<close>

definition retarget_clamp_overflow :: TxError where
  "retarget_clamp_overflow = TxError_new TxErrParse ''retarget: timestamp clamp overflow''"

definition clamp_next_retarget_timestamp :: "u64 \<Rightarrow> u64 \<Rightarrow> u64 res" where
  "clamp_next_retarget_timestamp prev raw =
    and_then (ok_or retarget_clamp_overflow (checked_add prev 1)) (\<lambda>lo.
    and_then (ok_or retarget_clamp_overflow (checked_add prev MAX_TIMESTAMP_STEP_PER_BLOCK)) (\<lambda>hi.
      Ok (if raw < lo then lo else if raw > hi then hi else raw)))"

definition validate_retarget_old_target :: "nat \<Rightarrow> nat \<Rightarrow> unit res" where
  "validate_retarget_old_target t_old pow_limit =
    (if t_old = 0 then Err TxErrParse ''retarget: target_old is zero''
     else if t_old > pow_limit then Err TxErrParse ''retarget: target_old above pow_limit''
     else Ok ())"

definition retarget_expected_interval :: "u64 res" where
  "retarget_expected_interval =
    and_then (ok_or (TxError_new TxErrParse ''retarget: t_expected overflow'')
      (checked_mul TARGET_BLOCK_INTERVAL WINDOW_SIZE)) (\<lambda>t_expected.
    if t_expected = 0 then Err TxErrParse ''retarget: t_expected is zero''
    else Ok t_expected)"

definition retarget_lower_bound :: "nat \<Rightarrow> nat" where
  "retarget_lower_bound t_old = max (t_old div 4) 1"

definition retarget_upper_bound :: "nat \<Rightarrow> nat \<Rightarrow> nat" where
  "retarget_upper_bound t_old pow_limit = min (t_old * 4) pow_limit"

definition biguint_to_bytes32 :: "BigUintLib \<Rightarrow> nat \<Rightarrow> bytes32 res" where
  "biguint_to_bytes32 L x =
    (let b = to_bytes_be L x in
     if length b > 32 then Err TxErrParse ''u256: overflow''
     else Ok (replicate (32 - length b) 0 @ b))"

definition retarget_v1_with_actual :: "BigUintLib \<Rightarrow> bytes32 \<Rightarrow> u64 \<Rightarrow> bytes32 res" where
  "retarget_v1_with_actual L target_old t_actual =
    (let pow_limit = from_bytes_be L POW_LIMIT;
         t_old = from_bytes_be L target_old in
     and_then (validate_retarget_old_target t_old pow_limit) (\<lambda>_.
     and_then retarget_expected_interval (\<lambda>t_expected.
     let t_new = (t_old * unat t_actual) div unat t_expected;
         lower = retarget_lower_bound t_old;
         upper = retarget_upper_bound t_old pow_limit;
         t_new = (if t_new < lower then lower else t_new);
         t_new = (if t_new > upper then upper else t_new) in
     biguint_to_bytes32 L t_new)))"

definition retarget_v1 :: "BigUintLib \<Rightarrow> bytes32 \<Rightarrow> u64 \<Rightarrow> u64 \<Rightarrow> bytes32 res" where
  "retarget_v1 L target_old timestamp_first timestamp_last =
    (let t_actual = (if timestamp_last \<le> timestamp_first then 1
                     else timestamp_last - timestamp_first) in
     retarget_v1_with_actual L target_old t_actual)"

definition retarget_v1_clamped :: "BigUintLib \<Rightarrow> bytes32 \<Rightarrow> u64 list \<Rightarrow> bytes32 res" where
  "retarget_v1_clamped L target_old window_timestamps =
    (if length window_timestamps \<noteq> unat WINDOW_SIZE
     then Err TxErrParse ''retarget: invalid window timestamp count''
     else let first = window_timestamps ! 0 in
     and_then (try_fold clamp_next_retarget_timestamp first (drop 1 window_timestamps)) (\<lambda>prev.
     let t_actual = prev - first;
         t_actual = (if t_actual = 0 then 1 else t_actual) in
     retarget_v1_with_actual L target_old t_actual))"

section \<open>Proof of work\<close>

definition pow_check :: "BigUintLib \<Rightarrow> (bytes \<Rightarrow> bytes32) \<Rightarrow> bytes \<Rightarrow> bytes32 \<Rightarrow> unit res" where
  "pow_check L H header_bytes tgt =
    (if length header_bytes \<noteq> BLOCK_HEADER_BYTES then Err TxErrParse ''pow: invalid header length''
     else let target_bi = from_bytes_be L tgt; pow_limit = from_bytes_be L POW_LIMIT in
     if target_bi = 0 \<or> target_bi > pow_limit then Err BlockErrTargetInvalid ''target out of range''
     else and_then (block_hash H header_bytes) (\<lambda>h.
     if h \<ge> tgt then Err BlockErrPowInvalid ''pow invalid''
     else Ok ()))"

section \<open>Chain work\<close>

definition work_from_target :: "BigUintLib \<Rightarrow> bytes32 \<Rightarrow> nat res" where
  "work_from_target L tgt =
    (let t = from_bytes_be L tgt in
     if t = 0 then Err TxErrParse ''fork_work: target is zero''
     else let pow_limit = from_bytes_be L POW_LIMIT in
     if t > pow_limit then Err TxErrParse ''fork_work: target above pow_limit''
     else Ok (2 ^ 256 div t))"

definition chain_work_from_targets :: "BigUintLib \<Rightarrow> bytes32 list \<Rightarrow> nat res" where
  "chain_work_from_targets L targets =
    try_fold (\<lambda>total t. and_then (work_from_target L t) (\<lambda>w. Ok (total + w))) 0 targets"

section \<open>The proof-of-work limit\<close>

lemma be_nat_ff: "be_nat (replicate n 0xff) + 1 = 256 ^ n"
  by (induction n) simp_all

lemma be_nat_POW_LIMIT: "be_nat POW_LIMIT = 2 ^ 256 - 1"
  using be_nat_ff [of 32] by (simp add: POW_LIMIT_def)

lemma be_nat_32: "length b = 32 \<Longrightarrow> be_nat b \<le> 2 ^ 256 - 1"
  using be_nat_bound [of b] by simp

section \<open>Behaviour of the retarget functions\<close>

lemma clamp_next_bounds:
  "clamp_next_retarget_timestamp prev raw = Inr t \<Longrightarrow> unat prev + 1 \<le> unat t \<and> unat t \<le> unat prev + 1200"
  by (auto simp: clamp_next_retarget_timestamp_def checked_add_Some word_less_nat_alt not_less split: if_splits)

lemma clamp_next_ok:
  assumes "unat prev + 1200 < 2 ^ 64"
  shows "\<exists>t. clamp_next_retarget_timestamp prev raw = Inr t"
  using assms by (simp add: clamp_next_retarget_timestamp_def checked_add_def)

lemma clamp_fold:
  assumes "unat first + 1200 * length ts < 2 ^ 64"
  shows "\<exists>t. try_fold clamp_next_retarget_timestamp first ts = Inr t \<and>
    unat first + length ts \<le> unat t \<and> unat t \<le> unat first + 1200 * length ts"
  using assms
proof (induction ts arbitrary: first)
  case Nil
  then show ?case by simp
next
  case (Cons raw ts)
  obtain t where t: "clamp_next_retarget_timestamp first raw = Inr t"
    using clamp_next_ok [of first raw] Cons.prems by auto
  note b = clamp_next_bounds [OF t]
  obtain u where "try_fold clamp_next_retarget_timestamp t ts = Inr u"
    "unat t + length ts \<le> unat u" "unat u \<le> unat t + 1200 * length ts"
    using Cons.IH [of t] b Cons.prems by auto
  then show ?case using t b by auto
qed

lemma biguint_to_bytes32_ok:
  assumes "biguint_spec L" and "x < 2 ^ 256"
  shows "\<exists>b. biguint_to_bytes32 L x = Ok b \<and> length b = 32 \<and> be_nat b = x"
proof -
  have "length (to_bytes_be L x) \<le> 32"
    using assms by (auto simp: biguint_spec_def)
  then show ?thesis
    using assms(1) by (simp add: biguint_to_bytes32_def Let_def be_nat_append biguint_spec_def)
qed

definition retarget_value :: "nat \<Rightarrow> nat \<Rightarrow> nat" where
  "retarget_value t_old t_actual =
     min (max (t_old * t_actual div 1209600) (max (t_old div 4) 1)) (min (t_old * 4) (2 ^ 256 - 1))"

lemma retarget_with_actual_ok:
  assumes "biguint_spec L" and "length old = 32" and "be_nat old \<noteq> 0"
  shows "\<exists>new. retarget_v1_with_actual L old t_actual = Ok new \<and> length new = 32 \<and>
    be_nat new = retarget_value (be_nat old) (unat t_actual)"
proof -
  have L: "from_bytes_be L b = be_nat b" for b using assms(1) by (simp add: biguint_spec_def)
  have e: "retarget_expected_interval = Ok 1209600"
    by (simp add: retarget_expected_interval_def const_defs checked_mul_def)
  have v: "validate_retarget_old_target (be_nat old) (be_nat POW_LIMIT) = Ok ()"
    using assms(3) be_nat_32 [OF assms(2)] by (simp add: validate_retarget_old_target_def be_nat_POW_LIMIT)
  have c: "(if (if a < lo then lo else a) > hi then hi else (if a < lo then lo else a)) = min (max a lo) hi"
    for a lo hi :: nat by (auto simp: min_def max_def)
  have "retarget_v1_with_actual L old t_actual =
      biguint_to_bytes32 L (min (max (be_nat old * unat t_actual div 1209600) (max (be_nat old div 4) 1))
        (min (be_nat old * 4) (be_nat POW_LIMIT)))"
    by (simp only: retarget_v1_with_actual_def L e v Let_def and_then_simps retarget_lower_bound_def
        retarget_upper_bound_def c) simp
  then have r: "retarget_v1_with_actual L old t_actual =
      biguint_to_bytes32 L (retarget_value (be_nat old) (unat t_actual))"
    unfolding retarget_value_def be_nat_POW_LIMIT .
  have "retarget_value (be_nat old) (unat t_actual) < 2 ^ 256"
    by (simp add: retarget_value_def min_less_iff_disj)
  from biguint_to_bytes32_ok [OF assms(1) this] show ?thesis by (simp add: r)
qed

lemma retarget_value_bounds:
  assumes "t_old \<noteq> 0" and "t_old < 2 ^ 256"
  shows "t_old div 4 \<le> retarget_value t_old t" "retarget_value t_old t \<le> t_old * 4"
    "1 \<le> retarget_value t_old t"
  using assms by (auto simp: retarget_value_def min_def max_def)

lemma retarget_clamped_ok:
  assumes "biguint_spec L" and "length old = 32" and "be_nat old \<noteq> 0"
    and "length ts = 10080" and "unat (ts ! 0) + 1200 * 10079 < 2 ^ 64"
  shows "\<exists>t new. 10079 \<le> t \<and> t \<le> 1200 * 10079 \<and> retarget_v1_clamped L old ts = Ok new \<and>
    length new = 32 \<and> be_nat new = retarget_value (be_nat old) t"
proof -
  obtain p where p: "try_fold clamp_next_retarget_timestamp (ts ! 0) (drop 1 ts) = Inr p"
    "unat (ts ! 0) + 10079 \<le> unat p" "unat p \<le> unat (ts ! 0) + 1200 * 10079"
    using clamp_fold [of "ts ! 0" "drop 1 ts"] assms(4,5) by auto
  let ?t = "p - ts ! 0"
  have t: "unat ?t = unat p - unat (ts ! 0)"
    using p(2) by (simp add: unat_sub word_le_nat_alt)
  then have "?t \<noteq> 0" using p(2) by (auto simp: word_unat_eq_iff)
  then have "retarget_v1_clamped L old ts = retarget_v1_with_actual L old ?t"
    using p(1) assms(4) by (simp add: retarget_v1_clamped_def Let_def)
  moreover obtain new where "retarget_v1_with_actual L old ?t = Ok new" "length new = 32"
    "be_nat new = retarget_value (be_nat old) (unat ?t)"
    using retarget_with_actual_ok [OF assms(1-3)] by blast
  moreover have "10079 \<le> unat ?t" "unat ?t \<le> 1200 * 10079" using t p(2,3) by linarith+
  ultimately show ?thesis by metis
qed

lemma work_from_target_iff:
  assumes "biguint_spec L" and "length tgt = 32"
  shows "work_from_target L tgt = (if be_nat tgt = 0 then Err TxErrParse ''fork_work: target is zero''
    else Ok (2 ^ 256 div be_nat tgt))"
proof -
  have L: "from_bytes_be L b = be_nat b" for b using assms(1) by (simp add: biguint_spec_def)
  show ?thesis
    using be_nat_32 [OF assms(2)] unfolding work_from_target_def L Let_def be_nat_POW_LIMIT by simp
qed

lemma chain_work_fold:
  assumes "biguint_spec L" and "\<forall>t \<in> set ts. length t = 32"
  shows "try_fold (\<lambda>total t. and_then (work_from_target L t) (\<lambda>w. Ok (total + w))) a ts = Ok w \<longleftrightarrow>
    (\<forall>t \<in> set ts. be_nat t \<noteq> 0) \<and> w = a + (\<Sum>t\<leftarrow>ts. 2 ^ 256 div be_nat t)"
  using assms(2) by (induction ts arbitrary: a) (auto simp: work_from_target_iff [OF assms(1)])

lemma work_pos: "length t = 32 \<Longrightarrow> be_nat t \<noteq> 0 \<Longrightarrow> 1 \<le> 2 ^ 256 div be_nat t"
  using be_nat_32 [of t] by (simp add: div_greater_zero_iff Suc_leI)

subsection \<open>An instance of the byte conversions\<close>

fun be_digits :: "nat \<Rightarrow> bytes" where
  "be_digits n = (if n < 256 then [of_nat n] else be_digits (n div 256) @ [of_nat (n mod 256)])"

declare be_digits.simps [simp del]

lemma be_nat_be_digits: "be_nat (be_digits n) = n"
proof (induction n rule: be_digits.induct)
  case (1 n)
  then show ?case
    by (subst be_digits.simps) (simp add: be_nat_append unat_of_nat)
qed

lemma length_be_digits: "0 < k \<Longrightarrow> n < 256 ^ k \<Longrightarrow> length (be_digits n) \<le> k"
proof (induction n arbitrary: k rule: be_digits.induct)
  case (1 n)
  show ?case
  proof (cases "n < 256")
    case True
    then show ?thesis using 1 by (subst be_digits.simps) simp
  next
    case False
    then obtain j where j: "k = Suc j" "0 < j" using "1.prems" by (cases k; cases "k - 1") auto
    then have "n div 256 < 256 ^ j" using "1.prems" by (simp add: less_mult_imp_div_less)
    then have "length (be_digits (n div 256)) \<le> j" using 1 False j by simp
    then show ?thesis using False j by (subst be_digits.simps) simp
  qed
qed

definition be_lib :: BigUintLib where
  "be_lib = \<lparr>from_bytes_be = be_nat, to_bytes_be = be_digits\<rparr>"

lemma be_lib_spec: "biguint_spec be_lib"
  by (simp add: biguint_spec_def be_lib_def be_nat_be_digits length_be_digits)

section \<open>Properties\<close>

text \<open>
  C28: for a non-zero old target and a full window of timestamps that stays clear of
  the end of the 64-bit range, the clamped retarget returns a target; the elapsed
  time it uses lies between one second and \<open>MAX_TIMESTAMP_STEP_PER_BLOCK\<close> seconds
  per step, the new target is the scaled old one cut to a factor of four each way,
  and it is a positive 32-byte value.
\<close>

theorem retarget_v1_clamped_bounds:
  assumes "biguint_spec L" and "length target_old = 32" and "be_nat target_old \<noteq> 0"
    and "length ts = 10080" and "unat (ts ! 0) + 1200 * 10079 < 2 ^ 64"
  shows "\<exists>t new. 10079 \<le> t \<and> t \<le> 1200 * 10079 \<and>
    retarget_v1_clamped L target_old ts = Ok new \<and> length new = 32 \<and>
    be_nat new = min (max (be_nat target_old * t div 1209600) (max (be_nat target_old div 4) 1))
      (min (be_nat target_old * 4) (2 ^ 256 - 1)) \<and>
    be_nat target_old div 4 \<le> be_nat new \<and> be_nat new \<le> 4 * be_nat target_old \<and> 0 < be_nat new"
proof -
  have "be_nat target_old < 2 ^ 256" using be_nat_bound [of target_old] assms(2) by simp
  from retarget_value_bounds [OF assms(3) this]
  show ?thesis using retarget_clamped_ok [OF assms] unfolding retarget_value_def [symmetric]
    by (metis One_nat_def Suc_le_eq mult.commute)
qed

theorem retarget_v1_clamped_bounds_witness:
  "\<exists>new. retarget_v1_clamped be_lib (replicate 31 0 @ [9]) (replicate 10080 0) = Ok new \<and>
     2 \<le> be_nat new \<and> be_nat new \<le> 36"
proof -
  have "be_nat (replicate 31 0 @ [9]) = 9" by (simp add: be_nat_append)
  with retarget_v1_clamped_bounds [OF be_lib_spec, of "replicate 31 0 @ [9]" "replicate 10080 0"]
  show ?thesis by auto
qed

lemma pow_check_ok:
  assumes "biguint_spec L" and "\<And>x. length (H x) = 32" and "length tgt = 32"
  shows "pow_check L H header_bytes tgt = Ok () \<longleftrightarrow>
    length header_bytes = 116 \<and> be_nat (H header_bytes) < be_nat tgt"
proof -
  have L: "from_bytes_be L b = be_nat b" for b using assms(1) by (simp add: biguint_spec_def)
  have "H header_bytes < tgt \<longleftrightarrow> be_nat (H header_bytes) < be_nat tgt"
    by (rule bytes_less_be_nat) (simp add: assms)
  then show ?thesis
    using be_nat_32 [OF assms(3)]
    unfolding pow_check_def L Let_def be_nat_POW_LIMIT block_hash_def BLOCK_HEADER_BYTES_def
    by (auto simp: not_le)
qed

text \<open>
  C29: a header passes the proof-of-work check exactly when it has the header length
  and its hash, read as a big-endian number, is below the target.
\<close>

theorem pow_check_iff:
  assumes "biguint_spec L" and "\<And>x. length (H x) = 32" and "length tgt = 32"
  shows "pow_check L H header_bytes tgt = Ok () \<longleftrightarrow>
    length header_bytes = 116 \<and> be_nat (H header_bytes) < be_nat tgt"
  using pow_check_ok [OF assms] .

theorem pow_check_iff_witness:
  "pow_check be_lib (\<lambda>_. replicate 32 1) (replicate 116 0) (replicate 32 2) = Ok () \<and>
   pow_check be_lib (\<lambda>_. replicate 32 1) (replicate 116 0) (replicate 32 1) \<noteq> Ok ()"
proof -
  have "replicate 32 1 < (replicate 32 2 :: bytes)" by (simp add: numeral_eq_Suc)
  then have "be_nat (replicate 32 1) < be_nat (replicate 32 2)"
    by (subst bytes_less_be_nat [symmetric]) simp_all
  then show ?thesis
    using pow_check_iff [OF be_lib_spec, of "\<lambda>_. replicate 32 1" "replicate 32 2" "replicate 116 0"]
      pow_check_iff [OF be_lib_spec, of "\<lambda>_. replicate 32 1" "replicate 32 1" "replicate 116 0"]
    by simp
qed

text \<open>
  C30: chain work exists exactly when every target is non-zero; it is the sum of
  \<open>2^256 div target\<close> over the chain, and it is at least the length of the chain, so
  appending blocks strictly increases it.
\<close>

theorem chain_work_is_sum:
  assumes "biguint_spec L" and "\<forall>t \<in> set targets. length t = 32"
  shows "(chain_work_from_targets L targets = Ok w \<longleftrightarrow>
      (\<forall>t \<in> set targets. be_nat t \<noteq> 0) \<and> w = (\<Sum>t\<leftarrow>targets. 2 ^ 256 div be_nat t)) \<and>
    (chain_work_from_targets L targets = Ok w \<longrightarrow> length targets \<le> w)"
proof -
  have iff: "chain_work_from_targets L targets = Ok w \<longleftrightarrow>
      (\<forall>t \<in> set targets. be_nat t \<noteq> 0) \<and> w = (\<Sum>t\<leftarrow>targets. 2 ^ 256 div be_nat t)"
    unfolding chain_work_from_targets_def using chain_work_fold [OF assms] by simp
  have "length targets \<le> (\<Sum>t\<leftarrow>targets. 2 ^ 256 div be_nat t)" if "\<forall>t \<in> set targets. be_nat t \<noteq> 0"
    using that assms(2)
  proof (induction targets)
    case (Cons t ts)
    then show ?case using work_pos [of t] by fastforce
  qed simp
  then show ?thesis using iff by auto
qed

theorem chain_work_is_sum_witness:
  "chain_work_from_targets be_lib [replicate 31 0 @ [1], replicate 31 0 @ [2]] = Ok (2 ^ 256 + 2 ^ 255)"
proof -
  have "be_nat (replicate 31 0 @ [1]) = 1" "be_nat (replicate 31 0 @ [2]) = 2" by (simp_all add: be_nat_append)
  then show ?thesis
    using chain_work_is_sum [OF be_lib_spec, of "[replicate 31 0 @ [1], replicate 31 0 @ [2]]" "2 ^ 256 + 2 ^ 255"]
    by simp
qed

definition header_bytes_of :: "BlockHeader \<Rightarrow> bytes" where
  "header_bytes_of h = to_le32 (hdr_version h) @ prev_block_hash h @ merkle_root h @
     to_le64 (timestamp h) @ target h @ to_le64 (nonce h)"

text \<open>
  The header parser accepts exactly the 116-byte strings, and reads each as the
  header whose fields, laid out little-endian in order, give the string back.
\<close>

lemma parse_block_header_roundtrip:
  "parse_block_header_bytes b = Ok h \<longleftrightarrow>
     length (prev_block_hash h) = 32 \<and> length (merkle_root h) = 32 \<and> length (target h) = 32 \<and>
     b = header_bytes_of h" (is "?l \<longleftrightarrow> ?r")
proof
  assume l: ?l
  then have len: "length b = 116" by (simp add: parse_block_header_bytes_def BLOCK_HEADER_BYTES_def)
  have "b = slice b 0 4 @ slice b 4 36 @ slice b 36 68 @ slice b 68 76 @ slice b 76 108 @ slice b 108 116"
    using len by (simp add: slice_split) (simp add: slice_def)
  then show ?r
    using l len by (auto simp: parse_block_header_bytes_def header_bytes_of_def to_from_le)
next
  assume r: ?r
  then have "length b = 116" by (simp add: header_bytes_of_def)
  then show ?l
    using r by (cases h) (simp add: parse_block_header_bytes_def BLOCK_HEADER_BYTES_def header_bytes_of_def slice_def)
qed

end
