(* ===== verification/Subsidy.thy ===== *)
theory Subsidy
  imports Base
begin

text \<open>
  The emission schedule of \<^verbatim>\<open>subsidy.rs\<close>. The subtraction and the shift are
  those of \<open>u128\<close>; the narrowing to \<open>u64\<close> has the source's overflow branch.
\<close>

definition clamp_base_reward_to_u64 :: "u128 \<Rightarrow> u64" where
  "clamp_base_reward_to_u64 base_reward =
    (if unat base_reward < 2 ^ 64 then ucast base_reward else TAIL_EMISSION_PER_BLOCK)"

definition block_subsidy :: "u64 \<Rightarrow> u128 \<Rightarrow> u64" where
  "block_subsidy height already_generated =
    (if height = 0 then 0
     else let mineable_cap = ucast MINEABLE_CAP in
     if already_generated \<ge> mineable_cap then TAIL_EMISSION_PER_BLOCK
     else let remaining = mineable_cap - already_generated;
              base_reward = drop_bit (unat EMISSION_SPEED_FACTOR) remaining in
     if base_reward < ucast TAIL_EMISSION_PER_BLOCK then TAIL_EMISSION_PER_BLOCK
     else clamp_base_reward_to_u64 base_reward)"

lemma block_subsidy_unat:
  "unat (block_subsidy height already_generated) =
    (if height = 0 then 0
     else max 19025875 ((4900000000000000 - unat already_generated) div 2 ^ 20))"
proof -
  let ?cap = "ucast MINEABLE_CAP :: u128"
  have cap: "unat ?cap = 4900000000000000" and tail: "unat (ucast TAIL_EMISSION_PER_BLOCK :: u128) = 19025875"
    by (simp_all add: unat_ucast)
  show ?thesis
  proof (cases "height = 0 \<or> already_generated \<ge> ?cap")
    case True
    then show ?thesis by (auto simp: block_subsidy_def Let_def word_le_nat_alt cap)
  next
    case False
    let ?base = "drop_bit (unat EMISSION_SPEED_FACTOR) (?cap - already_generated)"
    have "unat (?cap - already_generated) = 4900000000000000 - unat already_generated"
      using False by (subst unat_sub) (auto simp: cap)
    then have base: "unat ?base = (4900000000000000 - unat already_generated) div 2 ^ 20"
      by (simp add: drop_bit_eq_div unat_div)
    then have "unat ?base < 2 ^ 64" by simp
    then have "unat (clamp_base_reward_to_u64 ?base) = unat ?base"
      by (simp add: clamp_base_reward_to_u64_def unat_ucast)
    then show ?thesis
      using False base by (simp add: block_subsidy_def Let_def word_less_nat_alt tail max_def)
  qed
qed

text \<open>
  C31: at every height above zero the subsidy is the larger of the tail emission and
  the remaining mineable amount shifted right by 20, computed without wrap-around or
  truncation; it never grows with the amount already generated, and paying it before
  the cap is reached cannot overshoot the cap by a whole tail emission.
\<close>

theorem block_subsidy_schedule:
  assumes "height \<noteq> 0" and "g \<le> g'"
  shows "unat (block_subsidy height g) = max 19025875 ((4900000000000000 - unat g) div 2 ^ 20) \<and>
    block_subsidy height g' \<le> block_subsidy height g \<and>
    (unat g < 4900000000000000 \<longrightarrow> unat g + unat (block_subsidy height g) < 4900000000000000 + 19025875)"
proof (intro conjI impI)
  have le: "unat g \<le> unat g'" using assms(2) by (simp add: word_le_nat_alt)
  show f: "unat (block_subsidy height g) = max 19025875 ((4900000000000000 - unat g) div 2 ^ 20)"
    using assms(1) by (simp add: block_subsidy_unat)
  have "(4900000000000000 - unat g') div 2 ^ 20 \<le> (4900000000000000 - unat g) div 2 ^ 20"
    using le by (intro div_le_mono) simp
  then show "block_subsidy height g' \<le> block_subsidy height g"
    using assms(1) by (simp add: word_le_nat_alt block_subsidy_unat max.coboundedI2)
  assume "unat g < 4900000000000000"
  moreover have "(4900000000000000 - unat g) div 2 ^ 20 \<le> 4900000000000000 - unat g" by simp
  ultimately show "unat g + unat (block_subsidy height g) < 4900000000000000 + 19025875"
    unfolding f by (auto simp: max_def)
qed

theorem block_subsidy_schedule_witness:
  "block_subsidy 1 0 = 4673004150 \<and> block_subsidy 1 4900000000000000 \<le> block_subsidy 1 0"
proof -
  have "unat (block_subsidy 1 0) = 4673004150"
    using block_subsidy_schedule [of 1 0 0] by simp
  then have "block_subsidy 1 0 = 4673004150" by (simp add: word_unat_eq_iff)
  then show ?thesis using block_subsidy_schedule [of 1 0 4900000000000000] by simp
qed

end
