(* ===== verification/Deployments.thy ===== *)
theory Deployments
  imports Base "HOL-Library.Product_Lexorder"
begin

text \<open>
  Deployment signalling: the feature-bit state machine of \<^verbatim>\<open>featurebits.rs\<close> and the
  flag-day deployments of \<^verbatim>\<open>flagday.rs\<close>. Errors of these modules are strings. A
  warning of the flag-day check is represented by the two entries its text prints.
\<close>

section \<open>Feature bits\<close>

datatype FeatureBitState = Defined | Started | LockedIn | Active | Failed

primrec FeatureBitState_as_str :: "FeatureBitState \<Rightarrow> string" where
  "FeatureBitState_as_str Defined = ''DEFINED''"
| "FeatureBitState_as_str Started = ''STARTED''"
| "FeatureBitState_as_str LockedIn = ''LOCKED_IN''"
| "FeatureBitState_as_str Active = ''ACTIVE''"
| "FeatureBitState_as_str Failed = ''FAILED''"

record FeatureBitDeployment =
  fb_name :: string
  fb_bit :: u8
  start_height :: u64
  timeout_height :: u64

record FeatureBitEval =
  state :: FeatureBitState
  boundary_height :: u64
  prev_window_signal_count :: u32
  signal_window :: u64
  signal_threshold :: u32

fun next_state :: "FeatureBitState \<Rightarrow> u64 \<Rightarrow> u32 \<Rightarrow> FeatureBitDeployment \<Rightarrow> FeatureBitState" where
  "next_state Defined bh cnt d = (if bh \<ge> start_height d then Started else Defined)"
| "next_state Started bh cnt d =
    (if cnt \<ge> SIGNAL_THRESHOLD then LockedIn
     else if bh \<ge> timeout_height d then Failed else Started)"
| "next_state LockedIn bh cnt d = Active"
| "next_state Active bh cnt d = Active"
| "next_state Failed bh cnt d = Failed"

text \<open>The body of the loop over the boundaries, for the boundary with index \<open>i\<close>.\<close>

definition featurebit_boundary_step ::
  "FeatureBitDeployment \<Rightarrow> u32 list \<Rightarrow> FeatureBitState \<Rightarrow> nat \<Rightarrow> FeatureBitState" where
  "featurebit_boundary_step d window_signal_counts st i =
    (let bh = of_nat i * SIGNAL_WINDOW;
         prev_cnt = (if bh < SIGNAL_WINDOW then 0 else window_signal_counts ! (i - 1)) in
     next_state st bh prev_cnt d)"

definition featurebit_state_at_height_from_window_counts ::
  "FeatureBitDeployment \<Rightarrow> u64 \<Rightarrow> u32 list \<Rightarrow> string + FeatureBitEval" where
  "featurebit_state_at_height_from_window_counts d height window_signal_counts =
    (if fb_name d = [] then Inl ''featurebits: name required''
     else if fb_bit d > 31 then Inl (''featurebits: bit out of range: '' @ show_nat (unat (fb_bit d)))
     else if timeout_height d < start_height d then Inl ''featurebits: timeout_height < start_height''
     else
     let bh = height - height mod SIGNAL_WINDOW;
         target_boundary_index = bh div SIGNAL_WINDOW in
     if length window_signal_counts < unat target_boundary_index
     then Inl (''featurebits: need '' @ show_nat (unat target_boundary_index) @
       '' window_signal_counts entries, got '' @ show_nat (length window_signal_counts))
     else
     let st = foldl (featurebit_boundary_step d window_signal_counts) Defined
           [0 ..< Suc (unat target_boundary_index)];
         prev_cnt = (if bh < SIGNAL_WINDOW then 0
           else window_signal_counts ! (unat target_boundary_index - 1)) in
     Inr \<lparr>state = st, boundary_height = bh, prev_window_signal_count = prev_cnt,
       signal_window = SIGNAL_WINDOW, signal_threshold = SIGNAL_THRESHOLD\<rparr>)"

section \<open>Flag days\<close>

record FlagDayDeployment =
  fd_name :: string
  fd_activation_height :: u64
  fd_bit :: "u8 option"

definition FlagDayDeployment_validate :: "FlagDayDeployment \<Rightarrow> string + unit" where
  "FlagDayDeployment_validate d =
    (if fd_name d = [] then Inl ''flagday: name required''
     else case fd_bit d of
       Some b \<Rightarrow> if b > 31 then Inl (''flagday: bit out of range: '' @ show_nat (unat b)) else Inr ()
     | None \<Rightarrow> Inr ())"

record Entry =
  e_name :: string
  e_bit :: u8
  e_start :: u64
  e_end :: u64

definition deployment_entry :: "FlagDayDeployment \<Rightarrow> Entry option" where
  "deployment_entry d = map_option (\<lambda>b.
     \<lparr>e_name = fd_name d, e_bit = b, e_start = fd_activation_height d,
      e_end = saturating_add (fd_activation_height d) FALLOW_PERIOD\<rparr>) (fd_bit d)"

text \<open>The inner loop for a fixed first entry, with its two breaks.\<close>

fun bit_overlaps_from :: "Entry \<Rightarrow> Entry list \<Rightarrow> (Entry \<times> Entry) list" where
  "bit_overlaps_from a [] = []"
| "bit_overlaps_from a (b # bs) =
    (if e_bit a \<noteq> e_bit b then []
     else if e_start b \<ge> e_end a then []
     else (a, b) # bit_overlaps_from a bs)"

fun bit_overlaps :: "Entry list \<Rightarrow> (Entry \<times> Entry) list" where
  "bit_overlaps [] = []"
| "bit_overlaps (a # bs) = bit_overlaps_from a bs @ bit_overlaps bs"

definition validate_deployment_bit_uniqueness ::
  "FlagDayDeployment list \<Rightarrow> (Entry \<times> Entry) list" where
  "validate_deployment_bit_uniqueness deployments =
    (let with_bit = sort_key (\<lambda>e. (e_bit e, e_start e, e_end e))
           (List.map_filter deployment_entry deployments) in
     bit_overlaps with_bit)"

definition flagday_active_at_height :: "FlagDayDeployment \<Rightarrow> u64 \<Rightarrow> string + bool" where
  "flagday_active_at_height d height =
    and_then (FlagDayDeployment_validate d) (\<lambda>_. Inr (height \<ge> fd_activation_height d))"

section \<open>The feature-bit machine as a step relation\<close>

text \<open>One boundary: the window before it had \<open>cnt\<close> signalling blocks.\<close>

inductive fb_reach :: "FeatureBitDeployment \<Rightarrow> u32 list \<Rightarrow> nat \<Rightarrow> FeatureBitState \<Rightarrow> bool" for d cs where
  first: "fb_reach d cs 0 (next_state Defined 0 0 d)"
| step: "fb_reach d cs i st \<Longrightarrow> i < length cs \<Longrightarrow>
    fb_reach d cs (Suc i) (next_state st (of_nat (Suc i) * SIGNAL_WINDOW) (cs ! i) d)"

inductive_cases fb_reach_0: "fb_reach d cs 0 st"
inductive_cases fb_reach_Suc: "fb_reach d cs (Suc i) st"

lemma fb_reach_det: "fb_reach d cs i s \<Longrightarrow> fb_reach d cs i t \<Longrightarrow> s = t"
proof (induction arbitrary: t rule: fb_reach.induct)
  case first
  then show ?case by (auto elim: fb_reach_0)
next
  case (step i st)
  then show ?case by (elim fb_reach_Suc) auto
qed

lemma fb_reach_persist:
  assumes "fb_reach d cs i s" and "s = Active \<or> s = Failed" and "i \<le> k" and "fb_reach d cs k t"
  shows "t = s"
  using assms(4,1-3)
proof (induction rule: fb_reach.induct)
  case first
  then show ?case using fb_reach_det fb_reach.first by blast
next
  case (step k st)
  show ?case
  proof (cases "i = Suc k")
    case True
    then show ?thesis using step fb_reach_det fb_reach.step by blast
  next
    case False
    then have "st = s" using step by simp
    then show ?thesis using step.prems(2) by auto
  qed
qed

lemma fb_reach_started:
  "fb_reach d cs i s \<Longrightarrow> s = Started \<Longrightarrow> i * 2016 < 2 ^ 64 \<Longrightarrow> unat (start_height d) \<le> i * 2016"
proof (induction rule: fb_reach.induct)
  case first
  then show ?case by (auto split: if_splits)
next
  case (step i st)
  have u: "unat (of_nat (Suc i) * SIGNAL_WINDOW) = Suc i * 2016"
    using step.prems(2) by (simp add: unat_word_ariths unat_of_nat)
  show ?case
    using step u by (cases st) (auto simp: word_le_nat_alt split: if_splits)
qed

lemma fb_reach_locked:
  assumes "fb_reach d cs i s"
  shows "(s = LockedIn \<longrightarrow> (\<exists>j. i = Suc j \<and> SIGNAL_THRESHOLD \<le> cs ! j \<and> fb_reach d cs j Started)) \<and>
    (s = Active \<longrightarrow> (\<exists>j. Suc j < i \<and> SIGNAL_THRESHOLD \<le> cs ! j \<and> fb_reach d cs j Started))"
  using assms
proof (induction rule: fb_reach.induct)
  case first
  then show ?case by auto
next
  case (step i st)
  then show ?case by (cases st) (auto dest: Suc_lessD split: if_splits)
qed

lemma featurebit_loop_reach:
  "n \<le> length cs \<Longrightarrow> n * 2016 < 2 ^ 64 \<Longrightarrow>
   fb_reach d cs n (foldl (featurebit_boundary_step d cs) Defined [0 ..< Suc n])"
proof (induction n)
  case 0
  have "featurebit_boundary_step d cs Defined 0 = next_state Defined 0 0 d"
    by (simp add: featurebit_boundary_step_def word_less_nat_alt)
  then show ?case using fb_reach.first [of d cs] by simp
next
  case (Suc n)
  let ?s = "foldl (featurebit_boundary_step d cs) Defined [0 ..< Suc n]"
  have u: "unat (of_nat (Suc n) * SIGNAL_WINDOW) = Suc n * 2016"
    using Suc.prems(2) by (simp add: unat_word_ariths unat_of_nat)
  have "featurebit_boundary_step d cs ?s (Suc n) = next_state ?s (of_nat (Suc n) * SIGNAL_WINDOW) (cs ! n) d"
    using u by (simp add: featurebit_boundary_step_def word_less_nat_alt del: of_nat_Suc)
  moreover have "fb_reach d cs n ?s" using Suc by simp
  ultimately show ?case
    using fb_reach.step [of d cs n ?s] Suc.prems(1) by (simp del: of_nat_Suc)
qed

lemma featurebit_eval_reach:
  assumes "featurebit_state_at_height_from_window_counts d height cs = Inr e"
  shows "fb_reach d cs (unat height div 2016) (state e)" "unat height div 2016 \<le> length cs"
proof -
  let ?bh = "height - height mod SIGNAL_WINDOW"
  have "unat (height mod SIGNAL_WINDOW) = unat height mod 2016" by (simp add: unat_mod)
  moreover have "height mod SIGNAL_WINDOW \<le> height"
    by (simp add: word_le_nat_alt unat_mod)
  ultimately have "unat ?bh = unat height - unat height mod 2016" by (simp add: unat_sub)
  then have b: "unat (?bh div SIGNAL_WINDOW) = unat height div 2016"
    by (simp add: unat_div minus_mod_eq_mult_div)
  have "unat height div 2016 * 2016 < 2 ^ 64"
    using unsigned_less [of height, where 'a = nat] by (simp add: div_times_less_eq_dividend order_le_less_trans)
  with assms b featurebit_loop_reach [of "unat height div 2016" cs d]
  show "fb_reach d cs (unat height div 2016) (state e)" "unat height div 2016 \<le> length cs"
    by (auto simp: featurebit_state_at_height_from_window_counts_def Let_def split: if_splits)
qed

section \<open>Completeness of the overlap scan\<close>

definition entry_key :: "Entry \<Rightarrow> u8 \<times> u64 \<times> u64" where
  "entry_key e = (e_bit e, e_start e, e_end e)"

definition entry_ok :: "Entry \<Rightarrow> bool" where
  "entry_ok e \<longleftrightarrow> e_end e = saturating_add (e_start e) FALLOW_PERIOD"

definition disjoint_use :: "Entry \<Rightarrow> Entry \<Rightarrow> bool" where
  "disjoint_use a b \<longleftrightarrow> (e_bit a = e_bit b \<longrightarrow> e_end a \<le> e_start b \<or> e_end b \<le> e_start a)"

lemma disjoint_use_sym: "disjoint_use a b = disjoint_use b a"
  by (auto simp: disjoint_use_def)

lemma entry_order:
  assumes "entry_key a \<le> entry_key b"
  shows "e_bit a \<le> e_bit b" "e_bit a = e_bit b \<Longrightarrow> e_start a \<le> e_start b"
  using assms by (auto simp: entry_key_def less_eq_prod_def)

lemma entry_end:
  assumes "entry_ok e" shows "e_start e < e_end e \<or> e_end e = - 1"
proof (cases "unat (e_start e) + 2016 < 2 ^ 64")
  case True
  then show ?thesis
    using assms by (simp add: entry_ok_def saturating_add_def word_less_nat_alt unat_word_ariths)
next
  case False
  then show ?thesis
    using assms by (simp add: entry_ok_def saturating_add_def)
qed

lemma bit_overlaps_from_Nil:
  assumes "sorted (map entry_key (a # bs))" and "\<forall>b \<in> set bs. entry_ok b"
  shows "bit_overlaps_from a bs = [] \<longleftrightarrow> (\<forall>b \<in> set bs. disjoint_use a b)"
proof (cases bs)
  case Nil
  then show ?thesis by simp
next
  case (Cons b cs)
  note sorted = assms(1) [unfolded Cons]
  have later: "entry_key b \<le> entry_key c" if "c \<in> set bs" for c using that sorted Cons by auto
  have ab: "entry_key a \<le> entry_key b" using sorted by simp
  have "disjoint_use a c" if c: "c \<in> set bs" and ne: "e_bit a \<noteq> e_bit b \<or> e_start b \<ge> e_end a" for c
  proof (unfold disjoint_use_def, intro impI disjI1)
    assume eq: "e_bit a = e_bit c"
    have bb: "e_bit a = e_bit b" using eq entry_order(1) [OF ab] entry_order(1) [OF later [OF c]] by simp
    then have "e_start b \<le> e_start c" using entry_order(2) [OF later [OF c]] eq by simp
    then show "e_end a \<le> e_start c" using ne bb by simp
  qed
  moreover have "\<not> disjoint_use a b" if "e_bit a = e_bit b" "\<not> e_start b \<ge> e_end a"
  proof -
    have "e_start a \<le> e_start b" using entry_order(2) [OF ab] that(1) .
    moreover have "e_start b < e_end b \<or> e_end b = - 1" using entry_end assms(2) Cons by simp
    moreover have "unat (e_end a) \<le> unat (- 1 :: u64)"
      using unsigned_less [of "e_end a", where 'a = nat] by (simp add: unsigned_minus_1_eq_mask mask_eq_exp_minus_1)
    ultimately have "\<not> e_end b \<le> e_start a"
      using that(2) unfolding word_le_nat_alt word_less_nat_alt by auto
    moreover have "e_start a \<le> e_start b" using entry_order(2) [OF ab] that(1) .
    ultimately show ?thesis using that by (simp add: disjoint_use_def)
  qed
  ultimately show ?thesis using Cons by (auto split: if_splits)
qed

lemma bit_overlaps_Nil:
  "sorted (map entry_key es) \<Longrightarrow> \<forall>e \<in> set es. entry_ok e \<Longrightarrow>
   bit_overlaps es = [] \<longleftrightarrow> sorted_wrt disjoint_use es"
  by (induction es) (auto simp: bit_overlaps_from_Nil)

text \<open>
  C32: an activation is backed by votes. When a feature bit is \<open>ACTIVE\<close> at a height,
  some complete earlier window that began at or after \<open>start_height\<close> had at least
  \<open>SIGNAL_THRESHOLD\<close> signalling blocks, one further boundary passed between lock-in
  and activation, and \<open>ACTIVE\<close> and \<open>FAILED\<close> are final at every later height.
\<close>

theorem featurebit_activation_sound:
  assumes "featurebit_state_at_height_from_window_counts d height cs = Inr e"
  shows "(state e = Active \<longrightarrow>
      (\<exists>j. Suc j < unat height div 2016 \<and> 1815 \<le> unat (cs ! j) \<and> unat (start_height d) \<le> j * 2016)) \<and>
    (\<forall>height' e'. height \<le> height' \<and> state e \<in> {Active, Failed} \<and>
      featurebit_state_at_height_from_window_counts d height' cs = Inr e' \<longrightarrow> state e' = state e)"
proof (intro conjI impI allI)
  note r = featurebit_eval_reach [OF assms]
  assume "state e = Active"
  then obtain j where j: "Suc j < unat height div 2016" "SIGNAL_THRESHOLD \<le> cs ! j" "fb_reach d cs j Started"
    using fb_reach_locked [OF r(1)] by blast
  have "j * 2016 < 2 ^ 64"
    using j(1) unsigned_less [of height, where 'a = nat]
    by simp
  then show "\<exists>j. Suc j < unat height div 2016 \<and> 1815 \<le> unat (cs ! j) \<and> unat (start_height d) \<le> j * 2016"
    using j fb_reach_started [OF j(3)] by (auto simp: word_le_nat_alt)
next
  fix height' e'
  assume *: "height \<le> height' \<and> state e \<in> {Active, Failed} \<and>
      featurebit_state_at_height_from_window_counts d height' cs = Inr e'"
  then have "unat height div 2016 \<le> unat height' div 2016"
    by (intro div_le_mono) (simp add: word_le_nat_alt)
  then show "state e' = state e"
    using fb_reach_persist [OF featurebit_eval_reach(1) [OF assms]] * featurebit_eval_reach(1) by blast
qed

theorem featurebit_activation_sound_witness:
  "let d = \<lparr>fb_name = ''x'', fb_bit = 1, start_height = 0, timeout_height = 9000\<rparr>; cs = [1815, 0, 7] in
   \<exists>e j. featurebit_state_at_height_from_window_counts d 4032 cs = Inr e \<and> state e = Active \<and>
     Suc j < 2 \<and> 1815 \<le> unat (cs ! j)"
proof -
  let ?d = "\<lparr>fb_name = ''x'', fb_bit = 1, start_height = 0, timeout_height = 9000\<rparr>"
  let ?e = "\<lparr>state = Active, boundary_height = 4032, prev_window_signal_count = 0,
    signal_window = 2016, signal_threshold = 1815\<rparr>"
  have ev: "featurebit_state_at_height_from_window_counts ?d 4032 [1815, 0, 7] = Inr ?e"
    by (simp add: featurebit_state_at_height_from_window_counts_def featurebit_boundary_step_def
        Let_def const_defs word_less_nat_alt word_le_nat_alt unat_div unat_mod upt_conv_Cons)
  show ?thesis
    using featurebit_activation_sound [OF ev] ev by (simp add: Let_def)
qed

text \<open>
  The interval that a deployment reserves, as the comment in the code gives it, over
  unbounded heights. The end of an entry saturates, so the two agree on overlaps only
  below the largest height.
\<close>

definition reserved_interval :: "FlagDayDeployment \<Rightarrow> nat set" where
  "reserved_interval d = {unat (fd_activation_height d) ..< unat (fd_activation_height d) + unat FALLOW_PERIOD}"

lemma interval_disjoint_iff:
  fixes a b n :: nat
  assumes "0 < n"
  shows "{a ..< a + n} \<inter> {b ..< b + n} = {} \<longleftrightarrow> a + n \<le> b \<or> b + n \<le> a"
proof
  assume "{a ..< a + n} \<inter> {b ..< b + n} = {}"
  then have "max a b \<notin> {a ..< a + n} \<inter> {b ..< b + n}" by simp
  then show "a + n \<le> b \<or> b + n \<le> a" using assms by auto
qed auto

lemma saturated_end:
  "unat (saturating_add h FALLOW_PERIOD) = min (unat h + 2016) (2 ^ 64 - 1)" for h :: u64
proof (cases "unat h + 2016 < 2 ^ 64")
  case True
  then show ?thesis by (simp add: saturating_add_def unat_word_ariths)
next
  case False
  then show ?thesis by (simp add: saturating_add_def unsigned_minus_1_eq_mask mask_eq_exp_minus_1)
qed

lemma entries_disjoint_iff:
  assumes "fd_activation_height c < - 1" and "fd_activation_height d < - 1"
    and "deployment_entry c = Some a" and "deployment_entry d = Some b"
  shows "e_end a \<le> e_start b \<or> e_end b \<le> e_start a \<longleftrightarrow> reserved_interval c \<inter> reserved_interval d = {}"
proof -
  have "unat (fd_activation_height c) < 2 ^ 64 - 1" "unat (fd_activation_height d) < 2 ^ 64 - 1"
    using assms(1,2) by (simp_all add: word_less_nat_alt unsigned_minus_1_eq_mask mask_eq_exp_minus_1)
  moreover have "e_start a = fd_activation_height c" "e_end a = saturating_add (fd_activation_height c) FALLOW_PERIOD"
      "e_start b = fd_activation_height d" "e_end b = saturating_add (fd_activation_height d) FALLOW_PERIOD"
    using assms(3,4) by (auto simp: deployment_entry_def)
  moreover have "unat FALLOW_PERIOD = 2016" by simp
  ultimately show ?thesis
    unfolding reserved_interval_def by (subst interval_disjoint_iff) (auto simp: word_le_nat_alt saturated_end)
qed

lemma no_overlap_iff:
  "validate_deployment_bit_uniqueness ds = [] \<longleftrightarrow>
    (\<forall>i j a b. i < j \<and> j < length ds \<and> deployment_entry (ds ! i) = Some a \<and>
       deployment_entry (ds ! j) = Some b \<and> e_bit a = e_bit b \<longrightarrow>
       e_end a \<le> e_start b \<or> e_end b \<le> e_start a)"
proof -
  let ?es = "List.map_filter deployment_entry ds"
  let ?key = "\<lambda>e. (e_bit e, e_start e, e_end e)"
  have ok: "\<forall>e \<in> set (sort_key ?key ?es). entry_ok e"
    by (auto simp: in_set_map_filter deployment_entry_def entry_ok_def)
  have "sorted (map entry_key (sort_key ?key ?es))"
    unfolding entry_key_def by (rule sorted_sort_key)
  then have "validate_deployment_bit_uniqueness ds = [] \<longleftrightarrow> sorted_wrt disjoint_use (sort_key ?key ?es)"
    using ok by (simp add: validate_deployment_bit_uniqueness_def bit_overlaps_Nil)
  also have "\<dots> \<longleftrightarrow> sorted_wrt disjoint_use ?es"
    using sorted_wrt_mset [of disjoint_use, OF disjoint_use_sym] mset_sort by blast
  also have "\<dots> \<longleftrightarrow> (\<forall>i j. i < j \<longrightarrow> j < length ds \<longrightarrow>
      (\<forall>a b. deployment_entry (ds ! i) = Some a \<and> deployment_entry (ds ! j) = Some b \<longrightarrow> disjoint_use a b))"
    unfolding sorted_wrt_map_filter by (simp only: sorted_wrt_iff_nth_less)
  also have "\<dots> \<longleftrightarrow> (\<forall>i j a b. i < j \<and> j < length ds \<and> deployment_entry (ds ! i) = Some a \<and>
       deployment_entry (ds ! j) = Some b \<and> e_bit a = e_bit b \<longrightarrow>
       e_end a \<le> e_start b \<or> e_end b \<le> e_start a)"
    unfolding disjoint_use_def by (simp only: imp_conjL all_simps)
  finally show ?thesis .
qed

text \<open>
  C33: the flag-day check returns no warning exactly when no two deployments with the
  same telemetry bit reserve a common height, where a deployment reserves the heights from
  its activation height \<open>h\<close> up to, not including, \<open>h + FALLOW_PERIOD\<close>: sorting by bit and
  start makes the two early breaks of the scan lose nothing. The heights are
  below the largest 64-bit number, where the computed end saturates and the
  reservation is lost.
\<close>

theorem deployment_bit_check_complete:
  assumes "\<forall>d \<in> set ds. fd_activation_height d < - 1"
  shows "validate_deployment_bit_uniqueness ds = [] \<longleftrightarrow>
    (\<forall>i j b. i < j \<and> j < length ds \<and> fd_bit (ds ! i) = Some b \<and> fd_bit (ds ! j) = Some b \<longrightarrow>
       reserved_interval (ds ! i) \<inter> reserved_interval (ds ! j) = {})"
proof -
  have "(\<forall>a b. deployment_entry (ds ! i) = Some a \<and> deployment_entry (ds ! j) = Some b \<and> e_bit a = e_bit b \<longrightarrow>
        e_end a \<le> e_start b \<or> e_end b \<le> e_start a) \<longleftrightarrow>
      (\<forall>b. fd_bit (ds ! i) = Some b \<and> fd_bit (ds ! j) = Some b \<longrightarrow> reserved_interval (ds ! i) \<inter> reserved_interval (ds ! j) = {})"
    if "i < j" "j < length ds" for i j
  proof -
    have "fd_activation_height (ds ! i) < - 1" "fd_activation_height (ds ! j) < - 1" using assms that by simp_all
    note iff = entries_disjoint_iff [OF this]
    show ?thesis
    proof (cases "fd_bit (ds ! i) \<noteq> None \<and> fd_bit (ds ! i) = fd_bit (ds ! j)")
      case True
      then have "fd_bit (ds ! i) \<noteq> None" "fd_bit (ds ! i) = fd_bit (ds ! j)" by blast+
      then obtain b where b: "fd_bit (ds ! i) = Some b" "fd_bit (ds ! j) = Some b" by (metis not_None_eq)
      then obtain a a' where a: "deployment_entry (ds ! i) = Some a" "deployment_entry (ds ! j) = Some a'" "e_bit a = e_bit a'"
        by (simp add: deployment_entry_def)
      then show ?thesis using iff [OF a(1,2)] b by simp
    qed (auto simp: deployment_entry_def)
  qed
  then show ?thesis unfolding no_overlap_iff by blast
qed

theorem deployment_bit_check_complete_witness:
  "let d = (\<lambda>h. \<lparr>fd_name = ''x'', fd_activation_height = h, fd_bit = Some 3\<rparr>) in
   validate_deployment_bit_uniqueness [d 5000, d 100] = [] \<and>
   validate_deployment_bit_uniqueness [d 5000, d 4999] \<noteq> []"
proof -
  let ?d = "\<lambda>h. \<lparr>fd_name = ''x'', fd_activation_height = h, fd_bit = Some 3\<rparr>"
  have iff: "validate_deployment_bit_uniqueness [?d a, ?d b] = [] \<longleftrightarrow> reserved_interval (?d a) \<inter> reserved_interval (?d b) = {}"
    if h: "a < - 1" "b < - 1" for a b
  proof -
    let ?R = "\<lambda>i j. reserved_interval ([?d a, ?d b] ! i) \<inter> reserved_interval ([?d a, ?d b] ! j) = {}"
    have two: "i = 0 \<and> j = 1" if "i < j" "j < length [?d a, ?d b]" for i j using that by auto
    have hs: "\<forall>d \<in> set [?d a, ?d b]. fd_activation_height d < - 1" using h by simp
    show ?thesis unfolding deployment_bit_check_complete [OF hs]
    proof
      assume "\<forall>i j c. i < j \<and> j < length [?d a, ?d b] \<and> fd_bit ([?d a, ?d b] ! i) = Some c \<and> fd_bit ([?d a, ?d b] ! j) = Some c \<longrightarrow> ?R i j"
      from this [rule_format, of 0 1 3] show "reserved_interval (?d a) \<inter> reserved_interval (?d b) = {}" by simp
    qed (use two in fastforce)
  qed
  have "reserved_interval (?d 5000) \<inter> reserved_interval (?d 100) = {}" by (auto simp: reserved_interval_def)
  moreover have "5000 \<in> reserved_interval (?d 5000) \<inter> reserved_interval (?d 4999)" by (simp add: reserved_interval_def)
  ultimately show ?thesis using iff [of 5000 100] iff [of 5000 4999]
    by (auto simp: Let_def word_less_nat_alt unsigned_minus_1_eq_mask mask_eq_exp_minus_1)
qed

text \<open>At the largest height the end saturates to the start, and two deployments on one bit are not reported.\<close>

lemma saturated_reservation_unreported:
  "let d = \<lparr>fd_name = ''x'', fd_activation_height = - 1, fd_bit = Some 3\<rparr> in
   validate_deployment_bit_uniqueness [d, d] = [] \<and> reserved_interval d \<noteq> {}"
  by (simp add: validate_deployment_bit_uniqueness_def deployment_entry_def List.map_filter_def saturating_add_def
      reserved_interval_def Let_def)

end
