(* ===== verification/BTree_Map.thy ===== *)
theory BTree_Map
  imports Prelude
begin

text \<open>
  The ordered map of the standard library (\<open>BTreeMap\<close>) as a strictly key-sorted
  association list, so that iteration in key order is the order of the list. The
  locale \<open>ordered_map\<close> is what its clients rely on.
\<close>

section \<open>Interface\<close>

locale ordered_map =
  fixes get :: "'m \<Rightarrow> 'k::linorder \<Rightarrow> 'v option"
    and insert :: "'k \<Rightarrow> 'v \<Rightarrow> 'm \<Rightarrow> 'm"
    and empty :: 'm
    and entries :: "'m \<Rightarrow> ('k \<times> 'v) list"
    and inv :: "'m \<Rightarrow> bool"
  assumes inv_empty: "inv empty"
    and inv_insert: "inv m \<Longrightarrow> inv (insert k v m)"
    and get_empty: "get empty k = None"
    and get_insert: "inv m \<Longrightarrow> get (insert k v m) k' = (if k' = k then Some v else get m k')"
    and entries_sorted: "inv m \<Longrightarrow> sorted_wrt (<) (map fst (entries m))"
    and entries_get: "inv m \<Longrightarrow> (k, v) \<in> set (entries m) \<longleftrightarrow> get m k = Some v"
begin

text \<open>Inserting a list of pairs, later ones over earlier ones.\<close>

definition insert_all :: "('k \<times> 'v) list \<Rightarrow> 'm" where
  "insert_all kvs = foldl (\<lambda>m (k, v). insert k v m) empty kvs"

lemma insert_all_snoc: "insert_all (kvs @ [(k, v)]) = insert k v (insert_all kvs)"
  by (simp add: insert_all_def)

lemma inv_insert_all: "inv (insert_all kvs)"
proof (induction kvs rule: rev_induct)
  case Nil
  then show ?case by (simp add: insert_all_def inv_empty)
next
  case (snoc kv kvs)
  then show ?case by (cases kv) (simp add: insert_all_snoc inv_insert)
qed

lemma get_insert_all: "get (insert_all kvs) k = map_of (rev kvs) k"
proof (induction kvs rule: rev_induct)
  case Nil
  then show ?case by (simp add: insert_all_def get_empty)
next
  case (snoc kv kvs)
  then show ?case by (cases kv) (simp add: insert_all_snoc get_insert inv_insert_all)
qed

lemma entries_distinct: "inv m \<Longrightarrow> distinct (map fst (entries m))"
  using entries_sorted strict_sorted_iff by blast

end

section \<open>Implementation\<close>

type_synonym ('k, 'v) btree_map = "('k \<times> 'v) list"

fun bt_insert :: "'k::linorder \<Rightarrow> 'v \<Rightarrow> ('k, 'v) btree_map \<Rightarrow> ('k, 'v) btree_map" where
  "bt_insert k v [] = [(k, v)]"
| "bt_insert k v ((k', v') # m) =
    (if k < k' then (k, v) # (k', v') # m
     else if k = k' then (k, v) # m
     else (k', v') # bt_insert k v m)"

definition bt_get :: "('k, 'v) btree_map \<Rightarrow> 'k \<Rightarrow> 'v option" where
  "bt_get m k = map_of m k"

definition bt_inv :: "('k::linorder, 'v) btree_map \<Rightarrow> bool" where
  "bt_inv m \<longleftrightarrow> sorted_wrt (<) (map fst m)"

lemma bt_insert_keys: "fst ` set (bt_insert k v m) = insert k (fst ` set m)"
  by (induction m rule: bt_insert.induct) auto

lemma bt_inv_insert: "bt_inv m \<Longrightarrow> bt_inv (bt_insert k v m)"
proof (induction k v m rule: bt_insert.induct)
  case (1 k v)
  then show ?case by (simp add: bt_inv_def)
next
  case (2 k v k' v' m)
  have "\<forall>x \<in> fst ` set (bt_insert k v m). k' < x" if "k' < k"
    using 2 that unfolding bt_insert_keys by (auto simp: bt_inv_def)
  then show ?case
    using 2 by (auto simp: bt_inv_def)
qed

lemma bt_get_insert: "bt_inv m \<Longrightarrow> bt_get (bt_insert k v m) k' = (if k' = k then Some v else bt_get m k')"
  by (induction k v m rule: bt_insert.induct) (auto simp: bt_inv_def bt_get_def)

lemma bt_entries_get: "bt_inv m \<Longrightarrow> (k, v) \<in> set m \<longleftrightarrow> bt_get m k = Some v"
  by (simp add: bt_inv_def bt_get_def strict_sorted_iff)

lemma bt_Nil [simp]: "bt_inv []" "bt_get [] k = None"
  by (simp_all add: bt_inv_def bt_get_def)

interpretation bt: ordered_map bt_get bt_insert "[]" "\<lambda>m. m" bt_inv
proof unfold_locales
  show "sorted_wrt (<) (map fst m)" if "bt_inv m" for m :: "('a \<times> 'b) list"
    using that by (simp add: bt_inv_def)
qed (simp_all add: bt_inv_insert bt_get_insert bt_entries_get)

end
