(* ===== verification/Suite_Registry.thy ===== *)
theory Suite_Registry
  imports Base BTree_Map
begin

text \<open>
  The signature-suite registry and the rotation schedule of
  \<^verbatim>\<open>suite_registry.rs\<close>. The trait \<open>RotationProvider\<close> is a record of its three
  methods; its two implementations are values of that record. An error string of the
  rotation checks is a constructor with the values the string prints. A network
  name is the list of its UTF-8 bytes.
\<close>

section \<open>The registry\<close>

record SuiteParams =
  sp_suite_id :: u8
  pubkey_len :: u64
  sig_len :: u64
  verify_cost :: u64
  alg_name :: string

type_synonym SuiteRegistry = "(u8, SuiteParams) btree_map"

definition MAX_LIVE_NATIVE_SUITE_SET_CARDINALITY :: nat where
  "MAX_LIVE_NATIVE_SUITE_SET_CARDINALITY = 2"

definition is_structural_witness_carrier_suite_id :: "u8 \<Rightarrow> bool" where
  "is_structural_witness_carrier_suite_id s \<longleftrightarrow> SUITE_ID_SIMPLICITY_ENVELOPE \<le> s \<and> s \<le> 0xfe"

definition ml_dsa_87_params :: SuiteParams where
  "ml_dsa_87_params = \<lparr>sp_suite_id = SUITE_ID_ML_DSA_87, pubkey_len = ML_DSA_87_PUBKEY_BYTES,
     sig_len = ML_DSA_87_SIG_BYTES, verify_cost = VERIFY_COST_ML_DSA_87, alg_name = ''ML-DSA-87''\<rparr>"

definition default_registry :: SuiteRegistry where
  "default_registry = bt_insert SUITE_ID_ML_DSA_87 ml_dsa_87_params []"

definition is_canonical_default_live_manifest :: "SuiteRegistry \<Rightarrow> bool" where
  "is_canonical_default_live_manifest reg =
    (if length reg \<noteq> 1 then False
     else case bt_get reg SUITE_ID_ML_DSA_87 of
       Some params \<Rightarrow> sp_suite_id params = SUITE_ID_ML_DSA_87 \<and>
         pubkey_len params = ML_DSA_87_PUBKEY_BYTES \<and> sig_len params = ML_DSA_87_SIG_BYTES \<and>
         verify_cost params = VERIFY_COST_ML_DSA_87 \<and> alg_name params = ''ML-DSA-87''
     | None \<Rightarrow> False)"

text \<open>\<open>None\<close> is the panic of the assertion.\<close>

definition with_suites :: "(u8, SuiteParams) btree_map \<Rightarrow> SuiteRegistry option" where
  "with_suites suites =
    (if list_all (\<lambda>(s, _). \<not> is_structural_witness_carrier_suite_id s) suites
     then Some suites else None)"

definition registry_lookup :: "SuiteRegistry \<Rightarrow> u8 \<Rightarrow> SuiteParams option" where
  "registry_lookup reg s = bt_get reg s"

definition is_registered :: "SuiteRegistry \<Rightarrow> u8 \<Rightarrow> bool" where
  "is_registered reg s \<longleftrightarrow> bt_get reg s \<noteq> None"

definition min_sigcheck_payload_bytes :: "SuiteRegistry \<Rightarrow> string + u64 option" where
  "min_sigcheck_payload_bytes reg =
    try_fold (\<lambda>min_payload (_, params).
      and_then (ok_or ''SuiteRegistry payload footprint overflow''
        (checked_add (pubkey_len params) (sig_len params))) (\<lambda>payload_bytes.
      Inr (Some (case min_payload of
          Some current \<Rightarrow> min current payload_bytes
        | None \<Rightarrow> payload_bytes)))) None reg"

section \<open>Native suite sets and rotation providers\<close>

type_synonym NativeSuiteSet = "u8 set"

datatype SuiteSetError = SuiteSetTooLarge nat

definition NativeSuiteSet_try_new :: "u8 list \<Rightarrow> SuiteSetError + NativeSuiteSet" where
  "NativeSuiteSet_try_new ids =
    (if card (set ids) > MAX_LIVE_NATIVE_SUITE_SET_CARDINALITY
     then Inl (SuiteSetTooLarge (card (set ids))) else Inr (set ids))"

text \<open>\<open>None\<close> is the panic of \<open>expect\<close>.\<close>

definition NativeSuiteSet_new :: "u8 list \<Rightarrow> NativeSuiteSet option" where
  "NativeSuiteSet_new ids = (case NativeSuiteSet_try_new ids of Inl _ \<Rightarrow> None | Inr s \<Rightarrow> Some s)"

record RotationProvider =
  native_create_suites :: "u64 \<Rightarrow> NativeSuiteSet"
  native_spend_suites :: "u64 \<Rightarrow> NativeSuiteSet"
  simplicity_active_at_height :: "u64 \<Rightarrow> bool"

definition DefaultRotationProvider :: RotationProvider where
  "DefaultRotationProvider =
    \<lparr>native_create_suites = \<lambda>_. the (NativeSuiteSet_new [SUITE_ID_ML_DSA_87]),
     native_spend_suites = \<lambda>_. the (NativeSuiteSet_new [SUITE_ID_ML_DSA_87]),
     simplicity_active_at_height = \<lambda>_. False\<rparr>"

record CryptoRotationDescriptor =
  rot_name :: string
  old_suite_id :: u8
  new_suite_id :: u8
  create_height :: u64
  spend_height :: u64
  sunset_height :: u64

datatype RotationError =
    RotNameRequired
  | RotSameSuite u8
  | RotOldNotRegistered u8
  | RotNewNotRegistered u8
  | RotCreateNotBeforeSpend u64 u64
  | RotSunsetNotAfterSpend u64 u64
  | RotInDescriptor nat string RotationError
  | RotOverlap string u64 u64 string u64 u64
  | RotFiniteSunsetRequired
  | RotAtMostOneDescriptor nat

definition CryptoRotationDescriptor_validate ::
  "CryptoRotationDescriptor \<Rightarrow> SuiteRegistry \<Rightarrow> RotationError + unit" where
  "CryptoRotationDescriptor_validate d reg =
    (if rot_name d = [] then Inl RotNameRequired
     else if old_suite_id d = new_suite_id d then Inl (RotSameSuite (old_suite_id d))
     else if \<not> is_registered reg (old_suite_id d) then Inl (RotOldNotRegistered (old_suite_id d))
     else if \<not> is_registered reg (new_suite_id d) then Inl (RotNewNotRegistered (new_suite_id d))
     else if create_height d \<ge> spend_height d
     then Inl (RotCreateNotBeforeSpend (create_height d) (spend_height d))
     else if sunset_height d \<noteq> 0 \<and> sunset_height d \<le> spend_height d
     then Inl (RotSunsetNotAfterSpend (sunset_height d) (spend_height d))
     else Inr ())"

definition descriptor_native_suite_set :: "u8 list \<Rightarrow> NativeSuiteSet" where
  "descriptor_native_suite_set ids =
    (case NativeSuiteSet_try_new ids of Inr s \<Rightarrow> s | Inl _ \<Rightarrow> the (NativeSuiteSet_new []))"

definition descriptor_native_create_suites :: "CryptoRotationDescriptor \<Rightarrow> u64 \<Rightarrow> NativeSuiteSet" where
  "descriptor_native_create_suites d height =
    (if height < create_height d then descriptor_native_suite_set [old_suite_id d]
     else if height < spend_height d
     then descriptor_native_suite_set [old_suite_id d, new_suite_id d]
     else descriptor_native_suite_set [new_suite_id d])"

definition descriptor_native_spend_suites :: "CryptoRotationDescriptor \<Rightarrow> u64 \<Rightarrow> NativeSuiteSet" where
  "descriptor_native_spend_suites d height =
    (if height < create_height d then descriptor_native_suite_set [old_suite_id d]
     else if sunset_height d \<noteq> 0 \<and> height \<ge> sunset_height d
     then descriptor_native_suite_set [new_suite_id d]
     else descriptor_native_suite_set [old_suite_id d, new_suite_id d])"

definition DescriptorRotationProvider :: "CryptoRotationDescriptor \<Rightarrow> RotationProvider" where
  "DescriptorRotationProvider d =
    \<lparr>native_create_suites = descriptor_native_create_suites d,
     native_spend_suites = descriptor_native_spend_suites d,
     simplicity_active_at_height = \<lambda>_. False\<rparr>"

section \<open>Sets of rotations and network profiles\<close>

fun validate_each_descriptor ::
  "nat \<Rightarrow> CryptoRotationDescriptor list \<Rightarrow> SuiteRegistry \<Rightarrow> RotationError + unit" where
  "validate_each_descriptor i [] reg = Inr ()"
| "validate_each_descriptor i (d # ds) reg =
    and_then (map_err (RotInDescriptor i (rot_name d)) (CryptoRotationDescriptor_validate d reg))
      (\<lambda>_. validate_each_descriptor (Suc i) ds reg)"

definition rotations_overlap :: "CryptoRotationDescriptor \<Rightarrow> CryptoRotationDescriptor \<Rightarrow> bool" where
  "rotations_overlap a b \<longleftrightarrow> create_height a < spend_height b \<and> create_height b < spend_height a"

definition overlap_error :: "CryptoRotationDescriptor \<Rightarrow> CryptoRotationDescriptor \<Rightarrow> RotationError" where
  "overlap_error a b = RotOverlap (rot_name a) (create_height a) (spend_height a)
     (rot_name b) (create_height b) (spend_height b)"

fun validate_pairs :: "CryptoRotationDescriptor list \<Rightarrow> RotationError + unit" where
  "validate_pairs [] = Inr ()"
| "validate_pairs (a # ds) =
    and_then (try_for_each (\<lambda>b. if rotations_overlap a b then Inl (overlap_error a b) else Inr ()) ds)
      (\<lambda>_. validate_pairs ds)"

definition validate_rotation_set ::
  "CryptoRotationDescriptor list \<Rightarrow> SuiteRegistry \<Rightarrow> RotationError + unit" where
  "validate_rotation_set ds reg =
    and_then (validate_each_descriptor 0 ds reg) (\<lambda>_. validate_pairs ds)"

definition is_ascii_uppercase :: "char \<Rightarrow> bool" where
  "is_ascii_uppercase c \<longleftrightarrow> 65 \<le> (of_char c :: nat) \<and> of_char c \<le> (90 :: nat)"

definition to_ascii_lowercase :: "char \<Rightarrow> char" where
  "to_ascii_lowercase c = (if is_ascii_uppercase c then char_of ((of_char c :: nat) + 32) else c)"

text \<open>
  The characters with the Unicode property \<open>White_Space\<close> in their UTF-8 encoding, which is what
  \<open>trim\<close> of the standard library removes from both ends. An encoding begins with a
  byte that no other position of a character has, so matching whole encodings at the end
  of the bytes removes whole characters.
\<close>

definition white_space :: "string list" where
  "white_space =
    map (\<lambda>n. [char_of n]) [9, 10, 11, 12, 13, 32 :: nat] @
    map (map char_of) [[0xC2, 0x85], [0xC2, 0xA0], [0xE1, 0x9A, 0x80 :: nat]] @
    map (\<lambda>n. map char_of [0xE2, 0x80, n]) ([0x80..<0x8B] @ [0xA8, 0xA9, 0xAF]) @
    map (map char_of) [[0xE2, 0x81, 0x9F], [0xE3, 0x80, 0x80 :: nat]]"

function strip_leading :: "string list \<Rightarrow> string \<Rightarrow> string" where
  "strip_leading ws s =
    (case List.find (\<lambda>w. w \<noteq> [] \<and> take (length w) s = w) ws of
       None \<Rightarrow> s
     | Some w \<Rightarrow> strip_leading ws (drop (length w) s))"
  by pat_completeness auto
termination
proof (relation "measure (\<lambda>(ws, s). length s)")
  fix ws :: "string list" and s w
  assume "List.find (\<lambda>w. w \<noteq> [] \<and> take (length w) s = w) ws = Some w"
  then have "w \<noteq> []" "take (length w) s = w" by (auto simp: find_Some_iff)
  then have "w \<noteq> []" "s \<noteq> []" by auto
  then show "((ws, drop (length w) s), ws, s) \<in> measure (\<lambda>(ws, s). length s)" by simp
qed simp

declare strip_leading.simps [simp del]

definition trim :: "string \<Rightarrow> string" where
  "trim s = rev (strip_leading (map rev white_space) (rev (strip_leading white_space s)))"

definition normalized_rotation_network_name :: "string \<Rightarrow> string" where
  "normalized_rotation_network_name network =
    (let trimmed = trim network in
     if trimmed = [] then ''devnet''
     else if list_ex is_ascii_uppercase trimmed then map to_ascii_lowercase trimmed
     else trimmed)"

definition canonical_rotation_network_name_normalized :: "string \<Rightarrow> string option" where
  "canonical_rotation_network_name_normalized network =
    (if network = ''devnet'' \<or> network = ''testnet'' \<or> network = ''mainnet'' then Some network else None)"

definition canonical_rotation_network_name :: "string \<Rightarrow> string option" where
  "canonical_rotation_network_name network =
    (let normalized = normalized_rotation_network_name network in
     if canonical_rotation_network_name_normalized normalized \<noteq> None then Some normalized else None)"

definition is_v1_production_rotation_network_normalized :: "string \<Rightarrow> bool" where
  "is_v1_production_rotation_network_normalized network \<longleftrightarrow> network = ''mainnet'' \<or> network = ''testnet''"

definition is_v1_production_rotation_network :: "string \<Rightarrow> bool" where
  "is_v1_production_rotation_network network =
    is_v1_production_rotation_network_normalized (normalized_rotation_network_name network)"

definition validate_v1_production_rotation_descriptor ::
  "CryptoRotationDescriptor \<Rightarrow> SuiteRegistry \<Rightarrow> RotationError + unit" where
  "validate_v1_production_rotation_descriptor d reg =
    and_then (CryptoRotationDescriptor_validate d reg) (\<lambda>_.
    if sunset_height d = 0 then Inl RotFiniteSunsetRequired else Inr ())"

definition validate_v1_production_rotation_set ::
  "CryptoRotationDescriptor list \<Rightarrow> SuiteRegistry \<Rightarrow> RotationError + unit" where
  "validate_v1_production_rotation_set ds reg =
    (case ds of
       [] \<Rightarrow> Inr ()
     | [d] \<Rightarrow> validate_v1_production_rotation_descriptor d reg
     | _ \<Rightarrow> Inl (RotAtMostOneDescriptor (length ds)))"

definition validate_rotation_descriptor_for_normalized_network ::
  "string \<Rightarrow> CryptoRotationDescriptor \<Rightarrow> SuiteRegistry \<Rightarrow> RotationError + unit" where
  "validate_rotation_descriptor_for_normalized_network network d reg =
    (if network = ''mainnet'' \<or> network = ''testnet''
     then validate_v1_production_rotation_descriptor d reg
     else CryptoRotationDescriptor_validate d reg)"

definition validate_rotation_descriptor_for_network ::
  "string \<Rightarrow> CryptoRotationDescriptor \<Rightarrow> SuiteRegistry \<Rightarrow> RotationError + unit" where
  "validate_rotation_descriptor_for_network network d reg =
    validate_rotation_descriptor_for_normalized_network (normalized_rotation_network_name network) d reg"

definition validate_rotation_set_for_normalized_network ::
  "string \<Rightarrow> CryptoRotationDescriptor list \<Rightarrow> SuiteRegistry \<Rightarrow> RotationError + unit" where
  "validate_rotation_set_for_normalized_network network ds reg =
    (if network = ''mainnet'' \<or> network = ''testnet''
     then validate_v1_production_rotation_set ds reg
     else validate_rotation_set ds reg)"

definition validate_rotation_set_for_network ::
  "string \<Rightarrow> CryptoRotationDescriptor list \<Rightarrow> SuiteRegistry \<Rightarrow> RotationError + unit" where
  "validate_rotation_set_for_network network ds reg =
    validate_rotation_set_for_normalized_network (normalized_rotation_network_name network) ds reg"

section \<open>Rotation schedules\<close>

lemma descriptor_native_suite_set_simps [simp]:
  "descriptor_native_suite_set [a] = {a}"
  "descriptor_native_suite_set [a, b] = {a, b}"
  by (auto simp: descriptor_native_suite_set_def NativeSuiteSet_try_new_def
      MAX_LIVE_NATIVE_SUITE_SET_CARDINALITY_def card_insert_if)

lemma DefaultRotationProvider_simps [simp]:
  "native_create_suites DefaultRotationProvider h = {SUITE_ID_ML_DSA_87}"
  "native_spend_suites DefaultRotationProvider h = {SUITE_ID_ML_DSA_87}"
  "simplicity_active_at_height DefaultRotationProvider h = False"
  by (simp_all add: DefaultRotationProvider_def NativeSuiteSet_new_def NativeSuiteSet_try_new_def
      MAX_LIVE_NATIVE_SUITE_SET_CARDINALITY_def)

lemma validate_each_descriptor_Inr [simp]:
  "validate_each_descriptor i ds reg = Inr u \<longleftrightarrow>
    (\<forall>d \<in> set ds. CryptoRotationDescriptor_validate d reg = Inr ())"
  by (induction ds arbitrary: i) auto

lemma validate_pairs_Inr [simp]:
  "validate_pairs ds = Inr u \<longleftrightarrow> sorted_wrt (\<lambda>a b. \<not> rotations_overlap a b) ds"
  by (induction ds) auto

text \<open>
  What a rotation provider promises the covenant checks: the sets hold at most two
  suites, a suite that may be created may also be spent, and something can be
  created and spent at every height.
\<close>

locale rotation_rules =
  fixes rp :: RotationProvider
  assumes create_le2: "card (native_create_suites rp h) \<le> 2"
    and spend_le2: "card (native_spend_suites rp h) \<le> 2"
    and create_ne: "native_create_suites rp h \<noteq> {}"
    and create_spendable: "native_create_suites rp h \<subseteq> native_spend_suites rp h"
begin

lemma spend_ne: "native_spend_suites rp h \<noteq> {}"
  using create_ne create_spendable by blast

end

interpretation default_rotation: rotation_rules DefaultRotationProvider
  by unfold_locales simp_all

lemma descriptor_rotation:
  assumes "CryptoRotationDescriptor_validate d reg = Inr ()"
  shows "rotation_rules (DescriptorRotationProvider d)"
  using assms
  by unfold_locales
    (auto simp: DescriptorRotationProvider_def descriptor_native_create_suites_def
      descriptor_native_spend_suites_def CryptoRotationDescriptor_validate_def card_insert_if
      word_less_nat_alt word_le_nat_alt split: if_splits)

text \<open>
  C34: under a validated rotation descriptor, what may be created at a height can be
  spent: at most two and at least one suite are accepted, every creatable suite is
  spendable at the same height, an output of the new suite stays spendable for ever,
  an output of the old suite stays spendable until the sunset height, and from the
  sunset height on the old suite is refused.
\<close>

theorem rotation_schedule_safe:
  assumes "CryptoRotationDescriptor_validate d reg = Inr ()" and "h \<le> h'"
  shows "let rp = DescriptorRotationProvider d;
      create = native_create_suites rp; spend = native_spend_suites rp in
    create h \<noteq> {} \<and> create h \<subseteq> spend h \<and> card (spend h) \<le> 2 \<and>
    (new_suite_id d \<in> create h \<longrightarrow> new_suite_id d \<in> spend h') \<and>
    (old_suite_id d \<in> create h \<and> (sunset_height d = 0 \<or> h' < sunset_height d) \<longrightarrow>
       old_suite_id d \<in> spend h') \<and>
    (sunset_height d \<noteq> 0 \<and> sunset_height d \<le> h' \<longrightarrow> old_suite_id d \<notin> spend h')"
proof -
  note rot = descriptor_rotation [OF assms(1)]
  have ord: "old_suite_id d \<noteq> new_suite_id d" "create_height d < spend_height d"
    "sunset_height d = 0 \<or> spend_height d < sunset_height d"
    using assms(1) by (auto simp: CryptoRotationDescriptor_validate_def split: if_splits)
  show ?thesis
    unfolding Let_def
  proof (intro conjI impI)
    show "native_create_suites (DescriptorRotationProvider d) h \<noteq> {}"
      and "native_create_suites (DescriptorRotationProvider d) h
        \<subseteq> native_spend_suites (DescriptorRotationProvider d) h"
      and "card (native_spend_suites (DescriptorRotationProvider d) h) \<le> 2"
      using rotation_rules.create_ne [OF rot] rotation_rules.create_spendable [OF rot] rotation_rules.spend_le2 [OF rot]
      by blast+
  qed (use ord assms(2) in \<open>auto simp: DescriptorRotationProvider_def descriptor_native_create_suites_def
        descriptor_native_spend_suites_def word_less_nat_alt word_le_nat_alt split: if_splits\<close>)
qed

theorem rotation_schedule_safe_witness:
  "let d = \<lparr>rot_name = ''r'', old_suite_id = 1, new_suite_id = 2, create_height = 10,
       spend_height = 20, sunset_height = 30\<rparr>;
       reg = [(1, ml_dsa_87_params), (2, ml_dsa_87_params)];
       rp = DescriptorRotationProvider d in
   CryptoRotationDescriptor_validate d reg = Inr () \<and> 2 \<in> native_spend_suites rp 40 \<and>
   1 \<notin> native_spend_suites rp 40 \<and> 1 \<in> native_spend_suites rp 25"
proof -
  let ?d = "\<lparr>rot_name = ''r'', old_suite_id = 1, new_suite_id = 2, create_height = 10,
       spend_height = 20, sunset_height = 30\<rparr>"
  let ?reg = "[(1, ml_dsa_87_params), (2, ml_dsa_87_params)]"
  have v: "CryptoRotationDescriptor_validate ?d ?reg = Inr ()"
    by (simp add: CryptoRotationDescriptor_validate_def is_registered_def bt_get_def word_le_nat_alt)
  have c: "1 \<in> native_create_suites (DescriptorRotationProvider ?d) 15"
    "2 \<in> native_create_suites (DescriptorRotationProvider ?d) 15"
    by (simp_all add: DescriptorRotationProvider_def descriptor_native_create_suites_def word_less_nat_alt)
  show ?thesis
    using rotation_schedule_safe [OF v, of 15 40] rotation_schedule_safe [OF v, of 15 25] v c
    by (simp add: Let_def word_less_nat_alt word_le_nat_alt)
qed

text \<open>
  C35: a set of rotations passes exactly when every descriptor is valid by itself and
  the intervals between creation and spend heights are pairwise disjoint.
\<close>

theorem validate_rotation_set_iff:
  "validate_rotation_set ds reg = Inr () \<longleftrightarrow>
    (\<forall>d \<in> set ds. CryptoRotationDescriptor_validate d reg = Inr ()) \<and>
    (\<forall>i j. i < j \<and> j < length ds \<longrightarrow>
      spend_height (ds ! i) \<le> create_height (ds ! j) \<or> spend_height (ds ! j) \<le> create_height (ds ! i))"
  by (auto simp: validate_rotation_set_def sorted_wrt_iff_nth_less rotations_overlap_def not_less)

theorem validate_rotation_set_iff_witness:
  "let d = (\<lambda>c s. \<lparr>rot_name = ''r'', old_suite_id = 1, new_suite_id = 2, create_height = c,
       spend_height = s, sunset_height = 0\<rparr>);
       reg = [(1, ml_dsa_87_params), (2, ml_dsa_87_params)] in
   validate_rotation_set [d 10 20, d 20 30] reg = Inr () \<and>
   validate_rotation_set [d 10 20, d 19 30] reg \<noteq> Inr ()"
proof -
  let ?d = "\<lambda>c s. \<lparr>rot_name = ''r'', old_suite_id = 1, new_suite_id = 2, create_height = c,
       spend_height = s, sunset_height = 0\<rparr>"
  let ?reg = "[(1, ml_dsa_87_params), (2, ml_dsa_87_params)]"
  have v: "CryptoRotationDescriptor_validate (?d c s) ?reg = Inr ()" if "c < s" for c s
    using that by (simp add: CryptoRotationDescriptor_validate_def is_registered_def bt_get_def)
  have "validate_rotation_set [?d 10 20, ?d 20 30] ?reg = Inr ()"
    unfolding validate_rotation_set_iff
    by (auto simp: v less_Suc_eq nth_Cons' word_le_nat_alt word_less_nat_alt)
  moreover have "validate_rotation_set [?d 10 20, ?d 19 30] ?reg \<noteq> Inr ()"
    using validate_rotation_set_iff [of "[?d 10 20, ?d 19 30]" ?reg] by (auto simp: word_le_nat_alt dest: spec [of _ 0])
  ultimately show ?thesis by (simp add: Let_def)
qed

end
