(* ===== verification/Covenants.thy ===== *)
theory Covenants
  imports Tx_Codec Suite_Registry
begin

text \<open>
  Covenant data: the parsers of \<^verbatim>\<open>vault.rs\<close>, \<^verbatim>\<open>htlc.rs\<close>, \<^verbatim>\<open>stealth.rs\<close> and
  \<^verbatim>\<open>simplicity_covenant.rs\<close>, and the creation rules of \<^verbatim>\<open>covenant_genesis.rs\<close>.
  The records \<open>Outpoint\<close> and \<open>UtxoEntry\<close> of \<^verbatim>\<open>utxo_basic.rs\<close> stand here because the
  covenant modules take them as arguments.
\<close>

section \<open>Unspent outputs\<close>

record Outpoint =
  op_txid :: bytes32
  op_vout :: u32

record UtxoEntry =
  ue_value :: u64
  ue_covenant_type :: u16
  ue_covenant_data :: bytes
  creation_height :: u64
  created_by_coinbase :: bool

section \<open>Sorted key lists\<close>

fun strictly_sorted_unique_32 :: "bytes32 list \<Rightarrow> bool" where
  "strictly_sorted_unique_32 (x # y # zs) \<longleftrightarrow> x < y \<and> strictly_sorted_unique_32 (y # zs)"
| "strictly_sorted_unique_32 _ = True"

text \<open>\<open>slice::binary_search\<close>: halve the range, then compare at the final position.\<close>

function bsearch_base :: "'a::linorder list \<Rightarrow> 'a \<Rightarrow> nat \<Rightarrow> nat \<Rightarrow> nat" where
  "bsearch_base xs t base sz =
    (if sz > 1 then
       let half = sz div 2; mid = base + half in
       bsearch_base xs t (if xs ! mid > t then base else mid) (sz - half)
     else base)"
  by pat_completeness auto
termination
  by (relation "measure (\<lambda>(_, _, _, sz). sz)") auto

declare bsearch_base.simps [simp del]

definition hash_in_sorted_32 :: "bytes32 list \<Rightarrow> bytes32 \<Rightarrow> bool" where
  "hash_in_sorted_32 xs t \<longleftrightarrow> xs \<noteq> [] \<and> xs ! bsearch_base xs t 0 (length xs) = t"

section \<open>Vault and multisig\<close>

record VaultCovenant =
  owner_lock_id :: bytes32
  v_threshold :: u8
  v_key_count :: u8
  v_keys :: "bytes32 list"
  whitelist_count :: u16
  whitelist :: "bytes32 list"

record MultisigCovenant =
  m_threshold :: u8
  m_key_count :: u8
  m_keys :: "bytes32 list"

text \<open>The key loop: each step checks that 32 more bytes are there.\<close>

fun vault_read_keys :: "bytes \<Rightarrow> nat \<Rightarrow> nat \<Rightarrow> (bytes32 list \<times> nat) res" where
  "vault_read_keys data off 0 = Ok ([], off)"
| "vault_read_keys data off (Suc n) =
    (if off + 32 > length data then Err TxErrVaultMalformed ''CORE_VAULT truncated keys''
     else and_then (vault_read_keys data (off + 32) n) (\<lambda>(ks, off').
       Ok (slice data off (off + 32) # ks, off')))"

fun read_chunks_32 :: "bytes \<Rightarrow> nat \<Rightarrow> nat \<Rightarrow> bytes32 list" where
  "read_chunks_32 data off 0 = []"
| "read_chunks_32 data off (Suc n) = slice data off (off + 32) # read_chunks_32 data (off + 32) n"

definition parse_vault_covenant_data_inner :: "bytes \<Rightarrow> bool \<Rightarrow> VaultCovenant res" where
  "parse_vault_covenant_data_inner data enforce_whitelist_canonical =
    (if length data < 34 then Err TxErrVaultMalformed ''CORE_VAULT covenant_data too short''
     else let owner = slice data 0 32; thr = data ! 32; kc = data ! 33 in
     if kc = 0 \<or> kc > MAX_VAULT_KEYS then Err TxErrVaultParamsInvalid ''CORE_VAULT key_count out of range''
     else if thr = 0 \<or> thr > kc then Err TxErrVaultParamsInvalid ''CORE_VAULT threshold out of range''
     else and_then (vault_read_keys data 34 (unat kc)) (\<lambda>(ks, off).
     if \<not> strictly_sorted_unique_32 ks
     then Err TxErrVaultKeysNotCanonical ''CORE_VAULT keys not strictly sorted''
     else if off + 2 > length data then Err TxErrVaultMalformed ''CORE_VAULT missing whitelist_count''
     else let wc = from_le16 [data ! off, data ! (off + 1)]; off = off + 2 in
     if wc = 0 \<or> wc > MAX_VAULT_WHITELIST_ENTRIES
     then Err TxErrVaultParamsInvalid ''CORE_VAULT whitelist_count out of range''
     else let expected_len = 32 + 1 + 1 + unat kc * 32 + 2 + unat wc * 32 in
     if length data \<noteq> expected_len
     then Err TxErrVaultMalformed ''CORE_VAULT covenant_data length mismatch''
     else let wl = read_chunks_32 data off (unat wc) in
     if enforce_whitelist_canonical \<and> \<not> strictly_sorted_unique_32 wl
     then Err TxErrVaultWhitelistNotCanonical ''CORE_VAULT whitelist not strictly sorted''
     else if enforce_whitelist_canonical \<and> hash_in_sorted_32 wl owner
     then Err TxErrVaultOwnerDestinationForbidden ''CORE_VAULT whitelist contains owner_lock_id''
     else Ok \<lparr>owner_lock_id = owner, v_threshold = thr, v_key_count = kc, v_keys = ks,
       whitelist_count = wc, whitelist = wl\<rparr>))"

definition parse_vault_covenant_data :: "bytes \<Rightarrow> VaultCovenant res" where
  "parse_vault_covenant_data data = parse_vault_covenant_data_inner data True"

definition parse_vault_covenant_data_for_spend :: "bytes \<Rightarrow> VaultCovenant res" where
  "parse_vault_covenant_data_for_spend data = parse_vault_covenant_data_inner data False"

definition validate_multisig_counts :: "u8 \<Rightarrow> u8 \<Rightarrow> unit res" where
  "validate_multisig_counts thr kc =
    (if kc = 0 \<or> kc > MAX_MULTISIG_KEYS
     then Err TxErrCovenantTypeInvalid ''CORE_MULTISIG key_count out of range''
     else if thr = 0 \<or> thr > kc
     then Err TxErrCovenantTypeInvalid ''CORE_MULTISIG threshold out of range''
     else Ok ())"

definition multisig_expected_len :: "u8 \<Rightarrow> nat" where
  "multisig_expected_len kc = 2 + unat kc * 32"

definition parse_multisig_keys :: "bytes \<Rightarrow> u8 \<Rightarrow> bytes32 list" where
  "parse_multisig_keys data kc = read_chunks_32 data 2 (unat kc)"

definition parse_multisig_covenant_data :: "bytes \<Rightarrow> MultisigCovenant res" where
  "parse_multisig_covenant_data data =
    (if length data < 34 then Err TxErrCovenantTypeInvalid ''CORE_MULTISIG covenant_data too short''
     else let thr = data ! 0; kc = data ! 1 in
     and_then (validate_multisig_counts thr kc) (\<lambda>_.
     let expected_len = multisig_expected_len kc in
     if length data \<noteq> expected_len
     then Err TxErrCovenantTypeInvalid ''CORE_MULTISIG covenant_data length mismatch''
     else let ks = parse_multisig_keys data kc in
     if \<not> strictly_sorted_unique_32 ks
     then Err TxErrCovenantTypeInvalid ''CORE_MULTISIG keys not strictly sorted''
     else Ok \<lparr>m_threshold = thr, m_key_count = kc, m_keys = ks\<rparr>))"

definition output_descriptor_bytes :: "u16 \<Rightarrow> bytes \<Rightarrow> bytes" where
  "output_descriptor_bytes cov_type data =
    to_le16 cov_type @ encode_compact_size (len64 data) @ data"

text \<open>\<open>data.get(i).copied().unwrap_or(1)\<close>.\<close>

definition get_or_1 :: "bytes \<Rightarrow> nat \<Rightarrow> u8" where
  "get_or_1 data i = (if i < length data then data ! i else 1)"

definition witness_slots :: "u16 \<Rightarrow> bytes \<Rightarrow> nat res" where
  "witness_slots cov_type data =
    (if cov_type = COV_TYPE_P2PK then Ok 1
     else if cov_type = COV_TYPE_CORE_STEALTH then Ok (unat CORE_STEALTH_WITNESS_SLOTS)
     else if cov_type = COV_TYPE_MULTISIG then Ok (unat (get_or_1 data 1))
     else if cov_type = COV_TYPE_VAULT then Ok (unat (get_or_1 data 33))
     else if cov_type = COV_TYPE_HTLC then Ok 2
     else if cov_type = COV_TYPE_CORE_SIMPLICITY then Ok (unat SIMPLICITY_WITNESS_SLOTS)
     else Err TxErrCovenantTypeInvalid ''unsupported covenant in witness_slots'')"

section \<open>Hash time lock, stealth and Simplicity data\<close>

record HtlcCovenant =
  htlc_hash :: bytes32
  lock_mode :: u8
  lock_value :: u64
  claim_key_id :: bytes32
  refund_key_id :: bytes32

definition parse_htlc_covenant_data :: "bytes \<Rightarrow> HtlcCovenant res" where
  "parse_htlc_covenant_data data =
    (if len64 data \<noteq> MAX_HTLC_COVENANT_DATA
     then Err TxErrCovenantTypeInvalid ''CORE_HTLC covenant_data length mismatch''
     else let hash = slice data 0 32; mode = data ! 32; lock = from_le64 (slice data 33 41);
              claim = slice data 41 73; refund = slice data 73 105 in
     if mode \<noteq> LOCK_MODE_HEIGHT \<and> mode \<noteq> LOCK_MODE_TIMESTAMP
     then Err TxErrCovenantTypeInvalid ''CORE_HTLC lock_mode invalid''
     else if lock = 0 then Err TxErrCovenantTypeInvalid ''CORE_HTLC lock_value must be > 0''
     else if claim = refund then Err TxErrParse ''CORE_HTLC claim/refund key_id must differ''
     else Ok \<lparr>htlc_hash = hash, lock_mode = mode, lock_value = lock, claim_key_id = claim,
       refund_key_id = refund\<rparr>)"

record StealthCovenant =
  ciphertext :: bytes
  one_time_key_id :: bytes32

definition parse_stealth_covenant_data :: "bytes \<Rightarrow> StealthCovenant res" where
  "parse_stealth_covenant_data data =
    (if len64 data \<noteq> MAX_STEALTH_COVENANT_DATA
     then Err TxErrCovenantTypeInvalid ''CORE_STEALTH covenant_data length mismatch''
     else if ML_KEM_1024_CT_BYTES + 32 \<noteq> MAX_STEALTH_COVENANT_DATA
     then Err TxErrParse ''CORE_STEALTH constants mismatch''
     else Ok \<lparr>ciphertext = slice data 0 (unat ML_KEM_1024_CT_BYTES),
       one_time_key_id = slice data (unat ML_KEM_1024_CT_BYTES) (unat MAX_STEALTH_COVENANT_DATA)\<rparr>)"

definition validate_core_simplicity_deployment_active :: "u64 \<Rightarrow> RotationProvider \<Rightarrow> unit res" where
  "validate_core_simplicity_deployment_active height rp =
    (if simplicity_active_at_height rp height then Ok ()
     else Err TxErrCovenantTypeInvalid ''CORE_SIMPLICITY deployment not active'')"

definition reject_core_simplicity_spend :: TxError where
  "reject_core_simplicity_spend =
    TxError_new TxErrCovenantTypeInvalid ''CORE_SIMPLICITY spend evaluation not enabled''"

definition reject_core_simplicity_spend_if_present :: "UtxoEntry list \<Rightarrow> unit res" where
  "reject_core_simplicity_spend_if_present ins =
    (if list_ex (\<lambda>i. ue_covenant_type i = COV_TYPE_CORE_SIMPLICITY) ins
     then Inl reject_core_simplicity_spend else Ok ())"

definition parse_core_simplicity_covenant_data :: "u64 \<Rightarrow> bytes \<Rightarrow> (bytes32 \<times> bytes) res" where
  "parse_core_simplicity_covenant_data val data =
    (if val = 0 then Err TxErrCovenantTypeInvalid ''CORE_SIMPLICITY value must be > 0''
     else let r = Reader_new data in
     and_then (map_err (\<lambda>_. TxError_new TxErrCovenantTypeInvalid
       ''CORE_SIMPLICITY program_cmr parse failure'') (read_bytes r 32)) (\<lambda>(program_cmr, r).
     and_then (map_err (\<lambda>_. TxError_new TxErrCovenantTypeInvalid
       ''CORE_SIMPLICITY state_len parse failure'') (read_compact_size r))
       (\<lambda>((state_len_u64, state_len_varint_bytes), r).
     if state_len_u64 > MAX_SIMPLICITY_STATE_BYTES
     then Err TxErrCovenantTypeInvalid ''CORE_SIMPLICITY state_len too large''
     else let state_len = unat state_len_u64 in
     and_then (map_err (\<lambda>_. TxError_new TxErrCovenantTypeInvalid
       ''CORE_SIMPLICITY state parse failure'') (read_bytes r state_len)) (\<lambda>(st, r).
     if length data \<noteq> 32 + state_len_varint_bytes + state_len
     then Err TxErrCovenantTypeInvalid ''CORE_SIMPLICITY covenant_data length mismatch''
     else Ok (program_cmr, st)))))"

definition validate_core_simplicity_covenant_data :: "u64 \<Rightarrow> bytes \<Rightarrow> unit res" where
  "validate_core_simplicity_covenant_data val data =
    and_then (parse_core_simplicity_covenant_data val data) (\<lambda>_. Ok ())"

section \<open>Creation rules\<close>

definition validate_p2pk_anchor :: "TxOutput \<Rightarrow> u64 \<Rightarrow> RotationProvider \<Rightarrow> bool res" where
  "validate_p2pk_anchor out block_height rp =
    (if out_covenant_type out = COV_TYPE_P2PK then
       if out_value out = 0 then Err TxErrCovenantTypeInvalid ''CORE_P2PK value must be > 0''
       else if len64 (out_covenant_data out) \<noteq> MAX_P2PK_COVENANT_DATA
       then Err TxErrCovenantTypeInvalid ''invalid CORE_P2PK covenant_data length''
       else if out_covenant_data out ! 0 \<notin> native_create_suites rp block_height
       then Err TxErrSigAlgInvalid ''CORE_P2PK suite not in native create set''
       else Ok True
     else if out_covenant_type out = COV_TYPE_ANCHOR then
       if out_value out \<noteq> 0 then Err TxErrCovenantTypeInvalid ''CORE_ANCHOR value must be 0''
       else let cov_len = len64 (out_covenant_data out) in
       if cov_len = 0 \<or> cov_len > MAX_ANCHOR_PAYLOAD_SIZE
       then Err TxErrCovenantTypeInvalid ''invalid CORE_ANCHOR covenant_data length''
       else Ok True
     else Ok False)"

definition validate_vault_multisig_htlc :: "TxOutput \<Rightarrow> bool res" where
  "validate_vault_multisig_htlc out =
    (if out_covenant_type out = COV_TYPE_VAULT then
       if out_value out = 0 then Err TxErrVaultParamsInvalid ''CORE_VAULT value must be > 0''
       else and_then (parse_vault_covenant_data (out_covenant_data out)) (\<lambda>_. Ok True)
     else if out_covenant_type out = COV_TYPE_MULTISIG then
       if out_value out = 0 then Err TxErrCovenantTypeInvalid ''CORE_MULTISIG value must be > 0''
       else and_then (parse_multisig_covenant_data (out_covenant_data out)) (\<lambda>_. Ok True)
     else if out_covenant_type out = COV_TYPE_HTLC then
       and_then (parse_htlc_covenant_data (out_covenant_data out)) (\<lambda>_.
       if out_value out = 0 then Err TxErrCovenantTypeInvalid ''CORE_HTLC value must be > 0''
       else Ok True)
     else Ok False)"

definition validate_stealth_da :: "TxOutput \<Rightarrow> u8 \<Rightarrow> bool res" where
  "validate_stealth_da out kind =
    (if out_covenant_type out = COV_TYPE_CORE_STEALTH then
       if out_value out = 0 then Err TxErrCovenantTypeInvalid ''CORE_STEALTH value must be > 0''
       else if len64 (out_covenant_data out) > MAX_COVENANT_DATA_PER_OUTPUT
       then Err TxErrCovenantTypeInvalid
         ''CORE_STEALTH covenant_data length exceeds MAX_COVENANT_DATA_PER_OUTPUT''
       else and_then (parse_stealth_covenant_data (out_covenant_data out)) (\<lambda>_. Ok True)
     else if out_covenant_type out = COV_TYPE_DA_COMMIT then
       if kind \<noteq> 0x01 then Err TxErrCovenantTypeInvalid ''CORE_DA_COMMIT allowed only in tx_kind=0x01''
       else if out_value out \<noteq> 0 then Err TxErrCovenantTypeInvalid ''CORE_DA_COMMIT value must be 0''
       else if length (out_covenant_data out) \<noteq> 32
       then Err TxErrCovenantTypeInvalid ''invalid CORE_DA_COMMIT covenant_data length''
       else Ok True
     else Ok False)"

text \<open>\<open>data.first_chunk::<32>().copied()\<close>.\<close>

definition first_chunk_32 :: "bytes \<Rightarrow> bytes32 option" where
  "first_chunk_32 data = (if length data < 32 then None else Some (take 32 data))"

definition validate_core_simplicity_genesis_output ::
  "TxOutput \<Rightarrow> u64 \<Rightarrow> RotationProvider \<Rightarrow> bytes32 res" where
  "validate_core_simplicity_genesis_output out block_height rp =
    and_then (and_then (validate_core_simplicity_deployment_active block_height rp)
      (\<lambda>_. validate_core_simplicity_covenant_data (out_value out) (out_covenant_data out)))
      (\<lambda>_. ok_or (TxError_new TxErrCovenantTypeInvalid ''CORE_SIMPLICITY program_cmr parse failure'')
        (first_chunk_32 (out_covenant_data out)))"

text \<open>The body of the loop over the outputs, with the list of program roots seen so far.\<close>

definition genesis_output_step ::
  "u8 \<Rightarrow> u64 \<Rightarrow> RotationProvider \<Rightarrow> bytes32 list \<Rightarrow> TxOutput \<Rightarrow> bytes32 list res" where
  "genesis_output_step kind block_height rp cmrs out =
    (let ct = out_covenant_type out in
     if ct = COV_TYPE_P2PK \<or> ct = COV_TYPE_ANCHOR
     then map_ok (\<lambda>_. cmrs) (validate_p2pk_anchor out block_height rp)
     else if ct = COV_TYPE_VAULT \<or> ct = COV_TYPE_MULTISIG \<or> ct = COV_TYPE_HTLC
     then map_ok (\<lambda>_. cmrs) (validate_vault_multisig_htlc out)
     else if ct = COV_TYPE_CORE_STEALTH \<or> ct = COV_TYPE_DA_COMMIT
     then map_ok (\<lambda>_. cmrs) (validate_stealth_da out kind)
     else if ct = COV_TYPE_CORE_SIMPLICITY
     then map_ok (\<lambda>program_cmr. cmrs @ [program_cmr])
       (validate_core_simplicity_genesis_output out block_height rp)
     else if ct = COV_TYPE_RESERVED_FUTURE
     then Err TxErrCovenantTypeInvalid ''reserved covenant_type''
     else Err TxErrCovenantTypeInvalid ''unknown covenant_type'')"

definition group_cap_step :: "(bytes32 \<rightharpoonup> nat) \<Rightarrow> bytes32 \<Rightarrow> (bytes32 \<rightharpoonup> nat) res" where
  "group_cap_step groups program_cmr =
    (let count = (case groups program_cmr of None \<Rightarrow> 0 | Some c \<Rightarrow> c) + 1 in
     if count > SIMPLICITY_MAX_GROUP_OUTPUTS
     then Err TxErrCovenantTypeInvalid ''CORE_SIMPLICITY same-cmr output group exceeds limit''
     else Ok (groups(program_cmr \<mapsto> count)))"

definition validate_simplicity_output_group_cap :: "bytes32 list \<Rightarrow> unit res" where
  "validate_simplicity_output_group_cap cmrs =
    and_then (try_fold group_cap_step Map.empty cmrs) (\<lambda>_. Ok ())"

definition validate_tx_covenants_genesis :: "Tx \<Rightarrow> u64 \<Rightarrow> RotationProvider option \<Rightarrow> unit res" where
  "validate_tx_covenants_genesis tx block_height rotation =
    (let rp = (case rotation of Some rp \<Rightarrow> rp | None \<Rightarrow> DefaultRotationProvider) in
     and_then (try_fold (genesis_output_step (tx_kind tx) block_height rp) [] (outputs tx))
       validate_simplicity_output_group_cap)"

definition validate_tx_output_covenant_genesis ::
  "u8 \<Rightarrow> TxOutput \<Rightarrow> u64 \<Rightarrow> RotationProvider \<Rightarrow> bytes32 option res" where
  "validate_tx_output_covenant_genesis kind out block_height rp =
    (let tx = \<lparr>version = 1, tx_kind = kind, tx_nonce = 0, inputs = [], outputs = [out], locktime = 0,
       da_commit_core = None, da_chunk_core = None, witness = [], da_payload = []\<rparr> in
     and_then (validate_tx_covenants_genesis tx block_height (Some rp)) (\<lambda>_.
     if out_covenant_type out \<noteq> COV_TYPE_CORE_SIMPLICITY then Ok None
     else ok_or (TxError_new TxErrCovenantTypeInvalid ''CORE_SIMPLICITY program_cmr parse failure'')
       (map_option Some (first_chunk_32 (out_covenant_data out)))))"

section \<open>Sorted lists\<close>

lemma strictly_sorted_iff: "strictly_sorted_unique_32 xs \<longleftrightarrow> sorted_wrt (<) xs"
proof (induction xs rule: strictly_sorted_unique_32.induct)
  case (1 x y zs)
  then show ?case by (auto intro: order_less_trans)
qed simp_all

lemma bsearch_base_inv:
  assumes "sorted xs" and "0 < sz" and "base + sz \<le> length xs"
    and "base = 0 \<or> xs ! base \<le> t" and "\<forall>i. base + sz \<le> i \<and> i < length xs \<longrightarrow> t < xs ! i"
  shows "let b = bsearch_base xs t base sz in b < length xs \<and> (b = 0 \<or> xs ! b \<le> t) \<and>
    (\<forall>i. b < i \<and> i < length xs \<longrightarrow> t < xs ! i)"
  using assms
proof (induction xs t base sz rule: bsearch_base.induct)
  case (1 xs t base sz)
  show ?case
  proof (cases "sz > 1")
    case True
    let ?half = "sz div 2" and ?mid = "base + sz div 2"
    let ?b = "if xs ! ?mid > t then base else ?mid"
    have rec: "bsearch_base xs t base sz = bsearch_base xs t ?b (sz - ?half)"
      using True by (subst bsearch_base.simps) (simp add: Let_def)
    have mid: "?mid < length xs" using True "1.prems" by simp
    have hi: "t < xs ! i" if "xs ! ?mid > t" "?mid \<le> i" "i < length xs" for i
      using that sorted_nth_mono [of xs ?mid i] "1.prems"(1) by simp
    show ?thesis
      unfolding rec
      by (rule "1.IH" [OF True refl refl]) (use True "1.prems" hi in auto)
  next
    case False
    then have "sz = 1" using "1.prems" by simp
    then show ?thesis using "1.prems" False by (subst bsearch_base.simps) (auto simp: Let_def)
  qed
qed

lemma hash_in_sorted_iff:
  assumes "sorted xs"
  shows "hash_in_sorted_32 xs t \<longleftrightarrow> t \<in> set xs"
proof (cases "xs = []")
  case True
  then show ?thesis by (simp add: hash_in_sorted_32_def)
next
  case False
  let ?b = "bsearch_base xs t 0 (length xs)"
  have b: "?b < length xs" "?b = 0 \<or> xs ! ?b \<le> t" "\<forall>i. ?b < i \<and> i < length xs \<longrightarrow> t < xs ! i"
    using bsearch_base_inv [OF assms, of "length xs" 0 t] False unfolding Let_def by fastforce+
  have "xs ! ?b = t" if "t \<in> set xs"
  proof -
    obtain i where i: "i < length xs" "xs ! i = t" using \<open>t \<in> set xs\<close> by (auto simp: in_set_conv_nth)
    then have le: "i \<le> ?b" using b(3) by (metis leI less_irrefl)
    then have "t \<le> xs ! ?b" using sorted_nth_mono [OF assms le b(1)] i by simp
    moreover have "xs ! ?b \<le> t" using b(2) i le by auto
    ultimately show ?thesis by simp
  qed
  then show ?thesis using False nth_mem [OF b(1)] by (auto simp: hash_in_sorted_32_def)
qed

lemma hash_in_strictly_sorted:
  "strictly_sorted_unique_32 xs \<Longrightarrow> hash_in_sorted_32 xs t \<longleftrightarrow> t \<in> set xs"
  by (simp add: strictly_sorted_iff strict_sorted_iff hash_in_sorted_iff)

section \<open>Runs of 32-byte keys\<close>

lemma length_read_chunks_32 [simp]: "length (read_chunks_32 data off n) = n"
  by (induction n arbitrary: off) simp_all

lemma read_chunks_32_lengths:
  "off + 32 * n \<le> length data \<Longrightarrow> k \<in> set (read_chunks_32 data off n) \<Longrightarrow> length k = 32"
proof (induction n arbitrary: off)
  case (Suc n)
  then show ?case using Suc.IH [of "off + 32"] by auto
qed simp

lemma concat_read_chunks_32:
  "off + 32 * n \<le> length data \<Longrightarrow> concat (read_chunks_32 data off n) = slice data off (off + 32 * n)"
proof (induction n arbitrary: off)
  case 0
  then show ?case by (simp add: slice_def)
next
  case (Suc n)
  then have "concat (read_chunks_32 data (off + 32) n) = slice data (off + 32) (off + 32 * Suc n)"
    using Suc.IH [of "off + 32"] by (simp add: add.assoc)
  then show ?case by (simp add: slice_split)
qed

lemma read_chunks_32_concat:
  "\<forall>k \<in> set ks. length k = 32 \<Longrightarrow> read_chunks_32 (pre @ concat ks @ post) (length pre) (length ks) = ks"
proof (induction ks arbitrary: pre)
  case Nil
  then show ?case by simp
next
  case (Cons k ks)
  have "read_chunks_32 ((pre @ k) @ concat ks @ post) (length (pre @ k)) (length ks) = ks"
    by (rule Cons.IH) (use Cons.prems in simp)
  then show ?case using Cons.prems by (simp add: slice_def)
qed

lemma vault_read_keys_eq:
  "vault_read_keys data off n =
    (if off + 32 * n \<le> length data \<or> n = 0 then Ok (read_chunks_32 data off n, off + 32 * n)
     else Err TxErrVaultMalformed ''CORE_VAULT truncated keys'')"
  by (induction n arbitrary: off) auto

lemma length_concat_32: "\<forall>k \<in> set ks. length k = 32 \<Longrightarrow> length (concat ks) = 32 * length ks"
  by (induction ks) simp_all

section \<open>Vault data\<close>

definition vault_bytes :: "VaultCovenant \<Rightarrow> bytes" where
  "vault_bytes v = owner_lock_id v @ [v_threshold v, v_key_count v] @ concat (v_keys v) @
     to_le16 (whitelist_count v) @ concat (whitelist v)"

definition wf_vault :: "VaultCovenant \<Rightarrow> bool" where
  "wf_vault v \<longleftrightarrow> length (owner_lock_id v) = 32 \<and>
     length (v_keys v) = unat (v_key_count v) \<and> length (whitelist v) = unat (whitelist_count v) \<and>
     0 < unat (v_threshold v) \<and> unat (v_threshold v) \<le> unat (v_key_count v) \<and> unat (v_key_count v) \<le> 12 \<and>
     0 < unat (whitelist_count v) \<and> unat (whitelist_count v) \<le> 1024 \<and>
     (\<forall>k \<in> set (v_keys v) \<union> set (whitelist v). length k = 32) \<and> sorted_wrt (<) (v_keys v)"

definition canonical_whitelist :: "VaultCovenant \<Rightarrow> bool" where
  "canonical_whitelist v \<longleftrightarrow> sorted_wrt (<) (whitelist v) \<and> owner_lock_id v \<notin> set (whitelist v)"

lemma le16_pair: "to_le16 (from_le16 [a, b]) = [a, b]"
  by (rule to_from_le) simp

lemma parse_vault_sound:
  assumes "parse_vault_covenant_data_inner data strict = Ok v"
  shows "wf_vault v \<and> (strict \<longrightarrow> canonical_whitelist v) \<and> data = vault_bytes v"
proof -
  let ?kc = "unat (data ! 33)" and ?o = "34 + 32 * unat (data ! 33)"
  let ?wc = "from_le16 [data ! ?o, data ! Suc ?o]"
  from assms have len: "34 \<le> length data" "34 + 32 * ?kc \<le> length data"
    and v: "v = \<lparr>owner_lock_id = slice data 0 32, v_threshold = data ! 32, v_key_count = data ! 33,
      v_keys = read_chunks_32 data 34 ?kc, whitelist_count = ?wc,
      whitelist = read_chunks_32 data (?o + 2) (unat ?wc)\<rparr>"
    and kc: "data ! 33 \<noteq> 0" "\<not> MAX_VAULT_KEYS < data ! 33" "data ! 32 \<noteq> 0" "\<not> data ! 33 < data ! 32"
    and wc: "?wc \<noteq> 0" "\<not> MAX_VAULT_WHITELIST_ENTRIES < ?wc"
    and total: "length data = 36 + ?kc * 32 + unat ?wc * 32"
    and sorted: "strictly_sorted_unique_32 (v_keys v)"
    and strict: "strict \<Longrightarrow> strictly_sorted_unique_32 (whitelist v)"
      "strict \<Longrightarrow> \<not> hash_in_sorted_32 (whitelist v) (owner_lock_id v)"
    by (auto simp: parse_vault_covenant_data_inner_def vault_read_keys_eq Let_def unat_eq_zero split: if_splits)
  have us: "0 < ?kc" "?kc \<le> 12" "0 < unat (data ! 32)" "unat (data ! 32) \<le> ?kc"
    "0 < unat ?wc" "unat ?wc \<le> 1024"
    using kc wc by (simp_all add: word_less_nat_alt unat_gt_0)
  have keys: "\<forall>k \<in> set (v_keys v). length k = 32" "concat (v_keys v) = slice data 34 ?o"
    using len(2) by (auto simp: v concat_read_chunks_32 dest: read_chunks_32_lengths)
  have wl: "\<forall>k \<in> set (whitelist v). length k = 32" "concat (whitelist v) = slice data (?o + 2) (length data)"
    using total read_chunks_32_lengths [of "?o + 2" "unat ?wc" data]
      concat_read_chunks_32 [of "?o + 2" "unat ?wc" data]
    by (auto simp: v algebra_simps)
  have "data = slice data 0 32 @ slice data 32 34 @ slice data 34 ?o @ slice data ?o (?o + 2) @
      slice data (?o + 2) (length data)"
    using total by (simp add: slice_split) (simp add: slice_def)
  moreover have "slice data 32 34 = [data ! 32, data ! 33]" "slice data ?o (?o + 2) = [data ! ?o, data ! Suc ?o]"
    using total slice_two [of 32 data] slice_two [of ?o data] len(1) by simp_all
  ultimately have "data = vault_bytes v"
    unfolding vault_bytes_def keys(2) wl(2) by (simp add: v le16_pair)
  moreover have "wf_vault v"
    using us keys(1) wl(1) sorted len(1) by (auto simp: wf_vault_def v strictly_sorted_iff)
  moreover have "canonical_whitelist v" if strict
    using strict [OF that] by (simp add: canonical_whitelist_def hash_in_strictly_sorted strictly_sorted_iff [symmetric])
  ultimately show ?thesis by blast
qed

lemma parse_vault_complete:
  assumes "wf_vault v" and "strict \<longrightarrow> canonical_whitelist v"
  shows "parse_vault_covenant_data_inner (vault_bytes v) strict = Ok v"
proof -
  let ?d = "vault_bytes v" and ?kc = "unat (v_key_count v)" and ?wc = "unat (whitelist_count v)"
  note w = assms(1) [unfolded wf_vault_def]
  have lens: "length (concat (v_keys v)) = 32 * ?kc" "length (concat (whitelist v)) = 32 * ?wc"
    using w length_concat_32 by (metis UnCI)+
  have len: "length ?d = 36 + 32 * ?kc + 32 * ?wc" using w lens by (simp add: vault_bytes_def)
  let ?o = "34 + 32 * ?kc"
  have nth: "?d ! 32 = v_threshold v" "?d ! 33 = v_key_count v" "slice ?d 0 32 = owner_lock_id v"
    using w by (simp_all add: vault_bytes_def nth_append slice_def)
  have ks: "read_chunks_32 ?d 34 ?kc = v_keys v"
    using read_chunks_32_concat [of "v_keys v" "owner_lock_id v @ [v_threshold v, v_key_count v]"] w
    by (simp add: vault_bytes_def)
  have wl: "read_chunks_32 ?d (?o + 2) ?wc = whitelist v"
    using read_chunks_32_concat [of "whitelist v" "owner_lock_id v @ [v_threshold v, v_key_count v] @
        concat (v_keys v) @ to_le16 (whitelist_count v)" "[]"] w lens
    by (simp add: vault_bytes_def add.commute)
  have "slice ?d ?o (?o + 2) = to_le16 (whitelist_count v)"
    using w lens by (simp add: vault_bytes_def slice_def)
  moreover have "slice ?d ?o (?o + 2) = [?d ! ?o, ?d ! Suc ?o]" by (rule slice_two) (simp add: len)
  ultimately have "[?d ! ?o, ?d ! Suc ?o] = to_le16 (whitelist_count v)" by (simp only:)
  then have wc: "from_le16 [?d ! ?o, ?d ! Suc ?o] = whitelist_count v" by (simp only: from_to_le)
  have ranges: "v_key_count v \<noteq> 0" "\<not> MAX_VAULT_KEYS < v_key_count v" "v_threshold v \<noteq> 0"
    "\<not> v_key_count v < v_threshold v" "whitelist_count v \<noteq> 0"
    "\<not> MAX_VAULT_WHITELIST_ENTRIES < whitelist_count v"
    using w by (auto simp: word_less_nat_alt)
  have keys: "strictly_sorted_unique_32 (v_keys v)" using w by (simp add: strictly_sorted_iff)
  have strict: "strict \<Longrightarrow> strictly_sorted_unique_32 (whitelist v)"
    "strict \<Longrightarrow> \<not> hash_in_sorted_32 (whitelist v) (owner_lock_id v)"
    using assms(2) by (auto simp: canonical_whitelist_def strictly_sorted_iff strict_sorted_iff hash_in_sorted_iff)
  show ?thesis
    using ranges keys strict wl
    by (simp add: parse_vault_covenant_data_inner_def vault_read_keys_eq Let_def len nth ks wc [simplified])
qed

lemma parse_vault_iff:
  "parse_vault_covenant_data_inner data strict = Ok v \<longleftrightarrow>
    wf_vault v \<and> (strict \<longrightarrow> canonical_whitelist v) \<and> data = vault_bytes v"
  using parse_vault_sound parse_vault_complete by blast

section \<open>Multisig data\<close>

definition wf_multisig :: "MultisigCovenant \<Rightarrow> bool" where
  "wf_multisig m \<longleftrightarrow> length (m_keys m) = unat (m_key_count m) \<and>
     0 < unat (m_threshold m) \<and> unat (m_threshold m) \<le> unat (m_key_count m) \<and>
     unat (m_key_count m) \<le> 12 \<and> (\<forall>k \<in> set (m_keys m). length k = 32) \<and> sorted_wrt (<) (m_keys m)"

lemma parse_multisig_wf:
  assumes "parse_multisig_covenant_data data = Ok m"
  shows "wf_multisig m" "data = [m_threshold m, m_key_count m] @ concat (m_keys m)"
proof -
  let ?kc = "unat (data ! 1)"
  from assms have len: "length data = 2 + ?kc * 32"
    and m: "m = \<lparr>m_threshold = data ! 0, m_key_count = data ! 1, m_keys = read_chunks_32 data 2 ?kc\<rparr>"
    and kc: "data ! 1 \<noteq> 0" "\<not> MAX_MULTISIG_KEYS < data ! 1" "data ! 0 \<noteq> 0" "\<not> data ! 1 < data ! 0"
    and sorted: "strictly_sorted_unique_32 (m_keys m)"
    by (auto simp: parse_multisig_covenant_data_def validate_multisig_counts_def multisig_expected_len_def
        parse_multisig_keys_def Let_def split: if_splits)
  have keys: "\<forall>k \<in> set (m_keys m). length k = 32" "concat (m_keys m) = slice data 2 (length data)"
    using read_chunks_32_lengths [of 2 ?kc data] concat_read_chunks_32 [of 2 ?kc data]
    by (auto simp: m len mult.commute)
  show "wf_multisig m"
    using kc keys(1) sorted by (auto simp: wf_multisig_def m word_less_nat_alt unat_gt_0 strictly_sorted_iff)
  have "data = slice data 0 2 @ slice data 2 (length data)"
    using len by (simp add: slice_split) (simp add: slice_def)
  moreover have "slice data 0 2 = [data ! 0, data ! 1]"
    using slice_two [of 0 data] len by (simp add: numeral_2_eq_2)
  ultimately show "data = [m_threshold m, m_key_count m] @ concat (m_keys m)"
    unfolding keys(2) by (simp add: m)
qed

section \<open>Creation rules per output\<close>

lemma genesis_output_step_cmrs:
  "genesis_output_step kind h rp cmrs out = map_ok (\<lambda>l. cmrs @ l) (genesis_output_step kind h rp [] out)"
proof -
  have [simp]: "map_ok f (map_ok g m) = map_ok (\<lambda>x. f (g x)) m" for f g and m :: "'a res"
    by (cases m) simp_all
  show ?thesis by (simp add: genesis_output_step_def Let_def)
qed

lemma genesis_fold:
  "try_fold (genesis_output_step kind h rp) cmrs outs = Ok l \<longleftrightarrow>
    (\<exists>ls. list_all2 (\<lambda>out c. genesis_output_step kind h rp [] out = Ok c) outs ls \<and> l = cmrs @ concat ls)"
proof (induction outs arbitrary: cmrs)
  case Nil
  then show ?case by auto
next
  case (Cons out outs)
  have "try_fold (genesis_output_step kind h rp) cmrs (out # outs) = Ok l \<longleftrightarrow>
      (\<exists>c. genesis_output_step kind h rp [] out = Ok c \<and>
        try_fold (genesis_output_step kind h rp) (cmrs @ c) outs = Ok l)"
    by (subst try_fold.simps, subst genesis_output_step_cmrs) auto
  also have "\<dots> \<longleftrightarrow> (\<exists>c ls. genesis_output_step kind h rp [] out = Ok c \<and>
      list_all2 (\<lambda>out c. genesis_output_step kind h rp [] out = Ok c) outs ls \<and> l = cmrs @ concat (c # ls))"
    unfolding Cons.IH by auto
  also have "\<dots> \<longleftrightarrow> (\<exists>ls. list_all2 (\<lambda>out c. genesis_output_step kind h rp [] out = Ok c) (out # outs) ls \<and>
      l = cmrs @ concat ls)"
    unfolding list_all2_Cons1 by blast
  finally show ?case .
qed

lemma group_cap_fold:
  "(\<exists>g'. try_fold group_cap_step g cmrs = Ok g') \<longleftrightarrow>
   (\<forall>c \<in> set cmrs. (case g c of None \<Rightarrow> 0 | Some n \<Rightarrow> n) + count_list cmrs c \<le> SIMPLICITY_MAX_GROUP_OUTPUTS)"
proof (induction cmrs arbitrary: g)
  case Nil
  then show ?case by simp
next
  case (Cons c cs)
  let ?n = "\<lambda>g c. (case g c of None \<Rightarrow> 0 | Some n \<Rightarrow> n) :: nat"
  let ?g = "g(c \<mapsto> ?n g c + 1)"
  have "(\<forall>x \<in> set cs. ?n ?g x + count_list cs x \<le> SIMPLICITY_MAX_GROUP_OUTPUTS) \<and>
      ?n g c + 1 \<le> SIMPLICITY_MAX_GROUP_OUTPUTS \<longleftrightarrow>
      (\<forall>x \<in> set (c # cs). ?n g x + count_list (c # cs) x \<le> SIMPLICITY_MAX_GROUP_OUTPUTS)"
  proof (cases "c \<in> set cs")
    case True
    then have "0 < count_list cs c" using count_list_0_iff [of cs c] by auto
    with True show ?thesis by auto
  next
    case False
    then have "count_list cs c = 0" by (simp add: count_list_0_iff)
    with False show ?thesis by auto
  qed
  moreover have "(\<exists>g'. try_fold group_cap_step g (c # cs) = Ok g') \<longleftrightarrow>
      (\<exists>g'. try_fold group_cap_step ?g cs = Ok g') \<and> ?n g c + 1 \<le> SIMPLICITY_MAX_GROUP_OUTPUTS"
    by (auto simp: group_cap_step_def Let_def not_less)
  ultimately show ?case unfolding Cons.IH by blast
qed

lemma group_cap_iff:
  "validate_simplicity_output_group_cap cmrs = Ok () \<longleftrightarrow> (\<forall>c. count_list cmrs c \<le> 8)"
proof -
  have "validate_simplicity_output_group_cap cmrs = Ok () \<longleftrightarrow>
      (\<forall>c \<in> set cmrs. count_list cmrs c \<le> SIMPLICITY_MAX_GROUP_OUTPUTS)"
    unfolding validate_simplicity_output_group_cap_def using group_cap_fold [of Map.empty cmrs] by auto
  also have "\<dots> \<longleftrightarrow> (\<forall>c. count_list cmrs c \<le> 8)"
    unfolding SIMPLICITY_MAX_GROUP_OUTPUTS_def by (metis count_notin le0)
  finally show ?thesis .
qed

lemma simplicity_data_chunk:
  assumes "validate_core_simplicity_covenant_data val data = Ok ()"
  shows "\<exists>cmr. first_chunk_32 data = Some cmr"
proof -
  have "32 \<le> length data"
    using assms
    by (auto simp: validate_core_simplicity_covenant_data_def parse_core_simplicity_covenant_data_def Let_def)
  then show ?thesis by (simp add: first_chunk_32_def)
qed

text \<open>What one output contributes: nothing, or its program root.\<close>

lemma genesis_output_step_single:
  "genesis_output_step kind h rp [] out = Ok c \<Longrightarrow>
    c = [] \<and> out_covenant_type out \<noteq> COV_TYPE_CORE_SIMPLICITY \<or>
    (\<exists>cmr. c = [cmr] \<and> out_covenant_type out = COV_TYPE_CORE_SIMPLICITY \<and>
      first_chunk_32 (out_covenant_data out) = Some cmr)"
  by (auto simp: genesis_output_step_def Let_def validate_core_simplicity_genesis_output_def const_defs
      split: if_splits)

lemma output_genesis_iff:
  "validate_tx_output_covenant_genesis kind out h rp = Ok r \<longleftrightarrow>
    (case r of None \<Rightarrow> genesis_output_step kind h rp [] out = Ok [] 
     | Some cmr \<Rightarrow> genesis_output_step kind h rp [] out = Ok [cmr])"
proof -
  have cap: "validate_simplicity_output_group_cap [c] = Ok ()" "validate_simplicity_output_group_cap [] = Ok ()" for c
    by (simp_all add: group_cap_iff)
  show ?thesis
  proof (cases "genesis_output_step kind h rp [] out")
    case (Inl e)
    then show ?thesis
      by (auto simp: validate_tx_output_covenant_genesis_def validate_tx_covenants_genesis_def Let_def split: option.splits)
  next
    case (Inr c)
    from genesis_output_step_single [OF this] show ?thesis
      using Inr cap
      by (auto simp: validate_tx_output_covenant_genesis_def validate_tx_covenants_genesis_def Let_def split: option.splits)
  qed
qed

lemma genesis_tx_iff:
  "validate_tx_covenants_genesis tx h (Some rp) = Ok () \<longleftrightarrow>
    (\<forall>out \<in> set (outputs tx). is_ok (validate_tx_output_covenant_genesis (tx_kind tx) out h rp)) \<and>
    (\<forall>cmr. length (filter (\<lambda>out. validate_tx_output_covenant_genesis (tx_kind tx) out h rp = Ok (Some cmr))
       (outputs tx)) \<le> 8)"
proof -
  let ?step = "genesis_output_step (tx_kind tx) h rp []"
  let ?val = "\<lambda>out. validate_tx_output_covenant_genesis (tx_kind tx) out h rp"
  have ok: "is_ok (?val out) \<longleftrightarrow> is_ok (?step out)" for out
  proof
    assume "is_ok (?val out)"
    then obtain r where "?val out = Ok r" by (auto simp: is_ok_iff)
    then show "is_ok (?step out)" by (cases r) (auto simp: output_genesis_iff)
  next
    assume "is_ok (?step out)"
    then obtain c where c: "?step out = Ok c" by (auto simp: is_ok_iff)
    with genesis_output_step_single [OF c] show "is_ok (?val out)"
      by (auto simp: is_ok_iff output_genesis_iff split: option.splits)
  qed
  have count: "count_list (concat ls) cmr = length (filter (\<lambda>out. ?val out = Ok (Some cmr)) outs)"
    if "list_all2 (\<lambda>out c. ?step out = Ok c) outs ls" for outs ls cmr
    using that
  proof (induction rule: list_all2_induct)
    case Nil
    then show ?case by simp
  next
    case (Cons out outs c ls)
    then show ?case using genesis_output_step_single [OF Cons(1)] by (auto simp: output_genesis_iff split: if_splits)
  qed
  have ex: "(\<exists>ls. list_all2 (\<lambda>out c. ?step out = Ok c) outs ls) \<longleftrightarrow> (\<forall>out \<in> set outs. is_ok (?step out))" for outs
  proof (induction outs)
    case Nil
    then show ?case by simp
  next
    case (Cons out outs)
    then show ?case by (auto simp: list_all2_Cons1 is_ok_iff)
  qed
  have "validate_tx_covenants_genesis tx h (Some rp) = Ok () \<longleftrightarrow>
     (\<exists>ls. list_all2 (\<lambda>out c. ?step out = Ok c) (outputs tx) ls \<and> (\<forall>cmr. count_list (concat ls) cmr \<le> 8))"
    by (auto simp: validate_tx_covenants_genesis_def Let_def genesis_fold group_cap_iff)
  also have "\<dots> \<longleftrightarrow> (\<exists>ls. list_all2 (\<lambda>out c. ?step out = Ok c) (outputs tx) ls) \<and>
     (\<forall>cmr. length (filter (\<lambda>out. ?val out = Ok (Some cmr)) (outputs tx)) \<le> 8)"
    using count by (metis (no_types, lifting))
  finally show ?thesis unfolding ex ok .
qed

section \<open>Properties\<close>

text \<open>
  C36: the creation parser of vault data accepts exactly the layout of a well-formed
  vault (thresholds and counts in range, keys and whitelist strictly sorted 32-byte
  values, owner not whitelisted). Data accepted at creation is read as the same
  vault by the relaxed spend parser, and there the binary search in the whitelist
  decides membership.
\<close>

theorem vault_data_canonical:
  "(parse_vault_covenant_data data = Ok v \<longleftrightarrow> wf_vault v \<and> canonical_whitelist v \<and> data = vault_bytes v) \<and>
   (parse_vault_covenant_data data = Ok v \<longrightarrow>
      parse_vault_covenant_data_for_spend data = Ok v \<and>
      (\<forall>h. hash_in_sorted_32 (whitelist v) h \<longleftrightarrow> h \<in> set (whitelist v)))"
  by (auto simp: parse_vault_covenant_data_def parse_vault_covenant_data_for_spend_def parse_vault_iff
      canonical_whitelist_def strict_sorted_iff hash_in_sorted_iff)

theorem vault_data_canonical_witness:
  "let v = \<lparr>owner_lock_id = replicate 32 9, v_threshold = 1, v_key_count = 1, v_keys = [replicate 32 5],
       whitelist_count = 2, whitelist = [replicate 32 6, replicate 32 7]\<rparr> in
   parse_vault_covenant_data (vault_bytes v) = Ok v \<and> parse_vault_covenant_data_for_spend (vault_bytes v) = Ok v \<and>
   hash_in_sorted_32 (whitelist v) (replicate 32 7)"
proof -
  let ?v = "\<lparr>owner_lock_id = replicate 32 9, v_threshold = 1, v_key_count = 1, v_keys = [replicate 32 5],
       whitelist_count = 2, whitelist = [replicate 32 6, replicate 32 7]\<rparr>"
  have ne: "replicate 32 a \<noteq> (replicate 32 b :: bytes)" if "a \<noteq> b" for a b using that by simp
  have "wf_vault ?v" by (simp add: wf_vault_def)
  moreover have "(replicate 32 6 :: bytes) < replicate 32 7"
    by (rule replicate_less) (simp_all add: word_less_nat_alt)
  then have "canonical_whitelist ?v" by (simp add: canonical_whitelist_def)
  ultimately show ?thesis
    using vault_data_canonical [of "vault_bytes ?v" ?v] by (simp add: Let_def)
qed

text \<open>
  C37: a transaction passes the creation rules exactly when each of its outputs passes
  alone and no Simplicity program root occurs in more than eight of them, whatever the
  order of the outputs.
\<close>

theorem covenants_genesis_per_output:
  "validate_tx_covenants_genesis tx h (Some rp) = Ok () \<longleftrightarrow>
    (\<forall>out \<in> set (outputs tx). is_ok (validate_tx_output_covenant_genesis (tx_kind tx) out h rp)) \<and>
    (\<forall>cmr. length (filter (\<lambda>out. validate_tx_output_covenant_genesis (tx_kind tx) out h rp = Ok (Some cmr))
       (outputs tx)) \<le> 8)"
  by (rule genesis_tx_iff)

theorem covenants_genesis_per_output_witness:
  "let out = \<lparr>out_value = 0, out_covenant_type = COV_TYPE_ANCHOR, out_covenant_data = [1]\<rparr>;
       tx = \<lparr>version = 1, tx_kind = 0, tx_nonce = 1, inputs = [], outputs = [out], locktime = 0,
         da_commit_core = None, da_chunk_core = None, witness = [], da_payload = []\<rparr> in
   validate_tx_covenants_genesis tx 5 (Some DefaultRotationProvider) = Ok ()"
proof -
  let ?out = "\<lparr>out_value = 0, out_covenant_type = COV_TYPE_ANCHOR, out_covenant_data = [1]\<rparr>"
  let ?tx = "\<lparr>version = 1, tx_kind = 0, tx_nonce = 1, inputs = [], outputs = [?out], locktime = 0,
         da_commit_core = None, da_chunk_core = None, witness = [], da_payload = []\<rparr>"
  have "validate_tx_output_covenant_genesis 0 ?out 5 DefaultRotationProvider = Ok None"
    by (simp add: output_genesis_iff genesis_output_step_def validate_p2pk_anchor_def Let_def word_less_nat_alt)
  then show ?thesis
    using covenants_genesis_per_output [of ?tx 5 DefaultRotationProvider] by (simp add: Let_def)
qed

end
