(* ===== verification/Sighash.thy ===== *)
theory Sighash
  imports Tx_Codec
begin

text \<open>
  Signature hashing (\<open>sighash.rs\<close>): the digest an input signs, and the prehash
  cache shared by the inputs of one transaction. A method that updates the cache
  takes it as an argument and returns it with the result. The main results are
  that the cache is transparent, and that a digest commits to exactly the parts
  of the transaction its signature-hash type selects.
\<close>

unbundle bit_operations_syntax

section \<open>The prehash cache\<close>

record SighashV1PrehashCache =
  sc_tx :: Tx
  sc_hash_of_da_core_fields :: "bytes32 option"
  sc_hash_all_prevouts :: "bytes32 option"
  sc_hash_all_sequences :: "bytes32 option"
  sc_hash_all_outputs :: "bytes32 option"
  sc_single_outputs :: "u32 \<rightharpoonup> bytes32"

definition is_valid_sighash_type :: "u8 \<Rightarrow> bool" where
  "is_valid_sighash_type ty \<longleftrightarrow>
    ty = SIGHASH_ALL \<or> ty = SIGHASH_NONE \<or> ty = SIGHASH_SINGLE \<or>
    ty = (SIGHASH_ALL OR SIGHASH_ANYONECANPAY) \<or>
    ty = (SIGHASH_NONE OR SIGHASH_ANYONECANPAY) \<or>
    ty = (SIGHASH_SINGLE OR SIGHASH_ANYONECANPAY)"

definition SighashV1PrehashCache_new :: "Tx \<Rightarrow> SighashV1PrehashCache res" where
  "SighashV1PrehashCache_new tx = Ok \<lparr>sc_tx = tx, sc_hash_of_da_core_fields = None,
    sc_hash_all_prevouts = None, sc_hash_all_sequences = None, sc_hash_all_outputs = None,
    sc_single_outputs = Map.empty\<rparr>"

definition hash_of_da_core_fields ::
  "(bytes \<Rightarrow> bytes32) \<Rightarrow> SighashV1PrehashCache \<Rightarrow> bytes32 res \<times> SighashV1PrehashCache" where
  "hash_of_da_core_fields H c =
    (case sc_hash_of_da_core_fields c of
       Some h \<Rightarrow> (Ok h, c)
     | None \<Rightarrow>
       (case da_core_fields_bytes (sc_tx c) of
          Inl e \<Rightarrow> (Inl e, c)
        | Inr b \<Rightarrow> let h = H b in (Ok h, c\<lparr>sc_hash_of_da_core_fields := Some h\<rparr>)))"

definition prevout_bytes :: "TxInput \<Rightarrow> bytes" where
  "prevout_bytes i = prev_txid i @ to_le32 (prev_vout i)"

definition hash_all_prevouts ::
  "(bytes \<Rightarrow> bytes32) \<Rightarrow> SighashV1PrehashCache \<Rightarrow> bytes32 \<times> SighashV1PrehashCache" where
  "hash_all_prevouts H c =
    (case sc_hash_all_prevouts c of
       Some h \<Rightarrow> (h, c)
     | None \<Rightarrow> let h = H (concat (map prevout_bytes (inputs (sc_tx c)))) in
         (h, c\<lparr>sc_hash_all_prevouts := Some h\<rparr>))"

definition hash_all_sequences ::
  "(bytes \<Rightarrow> bytes32) \<Rightarrow> SighashV1PrehashCache \<Rightarrow> bytes32 \<times> SighashV1PrehashCache" where
  "hash_all_sequences H c =
    (case sc_hash_all_sequences c of
       Some h \<Rightarrow> (h, c)
     | None \<Rightarrow> let h = H (concat (map (\<lambda>i. to_le32 (sequence i)) (inputs (sc_tx c)))) in
         (h, c\<lparr>sc_hash_all_sequences := Some h\<rparr>))"

definition hash_all_outputs ::
  "(bytes \<Rightarrow> bytes32) \<Rightarrow> SighashV1PrehashCache \<Rightarrow> bytes32 \<times> SighashV1PrehashCache" where
  "hash_all_outputs H c =
    (case sc_hash_all_outputs c of
       Some h \<Rightarrow> (h, c)
     | None \<Rightarrow> let h = H (concat (map (\<lambda>out. to_le64 (out_value out) @ to_le16 (out_covenant_type out) @
           encode_compact_size (len64 (out_covenant_data out)) @ out_covenant_data out) (outputs (sc_tx c)))) in
         (h, c\<lparr>sc_hash_all_outputs := Some h\<rparr>))"

definition single_output_hash ::
  "(bytes \<Rightarrow> bytes32) \<Rightarrow> u32 \<Rightarrow> SighashV1PrehashCache \<Rightarrow> bytes32 \<times> SighashV1PrehashCache" where
  "single_output_hash H input_index c =
    (case sc_single_outputs c input_index of
       Some h \<Rightarrow> (h, c)
     | None \<Rightarrow>
       let idx = unat input_index;
           h = (if idx < length (outputs (sc_tx c))
                then let out = outputs (sc_tx c) ! idx in
                  H (to_le64 (out_value out) @ to_le16 (out_covenant_type out) @
                     encode_compact_size (len64 (out_covenant_data out)) @ out_covenant_data out)
                else H []) in
       (h, c\<lparr>sc_single_outputs := (sc_single_outputs c)(input_index \<mapsto> h)\<rparr>))"

definition sighash_v1_digest_with_cache ::
  "(bytes \<Rightarrow> bytes32) \<Rightarrow> u32 \<Rightarrow> u64 \<Rightarrow> bytes32 \<Rightarrow> u8 \<Rightarrow>
   SighashV1PrehashCache \<Rightarrow> bytes32 res \<times> SighashV1PrehashCache" where
  "sighash_v1_digest_with_cache H input_index input_value chain_id ty c =
    (let tx = sc_tx c; idx = unat input_index in
     if idx \<ge> length (inputs tx) then (Err TxErrParse ''sighash: input_index out of bounds'', c)
     else if \<not> is_valid_sighash_type ty
     then (Err TxErrSighashTypeInvalid ''sighash: invalid sighash_type'', c)
     else
     let base_type = ty AND 0x1f;
         anyone_can_pay = ((ty AND SIGHASH_ANYONECANPAY) \<noteq> 0);
         i = inputs tx ! idx;
         (hash_prevouts, c) =
           (if anyone_can_pay then (H (prev_txid i @ to_le32 (prev_vout i)), c) else hash_all_prevouts H c);
         (hash_sequences, c) =
           (if anyone_can_pay then (H (to_le32 (sequence i)), c) else hash_all_sequences H c);
         (hash_outputs, c) =
           (if base_type = SIGHASH_ALL then apfst Ok (hash_all_outputs H c)
            else if base_type = SIGHASH_NONE then (Ok (H []), c)
            else if base_type = SIGHASH_SINGLE then apfst Ok (single_output_hash H input_index c)
            else (Err TxErrSighashTypeInvalid ''sighash: invalid base_type'', c)) in
     case hash_outputs of
       Inl e \<Rightarrow> (Inl e, c)
     | Inr hash_outputs \<Rightarrow>
       (case hash_of_da_core_fields H c of
          (Inl e, c) \<Rightarrow> (Inl e, c)
        | (Inr hash_da, c) \<Rightarrow>
          (Ok (H (ascii ''RUBINv1-sighash/'' @ chain_id @ to_le32 (version tx) @ [tx_kind tx] @
             to_le64 (tx_nonce tx) @ hash_da @ hash_prevouts @ hash_sequences @ to_le32 input_index @
             prev_txid i @ to_le32 (prev_vout i) @ to_le64 input_value @ to_le32 (sequence i) @
             hash_outputs @ to_le32 (locktime tx) @ [ty])), c)))"

definition sighash_v1_digest_with_type ::
  "(bytes \<Rightarrow> bytes32) \<Rightarrow> Tx \<Rightarrow> u32 \<Rightarrow> u64 \<Rightarrow> bytes32 \<Rightarrow> u8 \<Rightarrow> bytes32 res" where
  "sighash_v1_digest_with_type H tx input_index input_value chain_id ty =
    and_then (SighashV1PrehashCache_new tx) (\<lambda>cache.
      fst (sighash_v1_digest_with_cache H input_index input_value chain_id ty cache))"

definition sighash_v1_digest ::
  "(bytes \<Rightarrow> bytes32) \<Rightarrow> Tx \<Rightarrow> u32 \<Rightarrow> u64 \<Rightarrow> bytes32 \<Rightarrow> bytes32 res" where
  "sighash_v1_digest H tx input_index input_value chain_id =
    sighash_v1_digest_with_type H tx input_index input_value chain_id SIGHASH_ALL"

section \<open>The digest without a cache\<close>

definition sh_prevouts :: "Tx \<Rightarrow> u32 \<Rightarrow> u8 \<Rightarrow> bytes" where
  "sh_prevouts tx i ty =
    (if (ty AND SIGHASH_ANYONECANPAY) \<noteq> 0 then prevout_bytes (inputs tx ! unat i)
     else concat (map prevout_bytes (inputs tx)))"

definition sh_sequences :: "Tx \<Rightarrow> u32 \<Rightarrow> u8 \<Rightarrow> bytes" where
  "sh_sequences tx i ty =
    (if (ty AND SIGHASH_ANYONECANPAY) \<noteq> 0 then to_le32 (sequence (inputs tx ! unat i))
     else concat (map (\<lambda>i. to_le32 (sequence i)) (inputs tx)))"

definition sh_single :: "Tx \<Rightarrow> u32 \<Rightarrow> bytes" where
  "sh_single tx i = (if unat i < length (outputs tx) then marshal_output (outputs tx ! unat i) else [])"

definition sh_outputs :: "Tx \<Rightarrow> u32 \<Rightarrow> u8 \<Rightarrow> bytes" where
  "sh_outputs tx i ty =
    (if (ty AND 0x1f) = SIGHASH_ALL then concat (map marshal_output (outputs tx))
     else if (ty AND 0x1f) = SIGHASH_SINGLE then sh_single tx i else [])"

definition sh_preimage ::
  "(bytes \<Rightarrow> bytes32) \<Rightarrow> Tx \<Rightarrow> u32 \<Rightarrow> u64 \<Rightarrow> bytes32 \<Rightarrow> u8 \<Rightarrow> bytes \<Rightarrow> bytes" where
  "sh_preimage H tx i val chain_id ty da =
    ascii ''RUBINv1-sighash/'' @ chain_id @ to_le32 (version tx) @ [tx_kind tx] @ to_le64 (tx_nonce tx) @
    H da @ H (sh_prevouts tx i ty) @ H (sh_sequences tx i ty) @ to_le32 i @
    prev_txid (inputs tx ! unat i) @ to_le32 (prev_vout (inputs tx ! unat i)) @ to_le64 val @
    to_le32 (sequence (inputs tx ! unat i)) @ H (sh_outputs tx i ty) @ to_le32 (locktime tx) @ [ty]"

definition sighash_spec ::
  "(bytes \<Rightarrow> bytes32) \<Rightarrow> Tx \<Rightarrow> u32 \<Rightarrow> u64 \<Rightarrow> bytes32 \<Rightarrow> u8 \<Rightarrow> bytes32 res" where
  "sighash_spec H tx i val chain_id ty =
    (if unat i \<ge> length (inputs tx) then Err TxErrParse ''sighash: input_index out of bounds''
     else if \<not> is_valid_sighash_type ty then Err TxErrSighashTypeInvalid ''sighash: invalid sighash_type''
     else and_then (da_core_fields_bytes tx) (\<lambda>da. Ok (H (sh_preimage H tx i val chain_id ty da))))"

definition cache_ok :: "(bytes \<Rightarrow> bytes32) \<Rightarrow> SighashV1PrehashCache \<Rightarrow> bool" where
  "cache_ok H c \<longleftrightarrow>
    (\<forall>h. sc_hash_of_da_core_fields c = Some h \<longrightarrow>
       (\<exists>b. da_core_fields_bytes (sc_tx c) = Ok b \<and> h = H b)) \<and>
    (\<forall>h. sc_hash_all_prevouts c = Some h \<longrightarrow> h = H (concat (map prevout_bytes (inputs (sc_tx c))))) \<and>
    (\<forall>h. sc_hash_all_sequences c = Some h \<longrightarrow>
       h = H (concat (map (\<lambda>i. to_le32 (sequence i)) (inputs (sc_tx c))))) \<and>
    (\<forall>h. sc_hash_all_outputs c = Some h \<longrightarrow> h = H (concat (map marshal_output (outputs (sc_tx c))))) \<and>
    (\<forall>i h. sc_single_outputs c i = Some h \<longrightarrow> h = H (sh_single (sc_tx c) i))"

lemma cache_ok_new: "SighashV1PrehashCache_new tx = Ok c \<Longrightarrow> cache_ok H c \<and> sc_tx c = tx"
  by (auto simp: SighashV1PrehashCache_new_def cache_ok_def)

lemma hash_all_prevouts_ok:
  assumes "cache_ok H c" and "hash_all_prevouts H c = (h, c')"
  shows "h = H (concat (map prevout_bytes (inputs (sc_tx c)))) \<and> cache_ok H c' \<and> sc_tx c' = sc_tx c"
  using assms by (auto simp: hash_all_prevouts_def cache_ok_def Let_def split: option.splits)

lemma hash_all_sequences_ok:
  assumes "cache_ok H c" and "hash_all_sequences H c = (h, c')"
  shows "h = H (concat (map (\<lambda>i. to_le32 (sequence i)) (inputs (sc_tx c)))) \<and> cache_ok H c' \<and> sc_tx c' = sc_tx c"
  using assms by (auto simp: hash_all_sequences_def cache_ok_def Let_def split: option.splits)

lemma hash_all_outputs_ok:
  assumes "cache_ok H c" and "hash_all_outputs H c = (h, c')"
  shows "h = H (concat (map marshal_output (outputs (sc_tx c)))) \<and> cache_ok H c' \<and> sc_tx c' = sc_tx c"
  using assms
  by (auto simp: hash_all_outputs_def cache_ok_def Let_def marshal_output_def [abs_def] split: option.splits)

lemma single_output_hash_ok:
  assumes "cache_ok H c" and "single_output_hash H i c = (h, c')"
  shows "h = H (sh_single (sc_tx c) i) \<and> cache_ok H c' \<and> sc_tx c' = sc_tx c"
proof (cases "sc_single_outputs c i")
  case None
  then have "single_output_hash H i c = (H (sh_single (sc_tx c) i),
      c\<lparr>sc_single_outputs := (sc_single_outputs c)(i \<mapsto> H (sh_single (sc_tx c) i))\<rparr>)"
    by (simp add: single_output_hash_def sh_single_def marshal_output_def Let_def)
  with assms show ?thesis by (auto simp: cache_ok_def split: if_splits)
qed (use assms in \<open>auto simp: single_output_hash_def cache_ok_def\<close>)

lemma hash_of_da_core_fields_ok:
  assumes "cache_ok H c" and "hash_of_da_core_fields H c = (r, c')"
  shows "r = and_then (da_core_fields_bytes (sc_tx c)) (\<lambda>b. Ok (H b)) \<and> cache_ok H c' \<and> sc_tx c' = sc_tx c"
  using assms
  by (cases "da_core_fields_bytes (sc_tx c)")
    (auto simp: hash_of_da_core_fields_def cache_ok_def Let_def and_then_def split: option.splits sum.splits)

lemma base_type_neq:
  "SIGHASH_ALL \<noteq> SIGHASH_NONE" "SIGHASH_ALL \<noteq> SIGHASH_SINGLE" "SIGHASH_NONE \<noteq> SIGHASH_SINGLE"
  by (simp_all add: const_defs)

lemma valid_base_type:
  "is_valid_sighash_type ty \<Longrightarrow> (ty AND 0x1f) \<in> {SIGHASH_ALL, SIGHASH_NONE, SIGHASH_SINGLE}"
  by (auto simp: is_valid_sighash_type_def const_defs)

lemma outputs_hash_ok:
  assumes 3: "(if (ty AND 0x1f) = SIGHASH_ALL then apfst Ok (hash_all_outputs H c2)
      else if (ty AND 0x1f) = SIGHASH_NONE then (Ok (H []), c2)
      else if (ty AND 0x1f) = SIGHASH_SINGLE then apfst Ok (single_output_hash H i c2)
      else (Err TxErrSighashTypeInvalid ''sighash: invalid base_type'', c2)) = (ho, c3)"
    and A2: "cache_ok H c2" and "is_valid_sighash_type ty"
  shows "ho = Ok (H (sh_outputs (sc_tx c2) i ty)) \<and> cache_ok H c3 \<and> sc_tx c3 = sc_tx c2"
proof -
  have "ty AND 0x1f = SIGHASH_ALL \<or> ty AND 0x1f = SIGHASH_NONE \<or> ty AND 0x1f = SIGHASH_SINGLE"
    using assms(3) valid_base_type [of ty] by blast
  then show ?thesis
  proof (elim disjE)
    assume ty: "ty AND 0x1f = SIGHASH_ALL"
    obtain h where "hash_all_outputs H c2 = (h, c3)" "ho = Ok h"
      using 3 unfolding ty by (cases "hash_all_outputs H c2") simp
    then show ?thesis using hash_all_outputs_ok [of H c2 h c3] A2 by (simp add: sh_outputs_def ty)
  next
    assume ty: "ty AND 0x1f = SIGHASH_NONE"
    then show ?thesis using 3 A2 by (simp add: sh_outputs_def ty base_type_neq base_type_neq [symmetric])
  next
    assume ty: "ty AND 0x1f = SIGHASH_SINGLE"
    obtain h where "single_output_hash H i c2 = (h, c3)" "ho = Ok h"
      using 3 unfolding ty by (cases "single_output_hash H i c2") (simp add: base_type_neq [symmetric])
    then show ?thesis using single_output_hash_ok [of H c2 i h c3] A2
      by (simp add: sh_outputs_def ty base_type_neq [symmetric])
  qed
qed

lemma digest_with_cache_ok:
  assumes "cache_ok H c" and "sighash_v1_digest_with_cache H i val chain_id ty c = (r, c')"
  shows "r = sighash_spec H (sc_tx c) i val chain_id ty \<and> cache_ok H c' \<and> sc_tx c' = sc_tx c"
proof (cases "unat i \<ge> length (inputs (sc_tx c)) \<or> \<not> is_valid_sighash_type ty")
  case True
  with assms show ?thesis
    by (auto simp: sighash_v1_digest_with_cache_def sighash_spec_def Let_def split: if_splits)
next
  case False
  let ?i = "inputs (sc_tx c) ! unat i"
  obtain hp c1 where 1: "(if (ty AND SIGHASH_ANYONECANPAY) \<noteq> 0
      then (H (prev_txid ?i @ to_le32 (prev_vout ?i)), c) else hash_all_prevouts H c) = (hp, c1)"
    by (rule prod.exhaust)
  obtain hs c2 where 2: "(if (ty AND SIGHASH_ANYONECANPAY) \<noteq> 0
      then (H (to_le32 (sequence ?i)), c1) else hash_all_sequences H c1) = (hs, c2)"
    by (rule prod.exhaust)
  obtain ho c3 where 3: "(if (ty AND 0x1f) = SIGHASH_ALL then apfst Ok (hash_all_outputs H c2)
      else if (ty AND 0x1f) = SIGHASH_NONE then (Ok (H []), c2)
      else if (ty AND 0x1f) = SIGHASH_SINGLE then apfst Ok (single_output_hash H i c2)
      else (Err TxErrSighashTypeInvalid ''sighash: invalid base_type'', c2)) = (ho, c3)"
    by (rule prod.exhaust)
  obtain rd c4 where 4: "hash_of_da_core_fields H c3 = (rd, c4)" by (rule prod.exhaust)
  have F: "(unat i \<ge> length (inputs (sc_tx c))) = False" "is_valid_sighash_type ty = True"
    using False by simp_all
  have A1: "hp = H (sh_prevouts (sc_tx c) i ty) \<and> cache_ok H c1 \<and> sc_tx c1 = sc_tx c"
    using 1 assms(1) hash_all_prevouts_ok [of H c hp c1]
    by (auto simp: sh_prevouts_def prevout_bytes_def split: if_splits)
  have A2: "hs = H (sh_sequences (sc_tx c) i ty) \<and> cache_ok H c2 \<and> sc_tx c2 = sc_tx c"
    using 2 A1 hash_all_sequences_ok [of H c1 hs c2] by (auto simp: sh_sequences_def split: if_splits)
  have A3: "ho = Ok (H (sh_outputs (sc_tx c) i ty)) \<and> cache_ok H c3 \<and> sc_tx c3 = sc_tx c"
    using outputs_hash_ok [OF 3] A2 F(2) by simp
  have A4: "rd = and_then (da_core_fields_bytes (sc_tx c)) (\<lambda>b. Ok (H b)) \<and> cache_ok H c4 \<and> sc_tx c4 = sc_tx c"
    using hash_of_da_core_fields_ok [OF _ 4] A3 by simp
  have D: "(r, c') = (case rd of Inl e \<Rightarrow> (Inl e, c4) | Inr x \<Rightarrow>
      (Ok (H (ascii ''RUBINv1-sighash/'' @ chain_id @ to_le32 (version (sc_tx c)) @ [tx_kind (sc_tx c)] @
             to_le64 (tx_nonce (sc_tx c)) @ x @ hp @ hs @ to_le32 i @
             prev_txid ?i @ to_le32 (prev_vout ?i) @ to_le64 val @ to_le32 (sequence ?i) @
             H (sh_outputs (sc_tx c) i ty) @ to_le32 (locktime (sc_tx c)) @ [ty])), c4))"
    unfolding assms(2) [symmetric]
    by (simp only: sighash_v1_digest_with_cache_def Let_def F if_False not_True_eq_False 1 2 3 4
        prod.case A3 sum.case)
  show ?thesis
  proof (cases "da_core_fields_bytes (sc_tx c)")
    case (Inl e)
    then have "rd = Inl e" using A4 by simp
    with D A4 Inl F show ?thesis by (simp add: sighash_spec_def)
  next
    case (Inr b)
    then have "rd = Inr (H b)" using A4 by simp
    with D A1 A2 A4 Inr F show ?thesis by (simp add: sighash_spec_def sh_preimage_def)
  qed
qed


section \<open>Results\<close>

fun digest_requests ::
  "(bytes \<Rightarrow> bytes32) \<Rightarrow> (u32 \<times> u64 \<times> bytes32 \<times> u8) list \<Rightarrow> SighashV1PrehashCache \<Rightarrow> bytes32 res list" where
  "digest_requests H [] c = []"
| "digest_requests H ((i, val, chain_id, ty) # reqs) c =
    (let (r, c') = sighash_v1_digest_with_cache H i val chain_id ty c in r # digest_requests H reqs c')"

lemma digest_with_type_spec: "sighash_v1_digest_with_type H tx i val chain_id ty = sighash_spec H tx i val chain_id ty"
proof -
  obtain c where c: "SighashV1PrehashCache_new tx = Ok c" by (simp add: SighashV1PrehashCache_new_def)
  obtain r c' where "sighash_v1_digest_with_cache H i val chain_id ty c = (r, c')" by (rule prod.exhaust)
  with digest_with_cache_ok [OF _ this] cache_ok_new [OF c] show ?thesis
    by (simp add: sighash_v1_digest_with_type_def c)
qed

lemma digest_requests_ok:
  "cache_ok H c \<Longrightarrow> digest_requests H reqs c =
    map (\<lambda>(i, val, chain_id, ty). sighash_spec H (sc_tx c) i val chain_id ty) reqs"
proof (induction H reqs c rule: digest_requests.induct)
  case (2 H i val chain_id ty reqs c)
  obtain r c' where rc: "sighash_v1_digest_with_cache H i val chain_id ty c = (r, c')" by (rule prod.exhaust)
  show ?case using digest_with_cache_ok [OF "2.prems" rc] "2.IH" [OF rc [symmetric] refl] by (simp add: rc)
qed simp

text \<open>
  C38: the prehash cache is transparent. Any sequence of digest requests served from
  one cache, in any order and with any mix of inputs and signature-hash types, gives
  each request exactly the digest (or the error) a fresh computation gives it.
\<close>

theorem sighash_cache_transparent:
  "map_ok (digest_requests H reqs) (SighashV1PrehashCache_new tx) =
    Ok (map (\<lambda>(i, val, chain_id, ty). sighash_v1_digest_with_type H tx i val chain_id ty) reqs)"
  using cache_ok_new [of tx _ H] digest_requests_ok [of H _ reqs]
  by (auto simp: SighashV1PrehashCache_new_def digest_with_type_spec)


subsection \<open>What a digest commits to\<close>

definition sh_da :: "Tx \<Rightarrow> bytes" where
  "sh_da tx = (case da_core_fields_bytes tx of Inl _ \<Rightarrow> [] | Inr b \<Rightarrow> b)"

definition sh_hashed ::
  "(bytes \<Rightarrow> bytes32) \<Rightarrow> Tx \<Rightarrow> u32 \<Rightarrow> u64 \<Rightarrow> bytes32 \<Rightarrow> u8 \<Rightarrow> bytes set" where
  "sh_hashed H tx i val chain_id ty =
    {sh_prevouts tx i ty, sh_sequences tx i ty, sh_outputs tx i ty, sh_da tx,
     sh_preimage H tx i val chain_id ty (sh_da tx)}"

lemma concat_map_fixed_inject:
  assumes "\<And>x. x \<in> set xs \<union> set ys \<Longrightarrow> length (f x) = n" and "0 < n"
    and "concat (map f xs) = concat (map f ys)"
  shows "map f xs = map f ys"
  using assms
proof (induction xs arbitrary: ys)
  case Nil
  then show ?case by (cases ys) auto
next
  case (Cons x xs)
  obtain y ys' where ys: "ys = y # ys'"
    using Cons.prems(1) [of x] Cons.prems(2,3) by (cases ys) auto
  have "f x = f y \<and> concat (map f xs) = concat (map f ys')"
    using Cons.prems(1) [of x] Cons.prems(1) [of y] Cons.prems(3) ys by simp
  with Cons.IH [of ys'] Cons.prems(1,2) ys show ?case by auto
qed

lemma sh_da_inject:
  assumes "wf_tx t1" and "wf_tx t2" and "tx_kind t1 = tx_kind t2" and "sh_da t1 = sh_da t2"
  shows "da_commit_core t1 = da_commit_core t2 \<and> da_chunk_core t1 = da_chunk_core t2"
proof -
  have c: "c1 = c2" if "wf_da_commit c1" "wf_da_commit c2" "da_commit_core_bytes c1 = da_commit_core_bytes c2" for c1 c2
    using that da_commit.prefix_free [of c1 c2 "[]" "[]"] da_core_bytes_bound(1) [of c1] by (simp add: usize_max_def)
  have k: "c1 = c2" if "wf_da_chunk c1" "wf_da_chunk c2" "da_chunk_core_bytes c1 = da_chunk_core_bytes c2" for c1 c2
    using that da_chunk.prefix_free [of c1 c2 "[]" "[]"] da_core_bytes_bound(2) [of c1] by (simp add: usize_max_def)
  show ?thesis using assms c k
    by (auto simp: wf_tx_def wf_core_def sh_da_def da_core_fields_bytes_def)
qed

lemma sh_outputs_inject:
  assumes "list_all wf_output o1" and "list_all wf_output o2" and "length o1 \<le> 1024"
    and "concat (map marshal_output o1) = concat (map marshal_output o2)"
  shows "o1 = o2"
proof (rule tx_output.concat_inject [OF assms(1,2,4)])
  show "length (concat (map marshal_output o1)) \<le> usize_max"
    using marshal_outputs_bound [OF assms(1)] assms(3) by (simp add: usize_max_def)
qed (simp add: marshal_output_def flip: length_0_conv)


lemma sh_preimage_inject:
  assumes "\<And>x. length (H x) = 32" and "length c1 = 32" and "length c2 = 32"
    and "unat i1 < length (inputs t1)" and "unat i2 < length (inputs t2)"
    and "list_all wf_input (inputs t1)" and "list_all wf_input (inputs t2)"
    and "sh_preimage H t1 i1 v1 c1 ty1 d1 = sh_preimage H t2 i2 v2 c2 ty2 d2"
  shows "c1 = c2 \<and> version t1 = version t2 \<and> tx_kind t1 = tx_kind t2 \<and> tx_nonce t1 = tx_nonce t2 \<and>
    H d1 = H d2 \<and> H (sh_prevouts t1 i1 ty1) = H (sh_prevouts t2 i2 ty2) \<and>
    H (sh_sequences t1 i1 ty1) = H (sh_sequences t2 i2 ty2) \<and> i1 = i2 \<and>
    prev_txid (inputs t1 ! unat i1) = prev_txid (inputs t2 ! unat i2) \<and>
    prev_vout (inputs t1 ! unat i1) = prev_vout (inputs t2 ! unat i2) \<and> v1 = v2 \<and>
    sequence (inputs t1 ! unat i1) = sequence (inputs t2 ! unat i2) \<and>
    H (sh_outputs t1 i1 ty1) = H (sh_outputs t2 i2 ty2) \<and> locktime t1 = locktime t2 \<and> ty1 = ty2"
proof -
  have "length (prev_txid (inputs t1 ! unat i1)) = 32" "length (prev_txid (inputs t2 ! unat i2)) = 32"
    using assms(4-7) by (auto simp: list_all_length wf_input_def)
  with assms(8) show ?thesis unfolding sh_preimage_def by (auto simp: assms(1-3))
qed


lemma prevouts_inject:
  assumes "list_all wf_input ins1" and "list_all wf_input ins2"
    and "concat (map prevout_bytes ins1) = concat (map prevout_bytes ins2)"
  shows "map (\<lambda>i. (prev_txid i, prev_vout i)) ins1 = map (\<lambda>i. (prev_txid i, prev_vout i)) ins2"
proof -
  have l: "length (prevout_bytes i) = 36" if "i \<in> set ins1 \<union> set ins2" for i
    using that assms(1,2) by (auto simp: prevout_bytes_def list_all_iff wf_input_def)
  have "map prevout_bytes ins1 = map prevout_bytes ins2"
    by (rule concat_map_fixed_inject [OF l _ assms(3)]) simp_all
  then have "list_all2 (\<lambda>i j. prevout_bytes i = prevout_bytes j) ins1 ins2"
    by (simp add: list_all2_conv_all_nth list_eq_iff_nth_eq)
  then have "list_all2 (\<lambda>i j. (prev_txid i, prev_vout i) = (prev_txid j, prev_vout j)) ins1 ins2"
    using assms(1,2) by (auto simp: prevout_bytes_def list_all2_conv_all_nth list_all_length wf_input_def)
  then show ?thesis by (simp add: list_all2_conv_all_nth list_eq_iff_nth_eq)
qed

lemma sequences_inject:
  fixes ins1 ins2 :: "TxInput list"
  assumes "concat (map (\<lambda>i. to_le32 (sequence i)) ins1) = concat (map (\<lambda>i. to_le32 (sequence i)) ins2)"
  shows "map sequence ins1 = map sequence ins2"
proof -
  have "map (\<lambda>i. to_le32 (sequence i)) ins1 = map (\<lambda>i. to_le32 (sequence i)) ins2"
    by (rule concat_map_fixed_inject [where n = 4, OF _ _ assms]) simp_all
  then have "map to_le32 (map sequence ins1) = map to_le32 (map sequence ins2)" by (simp add: comp_def)
  moreover have "inj to_le32" by (simp add: inj_def)
  ultimately show ?thesis by (simp only: inj_map_eq_map)
qed

text \<open>
  C17: a digest commits to what its signature-hash type selects. When two inputs of two
  well-formed transactions have the same digest, and the hash does not collide on the
  strings hashed for them, then chain, type byte, input position, spent outpoint,
  value, sequence, version, kind, nonce, lock time and data-availability core agree;
  without \<open>ANYONECANPAY\<close> all outpoints and sequences agree; with base type \<open>ALL\<close> all
  outputs agree, and with \<open>SINGLE\<close> the output at the input's position.
\<close>

theorem sighash_commits:
  assumes "\<And>x. length (H x) = 32" and "wf_tx t1" and "wf_tx t2" and "length c1 = 32" and "length c2 = 32"
    and "sighash_v1_digest_with_type H t1 i1 v1 c1 ty1 = Ok d"
    and "sighash_v1_digest_with_type H t2 i2 v2 c2 ty2 = Ok d"
    and "inj_on H (sh_hashed H t1 i1 v1 c1 ty1 \<union> sh_hashed H t2 i2 v2 c2 ty2)"
  shows "c1 = c2 \<and> ty1 = ty2 \<and> i1 = i2 \<and> v1 = v2 \<and>
    (version t1, tx_kind t1, tx_nonce t1, locktime t1, da_commit_core t1, da_chunk_core t1) =
    (version t2, tx_kind t2, tx_nonce t2, locktime t2, da_commit_core t2, da_chunk_core t2) \<and>
    (let a = inputs t1 ! unat i1; b = inputs t2 ! unat i1 in
       (prev_txid a, prev_vout a, sequence a) = (prev_txid b, prev_vout b, sequence b)) \<and>
    (ty1 AND SIGHASH_ANYONECANPAY = 0 \<longrightarrow>
       map (\<lambda>i. (prev_txid i, prev_vout i)) (inputs t1) = map (\<lambda>i. (prev_txid i, prev_vout i)) (inputs t2) \<and>
       map sequence (inputs t1) = map sequence (inputs t2)) \<and>
    (ty1 AND 0x1f = SIGHASH_ALL \<longrightarrow> outputs t1 = outputs t2) \<and>
    (ty1 AND 0x1f = SIGHASH_SINGLE \<longrightarrow> sh_single t1 i1 = sh_single t2 i1)"
proof -
  have w: "list_all wf_input (inputs t1)" "list_all wf_input (inputs t2)"
      "list_all wf_output (outputs t1)" "list_all wf_output (outputs t2)" "length (outputs t1) \<le> 1024"
    using assms(2,3) by (simp_all add: wf_tx_def wf_core_def)
  have b: "unat i1 < length (inputs t1)" "unat i2 < length (inputs t2)"
    and d: "d = H (sh_preimage H t1 i1 v1 c1 ty1 (sh_da t1))" "d = H (sh_preimage H t2 i2 v2 c2 ty2 (sh_da t2))"
    using assms(6,7) by (auto simp: digest_with_type_spec sighash_spec_def sh_da_def)
  have inj: "x = y" if "H x = H y" "x \<in> sh_hashed H t1 i1 v1 c1 ty1" "y \<in> sh_hashed H t2 i2 v2 c2 ty2" for x y
    using inj_onD [OF assms(8) that(1)] that(2,3) by blast
  have "sh_preimage H t1 i1 v1 c1 ty1 (sh_da t1) = sh_preimage H t2 i2 v2 c2 ty2 (sh_da t2)"
    by (rule inj) (use d in \<open>simp_all add: sh_hashed_def\<close>)
  note P = sh_preimage_inject [OF assms(1,4,5) b w(1,2) this]
  then have Q: "i1 = i2" "ty1 = ty2" "H (sh_da t1) = H (sh_da t2)"
      "H (sh_prevouts t1 i1 ty1) = H (sh_prevouts t2 i2 ty2)"
      "H (sh_sequences t1 i1 ty1) = H (sh_sequences t2 i2 ty2)"
      "H (sh_outputs t1 i1 ty1) = H (sh_outputs t2 i2 ty2)" by blast+
  have E: "sh_da t1 = sh_da t2" "sh_prevouts t1 i1 ty1 = sh_prevouts t2 i1 ty1"
      "sh_sequences t1 i1 ty1 = sh_sequences t2 i1 ty1" "sh_outputs t1 i1 ty1 = sh_outputs t2 i1 ty1"
    using Q inj [of "sh_da t1" "sh_da t2"] inj [of "sh_prevouts t1 i1 ty1" "sh_prevouts t2 i2 ty2"]
      inj [of "sh_sequences t1 i1 ty1" "sh_sequences t2 i2 ty2"] inj [of "sh_outputs t1 i1 ty1" "sh_outputs t2 i2 ty2"]
    by (simp_all add: sh_hashed_def)
  have "da_commit_core t1 = da_commit_core t2 \<and> da_chunk_core t1 = da_chunk_core t2"
    by (rule sh_da_inject [OF assms(2,3)]) (use P E in simp_all)
  moreover have "ty1 AND SIGHASH_ANYONECANPAY = 0 \<longrightarrow>
       map (\<lambda>i. (prev_txid i, prev_vout i)) (inputs t1) = map (\<lambda>i. (prev_txid i, prev_vout i)) (inputs t2) \<and>
       map sequence (inputs t1) = map sequence (inputs t2)"
    using E prevouts_inject [OF w(1,2)] sequences_inject [of "inputs t1" "inputs t2"]
    by (auto simp: sh_prevouts_def sh_sequences_def)
  moreover have "ty1 AND 0x1f = SIGHASH_ALL \<longrightarrow> outputs t1 = outputs t2"
    using E(4) sh_outputs_inject [OF w(3-5)] by (auto simp: sh_outputs_def)
  moreover have "ty1 AND 0x1f = SIGHASH_SINGLE \<longrightarrow> sh_single t1 i1 = sh_single t2 i1"
    using E(4) by (auto simp: sh_outputs_def base_type_neq base_type_neq [symmetric])
  ultimately show ?thesis using P unfolding Let_def by blast
qed


theorem sighash_commits_witness:
  "(let H = \<lambda>x. of_nat (length x) # replicate 31 0;
        t = \<lambda>ws. \<lparr>version = 1, tx_kind = 0, tx_nonce = 7,
          inputs = [\<lparr>prev_txid = replicate 32 5, prev_vout = 1, script_sig = [], sequence = 9\<rparr>],
          outputs = [], locktime = 0, da_commit_core = None, da_chunk_core = None, witness = ws, da_payload = []\<rparr>;
        t1 = t []; t2 = t [\<lparr>suite_id = 0, pubkey = [], signature = []\<rparr>] in
    (\<exists>d. sighash_v1_digest_with_type H t1 0 50 (replicate 32 3) 1 = Ok d \<and>
      sighash_v1_digest_with_type H t2 0 50 (replicate 32 3) 1 = Ok d) \<and>
    t1 \<noteq> t2 \<and> outputs t1 = outputs t2 \<and> map sequence (inputs t1) = map sequence (inputs t2))"
proof -
  let ?H = "\<lambda>x :: bytes. (of_nat (length x) :: u8) # replicate 31 0"
  let ?t = "\<lambda>ws. \<lparr>version = 1, tx_kind = 0, tx_nonce = 7,
          inputs = [\<lparr>prev_txid = replicate 32 5, prev_vout = 1, script_sig = [], sequence = 9\<rparr>],
          outputs = [], locktime = 0, da_commit_core = None, da_chunk_core = None, witness = ws, da_payload = []\<rparr>"
  let ?w = "[\<lparr>suite_id = 0, pubkey = [], signature = []\<rparr>]"
  let ?c = "replicate 32 3 :: bytes"
  have w: "wf_tx (?t [])" "wf_tx (?t ?w)"
    by (simp_all add: wf_tx_def wf_core_def wf_input_def wf_payload_def wf_witnesses_def wf_witness_item_def
        sentinel_shape_def marshal_witness_item_def length_encode_compact_size const_defs)
  have d: "sighash_v1_digest_with_type ?H (?t ws) 0 50 ?c 1 = Ok (246 # replicate 31 0)" for ws
    by (simp add: digest_with_type_spec sighash_spec_def is_valid_sighash_type_def SIGHASH_ALL_def
        da_core_fields_bytes_def sh_preimage_def)
  have s: "sh_hashed ?H (?t ws) 0 50 ?c 1 = sh_hashed ?H (?t []) 0 50 ?c 1" for ws
    by (simp add: sh_hashed_def sh_prevouts_def sh_sequences_def sh_outputs_def sh_da_def sh_preimage_def
        da_core_fields_bytes_def sh_single_def)
  have l: "x = y" if "length x = length y"
      "x \<in> sh_hashed ?H (?t []) 0 50 ?c 1" "y \<in> sh_hashed ?H (?t []) 0 50 ?c 1" for x y
    using that by (auto simp: sh_hashed_def sh_prevouts_def sh_sequences_def sh_outputs_def sh_da_def
        sh_preimage_def da_core_fields_bytes_def sh_single_def prevout_bytes_def const_defs)
  have b: "length x < 256" if "x \<in> sh_hashed ?H (?t []) 0 50 ?c 1" for x
    using that by (auto simp: sh_hashed_def sh_prevouts_def sh_sequences_def sh_outputs_def sh_da_def
        sh_preimage_def da_core_fields_bytes_def sh_single_def prevout_bytes_def const_defs)
  have inj: "inj_on ?H (sh_hashed ?H (?t []) 0 50 ?c 1)"
  proof (rule inj_onI)
    fix x y assume xy: "x \<in> sh_hashed ?H (?t []) 0 50 ?c 1" "y \<in> sh_hashed ?H (?t []) 0 50 ?c 1" "?H x = ?H y"
    then have "(of_nat (length x) :: u8) = of_nat (length y)" by simp
    then have "length x = length y" using b [OF xy(1)] b [OF xy(2)] by (simp add: word_of_nat_eq_iff take_bit_nat_eq_self)
    with xy l show "x = y" by blast
  qed
  have "map sequence (inputs (?t [])) = map sequence (inputs (?t ?w)) \<and> outputs (?t []) = outputs (?t ?w)"
    using sighash_commits [of ?H "?t []" "?t ?w" ?c ?c 0 50 1 "246 # replicate 31 0" 0 50 1]
      w d [of "[]"] d [of ?w] s [of ?w] inj by simp
  with d [of "[]"] d [of ?w] show ?thesis by (simp add: Let_def)
qed

end
