(* ===== verification/Verify_Sig.thy ===== *)
theory Verify_Sig
  imports Suite_Registry Wire
begin

text \<open>
  Signature verification (\<open>live_binding_policy.rs\<close>, \<open>verify_sig_openssl.rs\<close> and its
  submodules \<open>alg\<close>, \<open>binding\<close>, \<open>digest\<close>). OpenSSL is not part of the sources: the
  return codes of the calls made to it are the fields of a record of functions, an
  argument of every definition that reaches OpenSSL. Likewise the JSON parser is
  represented by its result on the embedded policy. Error texts with formatted
  arguments are constructors of an error type.
\<close>

section \<open>The live binding policy\<close>

record LiveBindingPolicyEntry =
  le_alg_name :: string
  le_pubkey_len :: u64
  le_sig_len :: u64
  runtime_binding :: string
  openssl_alg :: string
  live_binding_name :: string

record LiveBindingPolicyManifest =
  lm_version :: u64
  lm_entries :: "LiveBindingPolicyEntry list"

datatype PolicyError =
    PolicyParse string
  | UnsupportedVersion u64
  | EntriesMissing
  | EntryAlgNameMissing nat
  | EntryPubkeyLenZero nat
  | EntrySigLenZero nat
  | EntryRuntimeBindingMissing nat
  | EntryOpensslAlgMissing nat
  | EntryLiveBindingNameMissing nat
  | EntryDuplicateLiveBindingName nat string
  | EntryDuplicateRuntimeTuple nat string u64 u64
  | EntryRequiresAlgName nat string
  | EntryRequiresOpensslAlg nat string
  | EntryRequiresPubkeyLen nat string
  | EntryRequiresSigLen nat string
  | EntryRequiresLiveBindingName nat string
  | EntryUnsupportedRuntimeBinding nat string
  | RuntimeTupleNotFound string u64 u64

datatype LiveBindingPolicyLookupError = NotFound PolicyError | Invalid PolicyError

definition LIVE_BINDING_POLICY_VERSION :: u64 where
  "LIVE_BINDING_POLICY_VERSION = 1"

definition LIVE_BINDING_POLICY_RUNTIME_OPENSSL_DIGEST32_V1 :: string where
  "LIVE_BINDING_POLICY_RUNTIME_OPENSSL_DIGEST32_V1 = ''openssl_digest32_v1''"

definition LIVE_BINDING_NAME_VERIFY_SIG_OPENSSL_DIGEST32_V1 :: string where
  "LIVE_BINDING_NAME_VERIFY_SIG_OPENSSL_DIGEST32_V1 = ''verify_sig_openssl_digest32_v1''"

definition live_binding_policy_runtime_tuple_key :: "string \<Rightarrow> u64 \<Rightarrow> u64 \<Rightarrow> string" where
  "live_binding_policy_runtime_tuple_key alg pk_len sg_len =
    alg @ ''|'' @ show_nat (unat pk_len) @ ''|'' @ show_nat (unat sg_len)"

text \<open>The two sets of names seen so far are updated before the later checks run.\<close>

definition LiveBindingPolicyEntry_validate ::
  "nat \<Rightarrow> LiveBindingPolicyEntry \<Rightarrow> string set \<times> string set \<Rightarrow> PolicyError + string set \<times> string set" where
  "LiveBindingPolicyEntry_validate index e seen =
    (let (seen_runtime_tuples, seen_live_bindings) = seen in
     if le_alg_name e = [] then Inl (EntryAlgNameMissing index)
     else if le_pubkey_len e = 0 then Inl (EntryPubkeyLenZero index)
     else if le_sig_len e = 0 then Inl (EntrySigLenZero index)
     else if runtime_binding e = [] then Inl (EntryRuntimeBindingMissing index)
     else if openssl_alg e = [] then Inl (EntryOpensslAlgMissing index)
     else if live_binding_name e = [] then Inl (EntryLiveBindingNameMissing index)
     else if live_binding_name e \<in> seen_live_bindings
     then Inl (EntryDuplicateLiveBindingName index (live_binding_name e))
     else
     let seen_live_bindings = insert (live_binding_name e) seen_live_bindings;
         runtime_tuple_key =
           live_binding_policy_runtime_tuple_key (le_alg_name e) (le_pubkey_len e) (le_sig_len e) in
     if runtime_tuple_key \<in> seen_runtime_tuples
     then Inl (EntryDuplicateRuntimeTuple index (le_alg_name e) (le_pubkey_len e) (le_sig_len e))
     else
     let seen_runtime_tuples = insert runtime_tuple_key seen_runtime_tuples in
     if runtime_binding e = LIVE_BINDING_POLICY_RUNTIME_OPENSSL_DIGEST32_V1 then
       (if le_alg_name e \<noteq> ''ML-DSA-87'' then Inl (EntryRequiresAlgName index (runtime_binding e))
        else if openssl_alg e \<noteq> ''ML-DSA-87'' then Inl (EntryRequiresOpensslAlg index (runtime_binding e))
        else if le_pubkey_len e \<noteq> ML_DSA_87_PUBKEY_BYTES
        then Inl (EntryRequiresPubkeyLen index (runtime_binding e))
        else if le_sig_len e \<noteq> ML_DSA_87_SIG_BYTES then Inl (EntryRequiresSigLen index (runtime_binding e))
        else if live_binding_name e \<noteq> LIVE_BINDING_NAME_VERIFY_SIG_OPENSSL_DIGEST32_V1
        then Inl (EntryRequiresLiveBindingName index (runtime_binding e))
        else Inr (seen_runtime_tuples, seen_live_bindings))
     else Inl (EntryUnsupportedRuntimeBinding index (runtime_binding e)))"

text \<open>
  \<open>duplicates\<close> is the outcome of the duplicate-key pass over the raw text and \<open>parsed\<close>
  that of the typed parse; both are results of the JSON library.
\<close>

definition load_live_binding_policy_from_json ::
  "string + unit \<Rightarrow> string + LiveBindingPolicyManifest \<Rightarrow> PolicyError + LiveBindingPolicyManifest" where
  "load_live_binding_policy_from_json duplicates parsed =
    and_then (map_err PolicyParse duplicates) (\<lambda>_.
    and_then (map_err PolicyParse parsed) (\<lambda>manifest.
    if lm_version manifest \<noteq> LIVE_BINDING_POLICY_VERSION
    then Inl (UnsupportedVersion (lm_version manifest))
    else if lm_entries manifest = [] then Inl EntriesMissing
    else and_then (try_fold (\<lambda>seen (index, e). LiveBindingPolicyEntry_validate index e seen) ({}, {})
        (List.enumerate 0 (lm_entries manifest)))
      (\<lambda>_. Inr manifest)))"

definition LIVE_BINDING_POLICY_V1_JSON :: LiveBindingPolicyManifest where
  "LIVE_BINDING_POLICY_V1_JSON = \<lparr>lm_version = 1, lm_entries =
    [\<lparr>le_alg_name = ''ML-DSA-87'', le_pubkey_len = 2592, le_sig_len = 4627,
      runtime_binding = ''openssl_digest32_v1'', openssl_alg = ''ML-DSA-87'',
      live_binding_name = ''verify_sig_openssl_digest32_v1''\<rparr>]\<rparr>"

definition default_live_binding_policy :: "PolicyError + LiveBindingPolicyManifest" where
  "default_live_binding_policy =
    load_live_binding_policy_from_json (Inr ()) (Inr LIVE_BINDING_POLICY_V1_JSON)"

definition live_binding_policy_runtime_entry ::
  "string \<Rightarrow> u64 \<Rightarrow> u64 \<Rightarrow> LiveBindingPolicyLookupError + LiveBindingPolicyEntry" where
  "live_binding_policy_runtime_entry alg pk_len sg_len =
    and_then (map_err Invalid default_live_binding_policy) (\<lambda>manifest.
    ok_or (NotFound (RuntimeTupleNotFound alg pk_len sg_len))
      (List.find (\<lambda>e. le_alg_name e = alg \<and> le_pubkey_len e = pk_len \<and> le_sig_len e = sg_len)
        (lm_entries manifest)))"

section \<open>Calls to OpenSSL\<close>

record OpenSSL =
  OPENSSL_init_crypto :: int
  EVP_SIGNATURE_fetch :: "string \<Rightarrow> string \<Rightarrow> bool"
  EVP_PKEY_new_raw_public_key_ex :: "string \<Rightarrow> bytes \<Rightarrow> bool"
  EVP_MD_CTX_new :: bool
  EVP_DigestVerifyInit_ex :: "string \<Rightarrow> bytes \<Rightarrow> int"
  EVP_DigestVerify :: "string \<Rightarrow> bytes \<Rightarrow> bytes \<Rightarrow> bytes \<Rightarrow> int"

definition map_openssl_init_rc :: "int \<Rightarrow> string \<Rightarrow> unit res" where
  "map_openssl_init_rc rc msg = (if rc = 1 then Ok () else Err TxErrParse msg)"

definition openssl_check_sigalg :: "OpenSSL \<Rightarrow> string \<Rightarrow> string \<Rightarrow> unit res" where
  "openssl_check_sigalg ssl alg props =
    (if \<not> EVP_SIGNATURE_fetch ssl alg props
     then Err TxErrParse ''openssl bootstrap: EVP_SIGNATURE_fetch failed'' else Ok ())"

definition openssl_consensus_bootstrap :: "OpenSSL \<Rightarrow> unit res" where
  "openssl_consensus_bootstrap ssl =
    and_then (map_openssl_init_rc (OPENSSL_init_crypto ssl)
      ''openssl consensus init: OPENSSL_init_crypto failed'') (\<lambda>_.
    openssl_check_sigalg ssl ''ML-DSA-87'' [])"

text \<open>The \<open>OnceLock\<close> keeps the outcome of the first bootstrap.\<close>

definition ensure_openssl_consensus_init :: "OpenSSL \<Rightarrow> unit res" where
  "ensure_openssl_consensus_init ssl = openssl_consensus_bootstrap ssl"

definition map_digest_verify_rc :: "int \<Rightarrow> bool res" where
  "map_digest_verify_rc rc =
    (if rc = 1 then Ok True else if rc = 0 then Ok False
     else Err TxErrSigInvalid ''openssl: EVP_DigestVerify internal error'')"

definition openssl_verify_sig_digest_oneshot ::
  "OpenSSL \<Rightarrow> string \<Rightarrow> bytes \<Rightarrow> bytes \<Rightarrow> bytes \<Rightarrow> bool res" where
  "openssl_verify_sig_digest_oneshot ssl alg pk sg msg =
    (if pk = [] \<or> sg = [] \<or> msg = [] then Err TxErrParse ''openssl: empty input''
     else if \<not> EVP_PKEY_new_raw_public_key_ex ssl alg pk
     then Err TxErrParse ''openssl: EVP_PKEY_new_raw_public_key_ex failed''
     else if \<not> EVP_MD_CTX_new ssl then Err TxErrParse ''openssl: EVP_MD_CTX_new failed''
     else if EVP_DigestVerifyInit_ex ssl alg pk \<le> 0
     then Err TxErrParse ''openssl: EVP_DigestVerifyInit_ex failed''
     else map_digest_verify_rc (EVP_DigestVerify ssl alg pk sg msg))"

definition suite_alg_name :: "u8 \<Rightarrow> string res" where
  "suite_alg_name s = (if s = SUITE_ID_ML_DSA_87 then Ok ''ML-DSA-87''
     else Err TxErrSigAlgInvalid ''verify_sig: unsupported suite_id'')"

definition openssl_alg_name_cstr :: "string \<Rightarrow> string option" where
  "openssl_alg_name_cstr n = (if n = ''ML-DSA-87'' then Some ''ML-DSA-87'' else None)"

section \<open>Binding a suite to a verifier\<close>

datatype SuiteVerifierBinding = OpenSslDigest32V1 (b_alg: string) (b_pubkey_len: u64) (b_sig_len: u64)

definition canonical_v1_binding_from_entry :: "LiveBindingPolicyEntry \<Rightarrow> SuiteVerifierBinding res" where
  "canonical_v1_binding_from_entry e =
    (if le_alg_name e \<noteq> ''ML-DSA-87'' \<or> openssl_alg e \<noteq> ''ML-DSA-87'' \<or>
        le_pubkey_len e \<noteq> ML_DSA_87_PUBKEY_BYTES \<or> le_sig_len e \<noteq> ML_DSA_87_SIG_BYTES
     then Err TxErrSigAlgInvalid ''resolve_suite_verifier_binding: unsupported suite verifier binding''
     else and_then (ok_or (TxError_new TxErrSigAlgInvalid
         ''resolve_suite_verifier_binding: unsupported OpenSSL alg'') (openssl_alg_name_cstr (openssl_alg e)))
       (\<lambda>alg. Ok (OpenSslDigest32V1 alg ML_DSA_87_PUBKEY_BYTES ML_DSA_87_SIG_BYTES)))"

definition resolve_suite_verifier_binding :: "string \<Rightarrow> u64 \<Rightarrow> u64 \<Rightarrow> SuiteVerifierBinding res" where
  "resolve_suite_verifier_binding alg pk_len sg_len =
    and_then (map_err (\<lambda>e. case e of
        NotFound _ \<Rightarrow> TxError_new TxErrSigAlgInvalid
          ''resolve_suite_verifier_binding: unsupported suite verifier binding''
      | Invalid _ \<Rightarrow> TxError_new TxErrSigAlgInvalid
          ''resolve_suite_verifier_binding: live binding policy invalid'')
      (live_binding_policy_runtime_entry alg pk_len sg_len)) (\<lambda>entry.
    if runtime_binding entry = LIVE_BINDING_POLICY_RUNTIME_OPENSSL_DIGEST32_V1
    then canonical_v1_binding_from_entry entry
    else Err TxErrSigAlgInvalid ''resolve_suite_verifier_binding: unsupported suite verifier binding'')"

definition verify_sig_with_binding ::
  "OpenSSL \<Rightarrow> SuiteVerifierBinding \<Rightarrow> bytes \<Rightarrow> bytes \<Rightarrow> bytes32 \<Rightarrow> bool res" where
  "verify_sig_with_binding ssl binding pk sg digest32 =
    (case binding of OpenSslDigest32V1 alg pk_len sg_len \<Rightarrow>
       if len64 pk \<noteq> pk_len \<or> len64 sg \<noteq> sg_len then Ok False
       else openssl_verify_sig_digest_oneshot ssl alg pk sg digest32)"

definition runtime_verification_registry_with_default ::
  "SuiteRegistry option \<Rightarrow> SuiteRegistry \<Rightarrow> SuiteRegistry res" where
  "runtime_verification_registry_with_default registry default_reg =
    (case registry of
       Some reg \<Rightarrow> Ok reg
     | None \<Rightarrow>
       if \<not> is_canonical_default_live_manifest default_reg
       then Err TxErrSigAlgInvalid ''verify_sig: default runtime registry drift''
       else Ok default_reg)"

definition runtime_suite_params_for_verification_with_default ::
  "u8 \<Rightarrow> SuiteRegistry option \<Rightarrow> SuiteRegistry \<Rightarrow> SuiteParams res" where
  "runtime_suite_params_for_verification_with_default s registry default_reg =
    and_then (runtime_verification_registry_with_default registry default_reg) (\<lambda>reg.
    ok_or (TxError_new TxErrSigAlgInvalid ''verify_sig: unsupported suite_id'') (registry_lookup reg s))"

definition runtime_suite_params_for_verification :: "u8 \<Rightarrow> SuiteRegistry option \<Rightarrow> SuiteParams res" where
  "runtime_suite_params_for_verification s registry =
    runtime_suite_params_for_verification_with_default s registry default_registry"

definition verify_sig :: "OpenSSL \<Rightarrow> u8 \<Rightarrow> bytes \<Rightarrow> bytes \<Rightarrow> bytes32 \<Rightarrow> bool res" where
  "verify_sig ssl s pk sg digest32 =
    (if s \<noteq> SUITE_ID_ML_DSA_87 then Err TxErrSigAlgInvalid ''verify_sig: unsupported suite_id''
     else and_then (ensure_openssl_consensus_init ssl) (\<lambda>_.
     and_then (resolve_suite_verifier_binding ''ML-DSA-87'' ML_DSA_87_PUBKEY_BYTES ML_DSA_87_SIG_BYTES)
       (\<lambda>binding. verify_sig_with_binding ssl binding pk sg digest32)))"

definition verify_sig_with_registry ::
  "OpenSSL \<Rightarrow> u8 \<Rightarrow> bytes \<Rightarrow> bytes \<Rightarrow> bytes32 \<Rightarrow> SuiteRegistry option \<Rightarrow> bool res" where
  "verify_sig_with_registry ssl s pk sg digest32 registry =
    and_then (runtime_suite_params_for_verification s registry) (\<lambda>params.
    and_then (ensure_openssl_consensus_init ssl) (\<lambda>_.
    and_then (resolve_suite_verifier_binding (alg_name params) (pubkey_len params) (sig_len params))
      (\<lambda>binding. verify_sig_with_binding ssl binding pk sg digest32)))"

section \<open>Which signatures verify\<close>

lemma default_policy: "default_live_binding_policy = Inr LIVE_BINDING_POLICY_V1_JSON"
  by (simp add: default_live_binding_policy_def load_live_binding_policy_from_json_def
      LIVE_BINDING_POLICY_V1_JSON_def LIVE_BINDING_POLICY_VERSION_def LiveBindingPolicyEntry_validate_def
      LIVE_BINDING_POLICY_RUNTIME_OPENSSL_DIGEST32_V1_def LIVE_BINDING_NAME_VERIFY_SIG_OPENSSL_DIGEST32_V1_def
      ML_DSA_87_PUBKEY_BYTES_def ML_DSA_87_SIG_BYTES_def)

lemma resolve_binding:
  "resolve_suite_verifier_binding alg pk_len sg_len =
    (if alg = ''ML-DSA-87'' \<and> pk_len = 2592 \<and> sg_len = 4627 then Ok (OpenSslDigest32V1 ''ML-DSA-87'' 2592 4627)
     else Err TxErrSigAlgInvalid ''resolve_suite_verifier_binding: unsupported suite verifier binding'')"
  by (simp add: resolve_suite_verifier_binding_def live_binding_policy_runtime_entry_def default_policy
      LIVE_BINDING_POLICY_V1_JSON_def canonical_v1_binding_from_entry_def openssl_alg_name_cstr_def
      LIVE_BINDING_POLICY_RUNTIME_OPENSSL_DIGEST32_V1_def ML_DSA_87_PUBKEY_BYTES_def ML_DSA_87_SIG_BYTES_def)

lemma default_registry_lookup:
  "registry_lookup default_registry s = (if s = SUITE_ID_ML_DSA_87 then Some ml_dsa_87_params else None)"
  by (simp add: registry_lookup_def default_registry_def bt_get_def)


lemma verify_with_registry_iff:
  "(verify_sig_with_registry ssl s pk sg d (Some reg) = Ok True \<longleftrightarrow>
     (\<exists>p. registry_lookup reg s = Some p \<and> alg_name p = ''ML-DSA-87'' \<and> pubkey_len p = 2592 \<and> sig_len p = 4627) \<and>
     OPENSSL_init_crypto ssl = 1 \<and> EVP_SIGNATURE_fetch ssl ''ML-DSA-87'' [] \<and>
     len64 pk = 2592 \<and> len64 sg = 4627 \<and> d \<noteq> [] \<and>
     EVP_PKEY_new_raw_public_key_ex ssl ''ML-DSA-87'' pk \<and> EVP_MD_CTX_new ssl \<and>
     0 < EVP_DigestVerifyInit_ex ssl ''ML-DSA-87'' pk \<and> EVP_DigestVerify ssl ''ML-DSA-87'' pk sg d = 1) \<and>
   verify_sig_with_registry ssl s pk sg d None = verify_sig_with_registry ssl s pk sg d (Some default_registry) \<and>
   verify_sig_with_registry ssl s pk sg d None = verify_sig ssl s pk sg d"
proof -
  have e: "pk \<noteq> []" "sg \<noteq> []" if "len64 pk = 2592" "len64 sg = 4627"
    using that by auto
  have "is_canonical_default_live_manifest default_registry"
    by (simp add: is_canonical_default_live_manifest_def default_registry_def bt_get_def ml_dsa_87_params_def)
  then have "runtime_suite_params_for_verification s None = runtime_suite_params_for_verification s (Some default_registry)"
    by (simp add: runtime_suite_params_for_verification_def
        runtime_suite_params_for_verification_with_default_def runtime_verification_registry_with_default_def)
  then have 1: "verify_sig_with_registry ssl s pk sg d None = verify_sig_with_registry ssl s pk sg d (Some default_registry)"
    by (simp add: verify_sig_with_registry_def)
  have 2: "verify_sig_with_registry ssl s pk sg d (Some default_registry) = verify_sig ssl s pk sg d"
    by (simp add: verify_sig_with_registry_def verify_sig_def runtime_suite_params_for_verification_def
        runtime_suite_params_for_verification_with_default_def runtime_verification_registry_with_default_def
        default_registry_lookup ml_dsa_87_params_def)
  have "verify_sig_with_registry ssl s pk sg d (Some reg) = Ok True \<longleftrightarrow>
     (\<exists>p. registry_lookup reg s = Some p \<and> alg_name p = ''ML-DSA-87'' \<and> pubkey_len p = 2592 \<and> sig_len p = 4627) \<and>
     ensure_openssl_consensus_init ssl = Ok () \<and> len64 pk = 2592 \<and> len64 sg = 4627 \<and>
     openssl_verify_sig_digest_oneshot ssl ''ML-DSA-87'' pk sg d = Ok True"
    by (auto simp: verify_sig_with_registry_def runtime_suite_params_for_verification_def
        runtime_suite_params_for_verification_with_default_def runtime_verification_registry_with_default_def
        resolve_binding verify_sig_with_binding_def split: if_splits)
  also have "\<dots> \<longleftrightarrow>
     (\<exists>p. registry_lookup reg s = Some p \<and> alg_name p = ''ML-DSA-87'' \<and> pubkey_len p = 2592 \<and> sig_len p = 4627) \<and>
     OPENSSL_init_crypto ssl = 1 \<and> EVP_SIGNATURE_fetch ssl ''ML-DSA-87'' [] \<and>
     len64 pk = 2592 \<and> len64 sg = 4627 \<and> d \<noteq> [] \<and>
     EVP_PKEY_new_raw_public_key_ex ssl ''ML-DSA-87'' pk \<and> EVP_MD_CTX_new ssl \<and>
     0 < EVP_DigestVerifyInit_ex ssl ''ML-DSA-87'' pk \<and> EVP_DigestVerify ssl ''ML-DSA-87'' pk sg d = 1"
    using e by (auto simp: ensure_openssl_consensus_init_def openssl_consensus_bootstrap_def
        map_openssl_init_rc_def openssl_check_sigalg_def openssl_verify_sig_digest_oneshot_def
        map_digest_verify_rc_def)
  finally show ?thesis using 1 2 by simp
qed

text \<open>
  C39: a signature verifies exactly when the suite is registered with the ML-DSA-87
  parameters of the embedded policy, OpenSSL initialises, key and signature have the
  lengths 2592 and 4627, and OpenSSL reports success on them and a non-empty digest.
  No registry entry can select another algorithm or other lengths, and no
  registry at all means the default registry, for which this is \<open>verify_sig\<close>.
\<close>

theorem verify_sig_with_registry_iff:
  "(verify_sig_with_registry ssl s pk sg d (Some reg) = Ok True \<longleftrightarrow>
     (\<exists>p. registry_lookup reg s = Some p \<and> alg_name p = ''ML-DSA-87'' \<and> pubkey_len p = 2592 \<and> sig_len p = 4627) \<and>
     OPENSSL_init_crypto ssl = 1 \<and> EVP_SIGNATURE_fetch ssl ''ML-DSA-87'' [] \<and>
     len64 pk = 2592 \<and> len64 sg = 4627 \<and> d \<noteq> [] \<and>
     EVP_PKEY_new_raw_public_key_ex ssl ''ML-DSA-87'' pk \<and> EVP_MD_CTX_new ssl \<and>
     0 < EVP_DigestVerifyInit_ex ssl ''ML-DSA-87'' pk \<and> EVP_DigestVerify ssl ''ML-DSA-87'' pk sg d = 1) \<and>
   verify_sig_with_registry ssl s pk sg d None = verify_sig_with_registry ssl s pk sg d (Some default_registry) \<and>
   verify_sig_with_registry ssl s pk sg d None = verify_sig ssl s pk sg d"
  by (rule verify_with_registry_iff)

end
