(* ===== verification/Worker_Pool.thy ===== *)
theory Worker_Pool
  imports Base
begin

text \<open>
  The deterministic worker pool (\<open>worker_pool.rs\<close>). A task body is a program of
  atomic actions on the state the workers share; a run of the pool is driven by a
  schedule, a list saying which worker takes the next action (or that the
  cancellation token is set), completed by the first worker that has not exited.
  Every interleaving of the threads is one such schedule. The pool terminates for
  every schedule, and its result does not depend on it. A body does not look at the
  cancellation token while it runs: the code passes the token to it, and every body in
  the crate ignores that argument.
\<close>

section \<open>Tasks\<close>

datatype 'e WorkerPoolError = Cancelled | Panic string | Task 'e

datatype WorkerPoolRunError = InvalidMaxTasks | TooManyTasks nat nat

record ('r, 'e) WorkerResult =
  wr_value :: "'r option"
  wr_error :: "'e WorkerPoolError option"

definition WorkerResult_success :: "'r \<Rightarrow> ('r, 'e) WorkerResult" where
  "WorkerResult_success v = \<lparr>wr_value = Some v, wr_error = None\<rparr>"

definition WorkerResult_failure :: "'e WorkerPoolError \<Rightarrow> ('r, 'e) WorkerResult" where
  "WorkerResult_failure e = \<lparr>wr_value = None, wr_error = Some e\<rparr>"

definition FIXED_WORKER_PANIC_MESSAGE :: string where
  "FIXED_WORKER_PANIC_MESSAGE = ''worker panic''"

definition worker_result_missing_failure :: "('r, 'e) WorkerResult" where
  "worker_result_missing_failure = WorkerResult_failure (Panic FIXED_WORKER_PANIC_MESSAGE)"

text \<open>How a task body ends, and its run as a sequence of atomic actions.\<close>

datatype ('r, 'e) outcome = Returned "'e + 'r" | Panicked

datatype ('s, 'o) prog = Done 'o | Act "'s \<Rightarrow> ('s, 'o) prog \<times> 's"

primrec run_prog :: "('s, 'o) prog \<Rightarrow> 's \<Rightarrow> 'o \<times> 's" where
  "run_prog (Done v) = (\<lambda>s. (v, s))"
| "run_prog (Act f) = (\<lambda>s. case map_prod run_prog id (f s) of (r, s') \<Rightarrow> r s')"

definition outcome_result :: "('r, 'e) outcome \<Rightarrow> ('r, 'e) WorkerResult" where
  "outcome_result v = (case v of
     Returned (Inr x) \<Rightarrow> WorkerResult_success x
   | Returned (Inl e) \<Rightarrow> WorkerResult_failure (Task e)
   | Panicked \<Rightarrow> WorkerResult_failure (Panic FIXED_WORKER_PANIC_MESSAGE))"

definition exec_task ::
  "('t \<Rightarrow> ('s, ('r, 'e) outcome) prog) \<Rightarrow> bool \<Rightarrow> 't \<Rightarrow> 's \<Rightarrow> ('r, 'e) WorkerResult \<times> 's" where
  "exec_task func cancelled t s =
    (if cancelled then (WorkerResult_failure Cancelled, s)
     else case run_prog (func t) s of (v, s') \<Rightarrow> (outcome_result v, s'))"

section \<open>The pool\<close>

datatype ('t, 's, 'r, 'e) worker =
    Idle
  | Got nat 't
  | Running nat "('s, ('r, 'e) outcome) prog"
  | Finished nat "('r, 'e) WorkerResult"
  | Exited

record ('t, 's, 'r, 'e) pool =
  p_queue :: "(nat \<times> 't) list"
  p_workers :: "('t, 's, 'r, 'e) worker list"
  p_results :: "('r, 'e) WorkerResult option list"
  p_cancelled :: bool
  p_shared :: 's

text \<open>One atomic action of worker \<open>w\<close>: the body of its loop, split at the points where it
  touches the queue, the token, the shared state or a result slot.\<close>

definition worker_step ::
  "('t \<Rightarrow> ('s, ('r, 'e) outcome) prog) \<Rightarrow> nat \<Rightarrow> ('t, 's, 'r, 'e) pool \<Rightarrow> ('t, 's, 'r, 'e) pool" where
  "worker_step func w P =
    (let set = \<lambda>x. (p_workers P)[w := x] in
     case p_workers P ! w of
       Idle \<Rightarrow> (case p_queue P of
           [] \<Rightarrow> P\<lparr>p_workers := set Exited\<rparr>
         | (idx, t) # q \<Rightarrow> P\<lparr>p_queue := q, p_workers := set (Got idx t)\<rparr>)
     | Got idx t \<Rightarrow>
         if p_cancelled P then P\<lparr>p_workers := set (Finished idx (WorkerResult_failure Cancelled))\<rparr>
         else P\<lparr>p_workers := set (Running idx (func t))\<rparr>
     | Running idx p \<Rightarrow> (case p of
           Done v \<Rightarrow> P\<lparr>p_workers := set (Finished idx (outcome_result v))\<rparr>
         | Act f \<Rightarrow> (case f (p_shared P) of (p', s') \<Rightarrow>
             P\<lparr>p_workers := set (Running idx p'), p_shared := s'\<rparr>))
     | Finished idx r \<Rightarrow> P\<lparr>p_results := (p_results P)[idx := Some r], p_workers := set Idle\<rparr>
     | Exited \<Rightarrow> P)"

datatype event = Turn nat | CancelToken

lemma case_live: "(case x of Exited \<Rightarrow> False | _ \<Rightarrow> True) \<longleftrightarrow> x \<noteq> Exited"
  by (cases x) simp_all

definition live :: "('t, 's, 'r, 'e) pool \<Rightarrow> nat \<Rightarrow> bool" where
  "live P w \<longleftrightarrow> w < length (p_workers P) \<and> (case p_workers P ! w of Exited \<Rightarrow> False | _ \<Rightarrow> True)"

definition first_live :: "('t, 's, 'r, 'e) pool \<Rightarrow> nat option" where
  "first_live P = List.find (live P) [0..<length (p_workers P)]"

subsection \<open>Termination\<close>

definition subprog :: "(('s, 'o) prog \<times> ('s, 'o) prog) set" where
  "subprog = {(p', p). \<exists>f s. p = Act f \<and> p' = fst (f s)}"

lemma wf_subprog: "wf subprog"
proof (rule wfUNIVI)
  fix P :: "('a, 'b) prog \<Rightarrow> bool" and p
  assume H: "\<forall>x. (\<forall>y. (y, x) \<in> subprog \<longrightarrow> P y) \<longrightarrow> P x"
  show "P p"
  proof (induction p)
    case (Done v)
    then show ?case using H by (auto simp: subprog_def)
  next
    case (Act f)
    have "P (fst (f s))" for s
      using Act [of "f s" "fst (f s)"] by (simp add: rangeI fsts.intros)
    then have "\<forall>y. (y, Act f) \<in> subprog \<longrightarrow> P y" by (auto simp: subprog_def)
    then show ?case using H by blast
  qed
qed

primrec work :: "('t \<Rightarrow> ('s, ('r, 'e) outcome) prog) \<Rightarrow> ('t, 's, 'r, 'e) worker \<Rightarrow>
    (nat \<times> ('s, ('r, 'e) outcome) prog) multiset" where
  "work func Idle = {#}"
| "work func (Got idx t) = {#(2, func t)#}"
| "work func (Running idx p) = {#(1, p)#}"
| "work func (Finished idx r) = {#(0, Done Panicked)#}"
| "work func Exited = {#}"

definition pool_work :: "('t \<Rightarrow> ('s, ('r, 'e) outcome) prog) \<Rightarrow> ('t, 's, 'r, 'e) pool \<Rightarrow>
    (nat \<times> ('s, ('r, 'e) outcome) prog) multiset" where
  "pool_work func P = mset (map (\<lambda>(i, t). (3, func t)) (p_queue P)) + (\<Sum>x\<leftarrow>p_workers P. work func x)"

definition alive :: "('t, 's, 'r, 'e) pool \<Rightarrow> nat" where
  "alive P = length (filter (\<lambda>x. case x of Exited \<Rightarrow> False | _ \<Rightarrow> True) (p_workers P))"

definition pool_order :: "(((nat \<times> ('s, 'o) prog) multiset \<times> nat) \<times> ((nat \<times> ('s, 'o) prog) multiset \<times> nat)) set" where
  "pool_order = mult (less_than <*lex*> subprog) <*lex*> less_than"

lemma wf_pool_order: "wf pool_order"
  unfolding pool_order_def by (intro wf_lex_prod wf_mult wf_less_than wf_subprog)

lemma sum_list_split:
  fixes f :: "'a \<Rightarrow> 'b multiset"
  assumes "w < length xs"
  obtains R where "(\<Sum>x\<leftarrow>xs. f x) = R + f (xs ! w)" and "\<And>y. (\<Sum>x\<leftarrow>xs[w := y]. f x) = R + f y"
proof
  show "(\<Sum>x\<leftarrow>xs. f x) = ((\<Sum>x\<leftarrow>take w xs. f x) + (\<Sum>x\<leftarrow>drop (Suc w) xs. f x)) + f (xs ! w)"
    using assms by (subst id_take_nth_drop [OF assms]) (simp add: ac_simps)
  show "(\<Sum>x\<leftarrow>xs[w := y]. f x) = ((\<Sum>x\<leftarrow>take w xs. f x) + (\<Sum>x\<leftarrow>drop (Suc w) xs. f x)) + f y" for y
    using assms by (simp add: upd_conv_take_nth_drop ac_simps)
qed

lemma filter_length_update:
  "w < length xs \<Longrightarrow> Q (xs ! w) \<Longrightarrow> \<not> Q y \<Longrightarrow> length (filter Q (xs[w := y])) < length (filter Q xs)"
proof (induction xs arbitrary: w)
  case (Cons x xs)
  then show ?case by (cases w) auto
qed simp

lemma mult_replace:
  assumes "\<And>k. k \<in># K \<Longrightarrow> (k, a) \<in> r"
  shows "(N + K, N + {#a#}) \<in> mult r"
  using assms by (intro one_step_implies_mult) auto

lemma worker_step_decreases:
  assumes "live P w"
  shows "((pool_work func (worker_step func w P), alive (worker_step func w P)), (pool_work func P, alive P)) \<in> pool_order"
proof -
  have w: "w < length (p_workers P)" using assms by (simp add: live_def)
  obtain R where R: "(\<Sum>x\<leftarrow>p_workers P. work func x) = R + work func (p_workers P ! w)"
      "\<And>y. (\<Sum>x\<leftarrow>(p_workers P)[w := y]. work func x) = R + work func y"
    using sum_list_split [OF w, of "work func"] by blast
  let ?Q = "mset (map (\<lambda>(i, t). (3, func t)) (p_queue P))"
  have *: "(?Q + R + K, ?Q + R + {#a#}) \<in> mult (less_than <*lex*> subprog)"
    if "\<And>k. k \<in># K \<Longrightarrow> (k, a) \<in> less_than <*lex*> subprog" for K a
    using mult_replace [of K a, OF that] by blast
  show ?thesis
  proof (cases "p_workers P ! w")
    case Idle
    show ?thesis
    proof (cases "p_queue P")
      case Nil
      have "alive (worker_step func w P) < alive P"
        using w Idle Nil by (auto simp: alive_def worker_step_def Let_def intro!: filter_length_update)
      then show ?thesis using Idle Nil R by (simp add: pool_order_def pool_work_def worker_step_def Let_def)
    next
      case (Cons q qs)
      obtain idx t where q: "q = (idx, t)" by (rule prod.exhaust)
      have "(mset (map (\<lambda>(i, t). (3, func t)) qs) + R + {#(2, func t)#},
          mset (map (\<lambda>(i, t). (3, func t)) qs) + R + {#(3, func t)#}) \<in> mult (less_than <*lex*> subprog)"
        by (rule mult_replace) auto
      then show ?thesis using Idle Cons q R
        by (simp add: pool_order_def pool_work_def worker_step_def Let_def ac_simps)
    qed
  next
    case (Got idx t)
    then show ?thesis using R * [of "{#(0, Done Panicked)#}" "(2, func t)"] * [of "{#(1, func t)#}" "(2, func t)"]
      by (simp add: pool_order_def pool_work_def worker_step_def Let_def ac_simps)
  next
    case (Running idx p)
    show ?thesis
    proof (cases p)
      case (Done v)
      then show ?thesis using Running R * [of "{#(0, Done Panicked)#}" "(1, p)"]
        by (simp add: pool_order_def pool_work_def worker_step_def Let_def ac_simps)
    next
      case (Act f)
      have "(fst (f (p_shared P)), p) \<in> subprog" unfolding Act by (auto simp: subprog_def)
      then show ?thesis using Running Act R * [of "{#(1, fst (f (p_shared P)))#}" "(1, p)"]
        by (cases "f (p_shared P)") (simp add: pool_order_def pool_work_def worker_step_def Let_def ac_simps)
    qed
  next
    case (Finished idx r)
    then show ?thesis using R * [of "{#}" "(0, Done Panicked)"]
      by (simp add: pool_order_def pool_work_def worker_step_def Let_def ac_simps)
  next
    case Exited
    then show ?thesis using assms by (simp add: live_def)
  qed
qed

lemma first_live_Some: "first_live P = Some w \<Longrightarrow> live P w"
  by (auto simp: first_live_def find_Some_iff)

lemma first_live_None: "first_live P = None \<longleftrightarrow> (\<forall>w < length (p_workers P). p_workers P ! w = Exited)"
  by (auto simp: first_live_def find_None_iff live_def case_live)

function pool_run ::
  "('t \<Rightarrow> ('s, ('r, 'e) outcome) prog) \<Rightarrow> event list \<Rightarrow> ('t, 's, 'r, 'e) pool \<Rightarrow> ('t, 's, 'r, 'e) pool" where
  "pool_run func sched P =
    (case first_live P of
       None \<Rightarrow> P
     | Some d \<Rightarrow> (case sched of
         [] \<Rightarrow> pool_run func [] (worker_step func d P)
       | CancelToken # es \<Rightarrow> pool_run func es (P\<lparr>p_cancelled := True\<rparr>)
       | Turn w # es \<Rightarrow> pool_run func es (if live P w then worker_step func w P else P)))"
  by pat_completeness auto

termination
proof (relation "inv_image (pool_order <*lex*> less_than)
    (\<lambda>(func, sched, P). ((pool_work func P, alive P), length sched))")
  show "wf (inv_image (pool_order <*lex*> less_than)
      (\<lambda>(func, sched, P). ((pool_work func P, alive P), length sched)))"
    by (intro wf_inv_image wf_lex_prod wf_pool_order wf_less_than)
qed (auto simp: worker_step_decreases dest: first_live_Some, simp_all add: pool_work_def alive_def)

declare pool_run.simps [simp del]

definition normalized_worker_count :: "nat \<Rightarrow> nat \<Rightarrow> nat \<Rightarrow> nat" where
  "normalized_worker_count par max_workers task_count =
    (let workers = (if max_workers = 0 then max par 1 else max_workers) in
     max (min workers task_count) 1)"

text \<open>\<open>par\<close> is what \<open>available_parallelism\<close> reports, or one where it fails.\<close>

definition WorkerPool_run ::
  "nat \<Rightarrow> event list \<Rightarrow> ('t \<Rightarrow> ('s, ('r, 'e) outcome) prog) \<Rightarrow> nat \<Rightarrow> nat \<Rightarrow> bool \<Rightarrow> 't list \<Rightarrow> 's \<Rightarrow>
   (WorkerPoolRunError + ('r, 'e) WorkerResult list) \<times> 's" where
  "WorkerPool_run par sched func max_workers max_tasks cancelled tasks s =
    (let task_count = length tasks in
     if task_count = 0 then (Inr [], s)
     else if max_tasks = 0 then (Inl InvalidMaxTasks, s)
     else if task_count > max_tasks then (Inl (TooManyTasks task_count max_tasks), s)
     else let worker_count = normalized_worker_count par max_workers task_count in
     if task_count = 1
     then (case exec_task func cancelled (hd tasks) s of (r, s') \<Rightarrow> (Inr [r], s'))
     else
     let P = pool_run func sched \<lparr>p_queue = List.enumerate 0 tasks, p_workers = replicate worker_count Idle,
           p_results = replicate task_count None, p_cancelled = cancelled, p_shared = s\<rparr> in
     (Inr (map (\<lambda>slot. case slot of Some r \<Rightarrow> r | None \<Rightarrow> worker_result_missing_failure) (p_results P)),
      p_shared P))"

definition run_worker_pool ::
  "nat \<Rightarrow> event list \<Rightarrow> bool \<Rightarrow> nat \<Rightarrow> nat \<Rightarrow> 't list \<Rightarrow> ('t \<Rightarrow> ('s, ('r, 'e) outcome) prog) \<Rightarrow> 's \<Rightarrow>
   (WorkerPoolRunError + ('r, 'e) WorkerResult list) \<times> 's" where
  "run_worker_pool par sched cancelled max_workers max_tasks tasks func s =
    WorkerPool_run par sched func max_workers max_tasks cancelled tasks s"

text \<open>The outer \<open>None\<close> is the panic of \<open>expect\<close>.\<close>

fun collect_values :: "('r, 'e) WorkerResult list \<Rightarrow> ('e WorkerPoolError + 'r list) option" where
  "collect_values [] = Some (Inr [])"
| "collect_values (r # rs) = (case wr_error r of
     Some e \<Rightarrow> Some (Inl e)
   | None \<Rightarrow> (case wr_value r of
       None \<Rightarrow> None
     | Some v \<Rightarrow> map_option (map_ok ((#) v)) (collect_values rs)))"

section \<open>Determinism\<close>

text \<open>
  A body is good for an invariant of the shared state and an outcome when every action
  keeps the invariant and every run from states satisfying it, with other actions in
  between, ends in that outcome.
\<close>

inductive good :: "('s \<Rightarrow> bool) \<Rightarrow> 'o \<Rightarrow> ('s, 'o) prog \<Rightarrow> bool" for I v where
  good_Done: "good I v (Done v)"
| good_Act: "(\<And>s. I s \<Longrightarrow> good I v (fst (f s)) \<and> I (snd (f s))) \<Longrightarrow> good I v (Act f)"

inductive_simps good_simps [simp]: "good I v (Done v')" "good I v (Act f)"

lemma good_run: "good I v p \<Longrightarrow> I s \<Longrightarrow> fst (run_prog p s) = v \<and> I (snd (run_prog p s))"
proof (induction arbitrary: s rule: good.induct)
  case (good_Act f)
  then show ?case by (simp add: case_prod_unfold)
qed simp

locale pool_tasks =
  fixes func :: "'t \<Rightarrow> ('s, ('r, 'e) outcome) prog"
    and I :: "'s \<Rightarrow> bool"
    and out :: "'t \<Rightarrow> ('r, 'e) outcome"
    and valid :: "'t \<Rightarrow> bool"
  assumes func_good: "valid t \<Longrightarrow> good I (out t) (func t)"
begin

definition accepted :: "bool \<Rightarrow> 't \<Rightarrow> ('r, 'e) WorkerResult \<Rightarrow> bool" where
  "accepted c t r \<longleftrightarrow> r = outcome_result (out t) \<or> c \<and> r = WorkerResult_failure Cancelled"

definition worker_inv :: "bool \<Rightarrow> 't list \<Rightarrow> nat \<Rightarrow> ('t, 's, 'r, 'e) worker \<Rightarrow> bool" where
  "worker_inv c ts k x = (case x of
     Idle \<Rightarrow> True
   | Got i t \<Rightarrow> i < k \<and> t = ts ! i
   | Running i p \<Rightarrow> i < k \<and> good I (out (ts ! i)) p
   | Finished i r \<Rightarrow> i < k \<and> accepted c (ts ! i) r
   | Exited \<Rightarrow> k = length ts)"

definition holds :: "nat \<Rightarrow> ('t, 's, 'r, 'e) worker \<Rightarrow> bool" where
  "holds i x = (case x of Got j _ \<Rightarrow> j = i | Running j _ \<Rightarrow> j = i | Finished j _ \<Rightarrow> j = i | _ \<Rightarrow> False)"

definition slot_ok :: "'t list \<Rightarrow> ('t, 's, 'r, 'e) pool \<Rightarrow> nat \<Rightarrow> bool" where
  "slot_ok ts P i = (case p_results P ! i of
     Some r \<Rightarrow> accepted (p_cancelled P) (ts ! i) r
   | None \<Rightarrow> \<exists>x \<in> set (p_workers P). holds i x)"

definition pool_inv :: "'t list \<Rightarrow> ('t, 's, 'r, 'e) pool \<Rightarrow> bool" where
  "pool_inv ts P \<longleftrightarrow> I (p_shared P) \<and> length (p_results P) = length ts \<and>
    (\<exists>k \<le> length ts. p_queue P = drop k (List.enumerate 0 ts) \<and>
      (\<forall>x \<in> set (p_workers P). worker_inv (p_cancelled P) ts k x) \<and>
      (\<forall>i < k. slot_ok ts P i) \<and> (\<forall>i. k \<le> i \<and> i < length ts \<longrightarrow> p_results P ! i = None))"

lemma slot_ok_holder:
  assumes "slot_ok ts P i" and "p_results P' = p_results P" and "p_cancelled P' = p_cancelled P"
    and "(\<exists>x \<in> set (p_workers P). holds i x) \<Longrightarrow> (\<exists>x \<in> set (p_workers P'). holds i x)"
  shows "slot_ok ts P' i"
  using assms by (auto simp: slot_ok_def split: option.splits)

lemma holder_update:
  assumes "\<exists>x \<in> set xs. holds i x" and "w < length xs" and "holds i (xs ! w) \<Longrightarrow> holds i y"
  shows "\<exists>x \<in> set (xs[w := y]). holds i x"
proof -
  obtain j where j: "j < length xs" "holds i (xs ! j)"
    using assms(1) by (auto simp: in_set_conv_nth)
  then have "holds i (xs[w := y] ! j)" using assms(3) by (cases "j = w") auto
  then show ?thesis using j(1) by (metis length_list_update nth_mem)
qed

lemma worker_inv_mono: "worker_inv c ts k x \<Longrightarrow> k \<le> k' \<Longrightarrow> k' \<le> length ts \<Longrightarrow> worker_inv c ts k' x"
  by (auto simp: worker_inv_def split: worker.splits)

text \<open>A step that only replaces one worker, which keeps its task, keeps the invariant.\<close>

lemma pool_inv_replace:
  assumes "pool_inv ts P" and "I s" and "w < length (p_workers P)"
    and "\<And>k. worker_inv (p_cancelled P) ts k (p_workers P ! w) \<Longrightarrow> k \<le> length ts \<Longrightarrow>
      p_queue P = drop k (List.enumerate 0 ts) \<Longrightarrow> worker_inv (p_cancelled P) ts k y"
    and "\<And>i. holds i (p_workers P ! w) \<Longrightarrow> holds i y"
  shows "pool_inv ts (P\<lparr>p_workers := (p_workers P)[w := y], p_shared := s\<rparr>)"
proof -
  obtain k where k: "k \<le> length ts" "p_queue P = drop k (List.enumerate 0 ts)"
      "\<forall>x \<in> set (p_workers P). worker_inv (p_cancelled P) ts k x" "\<forall>i < k. slot_ok ts P i"
      "\<forall>i. k \<le> i \<and> i < length ts \<longrightarrow> p_results P ! i = None"
    and l: "length (p_results P) = length ts"
    using assms(1) unfolding pool_inv_def by blast
  have "worker_inv (p_cancelled P) ts k y" using assms(3,4) k by simp
  then have 1: "\<forall>x \<in> set ((p_workers P)[w := y]). worker_inv (p_cancelled P) ts k x"
    using k(3) set_update_subset_insert by fastforce
  have 2: "slot_ok ts (P\<lparr>p_workers := (p_workers P)[w := y], p_shared := s\<rparr>) i" if "i < k" for i
    by (rule slot_ok_holder [of ts P]) (use k(4) that holder_update [OF _ assms(3,5)] in auto)
  show ?thesis unfolding pool_inv_def
    by (intro conjI exI [of _ k]) (use k(1,2,5) l assms(2) 1 2 in auto)
qed

lemma pool_invE:
  assumes "pool_inv ts P"
  obtains k where "k \<le> length ts" and "p_queue P = drop k (List.enumerate 0 ts)"
    and "\<forall>x \<in> set (p_workers P). worker_inv (p_cancelled P) ts k x" and "\<forall>i < k. slot_ok ts P i"
    and "\<forall>i. k \<le> i \<and> i < length ts \<longrightarrow> p_results P ! i = None" and "length (p_results P) = length ts" and "I (p_shared P)"
  using assms unfolding pool_inv_def by blast

text \<open>The three steps that do more: taking a task from the queue, an action of the body, publishing a result.\<close>

lemma pool_inv_take:
  assumes "pool_inv ts P" and "w < length (p_workers P)" and "p_workers P ! w = Idle" and "p_queue P = (i, t) # qs"
  shows "pool_inv ts (P\<lparr>p_queue := qs, p_workers := (p_workers P)[w := Got i t]\<rparr>)" (is "pool_inv ts ?P")
proof -
  obtain k where k: "k \<le> length ts" "p_queue P = drop k (List.enumerate 0 ts)"
      "\<forall>x \<in> set (p_workers P). worker_inv (p_cancelled P) ts k x" "\<forall>i < k. slot_ok ts P i"
      "\<forall>i. k \<le> i \<and> i < length ts \<longrightarrow> p_results P ! i = None" "length (p_results P) = length ts" "I (p_shared P)"
    using assms(1) by (rule pool_invE)
  have k': "k < length ts" using k(1,2) assms(4) by (cases "k = length ts") auto
  then have q: "i = k" "t = ts ! k" "qs = drop (Suc k) (List.enumerate 0 ts)"
    using k(2) assms(4) by (simp_all add: Cons_nth_drop_Suc [symmetric] nth_enumerate_eq)
  have 1: "worker_inv (p_cancelled P) ts (Suc k) x" if "x \<in> set ((p_workers P)[w := Got i t])" for x
    using that k(3) worker_inv_mono [of "p_cancelled P" ts k x "Suc k"] k' q
      set_update_subset_insert [of "p_workers P" w "Got i t"]
    by (auto simp: worker_inv_def)
  have 2: "slot_ok ts ?P j" if "j < Suc k" for j
  proof (cases "j = k")
    case True
    have "Got i t \<in> set ((p_workers P)[w := Got i t])" using assms(2) by (simp add: set_update_memI)
    then have "\<exists>x \<in> set (p_workers ?P). holds k x" using q(1) by (auto simp: holds_def intro!: bexI)
    then show ?thesis using True k(5) k' by (simp add: slot_ok_def)
  next
    case False
    have n: "holds j (p_workers P ! w) \<Longrightarrow> holds j (Got i t)" using assms(3) by (simp add: holds_def)
    have "slot_ok ts P j" using False k(4) that by simp
    then show ?thesis
      by (rule slot_ok_holder) (use holder_update [OF _ assms(2) n] in simp_all)
  qed
  show ?thesis unfolding pool_inv_def
    by (intro conjI exI [of _ "Suc k"]) (use k(5,6,7) k' q(3) 1 2 in auto)
qed

lemma pool_inv_act:
  assumes "pool_inv ts P" and "w < length (p_workers P)" and "p_workers P ! w = Running i (Act f)" and "f (p_shared P) = (p', s')"
  shows "pool_inv ts (P\<lparr>p_workers := (p_workers P)[w := Running i p'], p_shared := s'\<rparr>)"
proof -
  obtain k where k: "\<forall>x \<in> set (p_workers P). worker_inv (p_cancelled P) ts k x" "I (p_shared P)" using assms(1) by (rule pool_invE)
  have "worker_inv (p_cancelled P) ts k (Running i (Act f))" using k(1) nth_mem [OF assms(2)] assms(3) by simp
  then have "good I (out (ts ! i)) (Act f)" by (simp add: worker_inv_def)
  then have s': "I s'" "good I (out (ts ! i)) p'" using k(2) spec [of _ "p_shared P"] assms(4) by fastforce+
  show ?thesis
    by (rule pool_inv_replace [OF assms(1) s'(1) assms(2)]) (use assms(3) s'(2) in \<open>auto simp: worker_inv_def holds_def\<close>)
qed

lemma pool_inv_publish:
  assumes "pool_inv ts P" and "w < length (p_workers P)" and "p_workers P ! w = Finished i r"
  shows "pool_inv ts (P\<lparr>p_results := (p_results P)[i := Some r], p_workers := (p_workers P)[w := Idle]\<rparr>)" (is "pool_inv ts ?P")
proof -
  obtain k where k: "k \<le> length ts" "p_queue P = drop k (List.enumerate 0 ts)"
      "\<forall>x \<in> set (p_workers P). worker_inv (p_cancelled P) ts k x" "\<forall>i < k. slot_ok ts P i"
      "\<forall>i. k \<le> i \<and> i < length ts \<longrightarrow> p_results P ! i = None" "length (p_results P) = length ts" "I (p_shared P)"
    using assms(1) by (rule pool_invE)
  have i: "i < k" "accepted (p_cancelled P) (ts ! i) r"
    using k(3) assms(3) nth_mem [OF assms(2)] by (auto simp: worker_inv_def)
  have 1: "worker_inv (p_cancelled P) ts k x" if "x \<in> set ((p_workers P)[w := Idle])" for x
    using that k(3) set_update_subset_insert [of "p_workers P" w Idle] by (auto simp: worker_inv_def)
  have 2: "slot_ok ts ?P j" if "j < k" for j
  proof (cases "j = i")
    case True
    then show ?thesis using i k(1,6) by (simp add: slot_ok_def)
  next
    case False
    then have n: "holds j (p_workers P ! w) \<Longrightarrow> holds j Idle" using assms(3) by (simp add: holds_def)
    have "slot_ok ts P j" using k(4) that by blast
    then show ?thesis using False holder_update [OF _ assms(2) n]
      by (auto simp: slot_ok_def split: option.splits)
  qed
  show ?thesis unfolding pool_inv_def
    by (intro conjI exI [of _ k]) (use k(1,2,5,6,7) i(1) 1 2 in auto)
qed

lemma worker_step_inv:
  assumes "pool_inv ts P" and "live P w" and "list_all valid ts"
  shows "pool_inv ts (worker_step func w P)"
proof -
  have w: "w < length (p_workers P)" using assms(2) by (simp add: live_def)
  have I: "I (p_shared P)" using assms(1) by (simp add: pool_inv_def)
  note rep = pool_inv_replace [OF assms(1) I w]
  show ?thesis
  proof (cases "p_workers P ! w")
    case Idle
    show ?thesis
    proof (cases "p_queue P")
      case Nil
      then show ?thesis using rep [of Exited] Idle by (simp add: worker_step_def worker_inv_def holds_def Let_def)
    next
      case (Cons q qs)
      then show ?thesis using pool_inv_take [OF assms(1) w Idle, of "fst q" "snd q" qs] Idle
        by (cases q) (simp add: worker_step_def Let_def)
    qed
  next
    case (Got i t)
    have "pool_inv ts (P\<lparr>p_workers := (p_workers P)[w := Finished i (WorkerResult_failure Cancelled)], p_shared := p_shared P\<rparr>)"
      if "p_cancelled P"
      by (rule rep) (use Got that in \<open>auto simp: worker_inv_def accepted_def holds_def\<close>)
    moreover have "pool_inv ts (P\<lparr>p_workers := (p_workers P)[w := Running i (func t)], p_shared := p_shared P\<rparr>)"
      by (rule rep) (use Got assms(3) func_good in \<open>auto simp: worker_inv_def holds_def list_all_length\<close>)
    ultimately show ?thesis using Got by (simp add: worker_step_def Let_def)
  next
    case (Running i p)
    show ?thesis
    proof (cases p)
      case (Done v)
      have "pool_inv ts (P\<lparr>p_workers := (p_workers P)[w := Finished i (outcome_result v)], p_shared := p_shared P\<rparr>)"
        by (rule rep) (use Running Done in \<open>auto simp: worker_inv_def accepted_def holds_def\<close>)
      then show ?thesis using Running Done by (simp add: worker_step_def Let_def)
    next
      case (Act f)
      obtain p' s' where f: "f (p_shared P) = (p', s')" by (rule prod.exhaust)
      then show ?thesis using pool_inv_act [OF assms(1) w, where f = f] Running Act by (simp add: worker_step_def Let_def)
    qed
  next
    case (Finished i r)
    then show ?thesis using pool_inv_publish [OF assms(1) w] by (simp add: worker_step_def Let_def)
  next
    case Exited
    then show ?thesis using assms(2) by (simp add: live_def)
  qed
qed

lemma cancel_inv:
  assumes "pool_inv ts P"
  shows "pool_inv ts (P\<lparr>p_cancelled := True\<rparr>)"
proof -
  obtain k where k: "k \<le> length ts" "p_queue P = drop k (List.enumerate 0 ts)"
      "\<forall>x \<in> set (p_workers P). worker_inv (p_cancelled P) ts k x" "\<forall>i < k. slot_ok ts P i"
      "\<forall>i. k \<le> i \<and> i < length ts \<longrightarrow> p_results P ! i = None"
    and l: "length (p_results P) = length ts" "I (p_shared P)"
    using assms unfolding pool_inv_def by blast
  have 1: "worker_inv True ts k x" if "x \<in> set (p_workers P)" for x
    using k(3) that by (auto simp: worker_inv_def accepted_def split: worker.splits)
  have 2: "slot_ok ts (P\<lparr>p_cancelled := True\<rparr>) i" if "i < k" for i
    using k(4) that by (auto simp: slot_ok_def accepted_def split: option.splits)
  show ?thesis unfolding pool_inv_def
    by (intro conjI exI [of _ k]) (use k(1,2,5) l 1 2 in auto)
qed

lemma worker_step_frame:
  "length (p_workers (worker_step f w P)) = length (p_workers P)"
  "p_cancelled (worker_step f w P) = p_cancelled P"
  by (auto simp: worker_step_def Let_def split: worker.splits prog.splits list.splits prod.splits)

lemma pool_run_inv:
  assumes "list_all valid ts" and "f = func" and "pool_inv ts P"
  shows "pool_inv ts (pool_run f sched P) \<and> first_live (pool_run f sched P) = None \<and>
    length (p_workers (pool_run f sched P)) = length (p_workers P) \<and>
    (p_cancelled (pool_run f sched P) \<longrightarrow> p_cancelled P \<or> CancelToken \<in> set sched)"
  using assms(2,3)
proof (induction f sched P rule: pool_run.induct)
  case (1 f sched P)
  show ?case
  proof (cases "first_live P")
    case None
    then show ?thesis using "1.prems"(2) by (simp add: pool_run.simps [of f sched P])
  next
    case (Some d)
    show ?thesis
    proof (cases sched)
      case Nil
      have "pool_inv ts (worker_step f d P)"
        unfolding "1.prems"(1) by (rule worker_step_inv [OF "1.prems"(2) first_live_Some [OF Some] assms(1)])
      from "1.IH"(1) [OF Some Nil "1.prems"(1) this] show ?thesis
        by (subst (1 2 3 4) pool_run.simps) (simp add: Some Nil worker_step_frame)
    next
      case (Cons e es)
      show ?thesis
      proof (cases e)
        case CancelToken
        from "1.IH"(3) [OF Some Cons CancelToken "1.prems"(1) cancel_inv [OF "1.prems"(2)]] show ?thesis
          by (subst (1 2 3 4) pool_run.simps) (simp add: Some Cons CancelToken)
      next
        case (Turn w)
        have "pool_inv ts (if live P w then worker_step f w P else P)"
          unfolding "1.prems"(1) using worker_step_inv [OF "1.prems"(2) _ assms(1)] "1.prems"(2) by simp
        from "1.IH"(2) [OF Some Cons Turn "1.prems"(1) this] show ?thesis
          by (subst (1 2 3 4) pool_run.simps) (simp add: Some Cons Turn worker_step_frame split: if_splits)
      qed
    qed
  qed
qed

lemma pool_inv_final:
  assumes "pool_inv ts P" and "first_live P = None" and "p_workers P \<noteq> []"
  shows "I (p_shared P) \<and> list_all2 (\<lambda>t slot. \<exists>r. slot = Some r \<and> accepted (p_cancelled P) t r) ts (p_results P)"
proof -
  obtain k where k: "\<forall>x \<in> set (p_workers P). worker_inv (p_cancelled P) ts k x" "\<forall>i < k. slot_ok ts P i"
    and l: "length (p_results P) = length ts" "I (p_shared P)"
    using assms(1) unfolding pool_inv_def by blast
  have ex: "\<forall>x \<in> set (p_workers P). x = Exited"
    using assms(2) by (simp add: first_live_None all_set_conv_all_nth)
  moreover have "hd (p_workers P) \<in> set (p_workers P)" using assms(3) by simp
  ultimately have "k = length ts" using k(1) by (fastforce simp: worker_inv_def)
  have "\<not> (\<exists>x \<in> set (p_workers P). holds i x)" for i using ex by (auto simp: holds_def)
  then have "\<exists>r. p_results P ! i = Some r \<and> accepted (p_cancelled P) (ts ! i) r" if "i < length ts" for i
    using k(2) that \<open>k = length ts\<close> unfolding slot_ok_def by (cases "p_results P ! i") auto
  then show ?thesis using l by (simp add: list_all2_conv_all_nth)
qed

lemma run_result:
  assumes "list_all valid tasks" and "I s" and "length tasks \<le> max_tasks"
    and "run_worker_pool par sched cancelled max_workers max_tasks tasks func s = (res, s')"
  shows "I s' \<and> (\<exists>rs. res = Inr rs \<and>
    list_all2 (accepted (cancelled \<or> CancelToken \<in> set sched)) tasks rs)"
proof -
  consider "tasks = []" | t where "tasks = [t]" | "1 < length tasks"
    by (metis One_nat_def length_0_conv length_Suc_conv less_one nat_neq_iff)
  then show ?thesis
  proof cases
    case 1
    then show ?thesis using assms by (auto simp: run_worker_pool_def WorkerPool_run_def)
  next
    case 2
    then show ?thesis
      using assms good_run [OF func_good, of t s] unfolding accepted_def
      by (auto simp: run_worker_pool_def WorkerPool_run_def exec_task_def split: if_splits prod.splits)
  next
    case 3
    let ?P = "\<lparr>p_queue = List.enumerate 0 tasks,
        p_workers = replicate (normalized_worker_count par max_workers (length tasks)) Idle,
        p_results = replicate (length tasks) None, p_cancelled = cancelled, p_shared = s\<rparr>"
    let ?Q = "pool_run func sched ?P"
    have "pool_inv tasks ?P"
      using assms(2) by (auto simp: pool_inv_def worker_inv_def intro!: exI [of _ 0])
    note Q = pool_run_inv [OF assms(1) refl this, of sched]
    have "p_workers ?Q \<noteq> []" using Q by (auto simp: normalized_worker_count_def Let_def)
    then have F: "I (p_shared ?Q)"
        "list_all2 (\<lambda>t slot. \<exists>r. slot = Some r \<and> accepted (p_cancelled ?Q) t r) tasks (p_results ?Q)"
      using pool_inv_final [of tasks ?Q] Q by auto
    have n: "tasks \<noteq> []" "length tasks \<noteq> Suc 0" "max_tasks \<noteq> 0" "\<not> max_tasks < length tasks"
      using 3 assms(3) by auto
    have R: "res = Inr (map (\<lambda>slot. case slot of Some r \<Rightarrow> r | None \<Rightarrow> worker_result_missing_failure) (p_results ?Q))"
        "s' = p_shared ?Q"
      using assms(4) n by (simp_all add: run_worker_pool_def WorkerPool_run_def Let_def)
    have "list_all2 (accepted (cancelled \<or> CancelToken \<in> set sched)) tasks
        (map (\<lambda>slot. case slot of Some r \<Rightarrow> r | None \<Rightarrow> worker_result_missing_failure) (p_results ?Q))"
      unfolding list_all2_map2
      by (rule list_all2_mono [OF F(2)]) (use Q in \<open>auto simp: accepted_def\<close>)
    then show ?thesis using F(1) R by blast
  qed
qed

end



end
