(* ===== verification/State_Result.thy ===== *)
theory State_Result
  imports Base
begin

text \<open>
  Operations that update a state in place and may fail. A Rust method on \<open>&mut self\<close>
  that returns a \<open>Result\<close> is a function from the state to the result and the state
  left behind, which on an error is the state at the point of the error.
\<close>

type_synonym ('s, 'a) st = "'s \<Rightarrow> 'a res \<times> 's"

definition st_lift :: "'a res \<Rightarrow> ('s, 'a) st" where
  "st_lift r = (\<lambda>s. (r, s))"

definition st_bind :: "('s, 'a) st \<Rightarrow> ('a \<Rightarrow> ('s, 'b) st) \<Rightarrow> ('s, 'b) st" where
  "st_bind m f = (\<lambda>s. case m s of (Inl e, s') \<Rightarrow> (Inl e, s') | (Inr x, s') \<Rightarrow> f x s')"

definition st_then :: "('s, 'a) st \<Rightarrow> ('s, 'b) st \<Rightarrow> ('s, 'b) st" where
  "st_then m n = st_bind m (\<lambda>_. n)"

abbreviation st_ok :: "'a \<Rightarrow> ('s, 'a) st" where
  "st_ok x \<equiv> st_lift (Ok x)"

abbreviation st_err :: "ErrorCode \<Rightarrow> string \<Rightarrow> ('s, 'a) st" where
  "st_err c m \<equiv> st_lift (Err c m)"

primrec st_for_each :: "('a \<Rightarrow> ('s, unit) st) \<Rightarrow> 'a list \<Rightarrow> ('s, unit) st" where
  "st_for_each f [] = st_ok ()"
| "st_for_each f (x # xs) = st_then (f x) (st_for_each f xs)"

named_theorems st_simps \<open>how a stateful operation ends\<close>

lemma st_lift_eq [st_simps, simp]: "st_lift r s = (r', s') \<longleftrightarrow> r = r' \<and> s' = s"
  by (auto simp: st_lift_def)

lemma st_bind_Inr [st_simps]:
  "st_bind m f s = (Inr y, s') \<longleftrightarrow> (\<exists>x s1. m s = (Inr x, s1) \<and> f x s1 = (Inr y, s'))"
  by (auto simp: st_bind_def split: prod.splits sum.splits)

lemma st_bind_Inl [st_simps]:
  "st_bind m f s = (Inl e, s') \<longleftrightarrow>
    m s = (Inl e, s') \<or> (\<exists>x s1. m s = (Inr x, s1) \<and> f x s1 = (Inl e, s'))"
  by (auto simp: st_bind_def split: prod.splits sum.splits)

lemma st_then_Inr [st_simps]:
  "st_then m n s = (Inr y, s') \<longleftrightarrow> (\<exists>x s1. m s = (Inr x, s1) \<and> n s1 = (Inr y, s'))"
  by (simp add: st_then_def st_bind_Inr)

lemma st_then_Inl [st_simps]:
  "st_then m n s = (Inl e, s') \<longleftrightarrow>
    m s = (Inl e, s') \<or> (\<exists>x s1. m s = (Inr x, s1) \<and> n s1 = (Inl e, s'))"
  by (simp add: st_then_def st_bind_Inl)

lemma st_bind_run [simp]:
  "m s = (Inr x, s') \<Longrightarrow> st_bind m f s = f x s'"
  "m s = (Inl e, s') \<Longrightarrow> st_bind m f s = (Inl e, s')"
  by (simp_all add: st_bind_def)

lemma st_then_run [simp]:
  "m s = (Inr x, s') \<Longrightarrow> st_then m n s = n s'"
  "m s = (Inl e, s') \<Longrightarrow> st_then m n s = (Inl e, s')"
  by (simp_all add: st_then_def)

text \<open>A relation between states that every step respects is respected by composition.\<close>

definition st_keeps :: "('s \<Rightarrow> 's \<Rightarrow> bool) \<Rightarrow> ('s, 'a) st \<Rightarrow> bool" where
  "st_keeps R m \<longleftrightarrow> (\<forall>s. R s (snd (m s)))"

lemma st_keepsD: "st_keeps R m \<Longrightarrow> m s = (r, s') \<Longrightarrow> R s s'"
  by (metis st_keeps_def snd_conv)

lemma st_keeps_lift: "reflp R \<Longrightarrow> st_keeps R (st_lift r)"
  by (simp add: st_keeps_def st_lift_def reflpD)

lemma st_keeps_bind:
  assumes "transp R" and "st_keeps R m" and "\<And>x. st_keeps R (f x)"
  shows "st_keeps R (st_bind m f)"
  unfolding st_keeps_def
proof
  fix s
  obtain r s1 where m: "m s = (r, s1)" by (rule prod.exhaust)
  show "R s (snd (st_bind m f s))"
  proof (cases r)
    case (Inl e)
    then show ?thesis using m assms(2) by (simp add: st_keepsD)
  next
    case (Inr x)
    have "R s s1" "R s1 (snd (f x s1))" using m assms(2,3) by (auto simp: st_keeps_def dest: spec [of _ s])
    then show ?thesis using m Inr assms(1) by (simp add: transpD [of R s s1])
  qed
qed

lemma st_keeps_then: "transp R \<Longrightarrow> st_keeps R m \<Longrightarrow> st_keeps R n \<Longrightarrow> st_keeps R (st_then m n)"
  by (simp add: st_then_def st_keeps_bind)

lemma st_keeps_for_each:
  "reflp R \<Longrightarrow> transp R \<Longrightarrow> (\<And>x. x \<in> set xs \<Longrightarrow> st_keeps R (f x)) \<Longrightarrow> st_keeps R (st_for_each f xs)"
  by (induction xs) (auto simp: st_keeps_lift st_keeps_then)

lemmas st_keeps_intros = st_keeps_lift st_keeps_bind st_keeps_then st_keeps_for_each

end
