(* ===== verification/Sig_Queue.thy ===== *)
theory Sig_Queue
  imports Verify_Sig Worker_Pool State_Result
begin

text \<open>
  The positive signature cache (\<open>sig_cache.rs\<close>) and the queue of deferred signature
  checks (\<open>sig_queue.rs\<close>). The cache is shared by reference between queues and worker
  threads; a lookup and an insertion are its atomic actions. A panic of the code is
  the outcome \<open>Panicked\<close>, or \<open>None\<close> for a function that otherwise cannot fail.
\<close>

section \<open>The signature cache\<close>

record SigCache =
  sc_entries :: "bytes32 set"
  sc_capacity :: nat
  sc_hits :: u64
  sc_misses :: u64

definition SigCache_new :: "nat \<Rightarrow> SigCache" where
  "SigCache_new capacity = \<lparr>sc_entries = {}, sc_capacity = max capacity 1, sc_hits = 0, sc_misses = 0\<rparr>"

definition sig_cache_preimage :: "u8 \<Rightarrow> bytes \<Rightarrow> bytes \<Rightarrow> bytes32 \<Rightarrow> bytes" where
  "sig_cache_preimage s pk sg digest =
    [s] @ to_le32 (of_nat (length pk)) @ pk @ to_le32 (of_nat (length sg)) @ sg @ digest"

definition sig_cache_key :: "(bytes \<Rightarrow> bytes32) \<Rightarrow> u8 \<Rightarrow> bytes \<Rightarrow> bytes \<Rightarrow> bytes32 \<Rightarrow> bytes32 option" where
  "sig_cache_key H s pk sg digest =
    (if length pk < 2 ^ 32 \<and> length sg < 2 ^ 32 then Some (H (sig_cache_preimage s pk sg digest)) else None)"

definition SigCache_lookup ::
  "(bytes \<Rightarrow> bytes32) \<Rightarrow> u8 \<Rightarrow> bytes \<Rightarrow> bytes \<Rightarrow> bytes32 \<Rightarrow> SigCache \<Rightarrow> (bool \<times> SigCache) option" where
  "SigCache_lookup H s pk sg digest c =
    (case sig_cache_key H s pk sg digest of
       None \<Rightarrow> None
     | Some key \<Rightarrow>
       let ok = (key \<in> sc_entries c) in
       Some (ok, if ok then c\<lparr>sc_hits := sc_hits c + 1\<rparr> else c\<lparr>sc_misses := sc_misses c + 1\<rparr>))"

definition SigCache_insert ::
  "(bytes \<Rightarrow> bytes32) \<Rightarrow> u8 \<Rightarrow> bytes \<Rightarrow> bytes \<Rightarrow> bytes32 \<Rightarrow> SigCache \<Rightarrow> SigCache option" where
  "SigCache_insert H s pk sg digest c =
    (case sig_cache_key H s pk sg digest of
       None \<Rightarrow> None
     | Some key \<Rightarrow>
       Some (if card (sc_entries c) < sc_capacity c then c\<lparr>sc_entries := insert key (sc_entries c)\<rparr> else c))"

definition SigCache_len :: "SigCache \<Rightarrow> nat" where
  "SigCache_len c = card (sc_entries c)"

definition SigCache_reset :: "SigCache \<Rightarrow> SigCache" where
  "SigCache_reset c = c\<lparr>sc_entries := {}, sc_hits := 0, sc_misses := 0\<rparr>"

section \<open>The queue\<close>

definition MAX_SIGCHECK_QUEUE_BYTES :: nat where
  "MAX_SIGCHECK_QUEUE_BYTES = unat MAX_BLOCK_WEIGHT"

definition SIGCHECK_TASK_FIXED_OVERHEAD_BYTES :: nat where
  "SIGCHECK_TASK_FIXED_OVERHEAD_BYTES = 1 + 32 + 1"

definition CURRENT_NATIVE_QUEUE_PAYLOAD_FLOOR_BYTES :: u64 where
  "CURRENT_NATIVE_QUEUE_PAYLOAD_FLOOR_BYTES = ML_DSA_87_PUBKEY_BYTES + ML_DSA_87_SIG_BYTES"

record SigCheckTask =
  t_suite_id :: u8
  t_pubkey :: bytes
  t_sig :: bytes
  t_digest :: bytes32
  err_on_fail :: TxError

record SigVerifyRequest =
  r_suite_id :: u8
  r_pubkey :: bytes
  r_sig :: bytes
  r_digest :: bytes32

record SigCheckQueueMark =
  mk_len :: nat
  mk_queued_bytes :: nat
  registry_was_bound :: bool

record SigCheckQueue =
  q_tasks :: "SigCheckTask list"
  queued_bytes :: nat
  q_registry :: "SuiteRegistry option"
  q_cache :: "SigCache option"
  q_workers :: nat

definition SigCheckQueue_default :: SigCheckQueue where
  "SigCheckQueue_default =
    \<lparr>q_tasks = [], queued_bytes = 0, q_registry = None, q_cache = None, q_workers = 1\<rparr>"

text \<open>\<open>par\<close> is what \<open>available_parallelism\<close> reports, or one where it fails.\<close>

definition SigCheckQueue_new :: "nat \<Rightarrow> nat \<Rightarrow> SigCheckQueue" where
  "SigCheckQueue_new par workers =
    (let workers = (if workers = 0 then par else workers) in
     \<lparr>q_tasks = [], queued_bytes = 0, q_registry = None, q_cache = None, q_workers = max workers 1\<rparr>)"

definition with_registry :: "SigCheckQueue \<Rightarrow> SuiteRegistry \<Rightarrow> SigCheckQueue" where
  "with_registry q reg = q\<lparr>q_registry := Some reg\<rparr>"

definition with_cache :: "SigCheckQueue \<Rightarrow> SigCache \<Rightarrow> SigCheckQueue" where
  "with_cache q c = q\<lparr>q_cache := Some c\<rparr>"

subsection \<open>Budgets\<close>

definition max_sigcheck_queue_tasks :: "SuiteRegistry option \<Rightarrow> nat res" where
  "max_sigcheck_queue_tasks registry =
    (let reg = (case registry of Some reg \<Rightarrow> reg | None \<Rightarrow> default_registry) in
     and_then (map_err (TxError_new TxErrSigAlgInvalid) (min_sigcheck_payload_bytes reg)) (\<lambda>min_payload.
     and_then (ok_or (TxError_new TxErrSigAlgInvalid ''SigCheckQueue registry has no registered suites'')
       min_payload) (\<lambda>min_payload_bytes.
     let effective_min_payload_bytes = max min_payload_bytes CURRENT_NATIVE_QUEUE_PAYLOAD_FLOOR_BYTES in
     and_then (ok_or (TxError_new TxErrWitnessOverflow ''SigCheckQueue task budget footprint overflow'')
       (checked_add (of_nat SIGCHECK_TASK_FIXED_OVERHEAD_BYTES) effective_min_payload_bytes)) (\<lambda>min_task_bytes.
     Ok (unat (of_nat MAX_SIGCHECK_QUEUE_BYTES div min_task_bytes :: u64))))))"

definition ensure_task_budget :: "nat \<Rightarrow> SuiteRegistry option \<Rightarrow> unit res" where
  "ensure_task_budget task_count registry =
    and_then (max_sigcheck_queue_tasks registry) (\<lambda>limit.
    if task_count \<ge> limit then Err TxErrWitnessOverflow ''SigCheckQueue task budget exceeded'' else Ok ())"

definition next_queued_bytes :: "nat \<Rightarrow> nat \<Rightarrow> nat res" where
  "next_queued_bytes current task_bytes =
    and_then (ok_or (TxError_new TxErrWitnessOverflow ''SigCheckQueue queued-byte accounting overflow'')
      (usize_checked_add current task_bytes)) (\<lambda>next.
    if next > MAX_SIGCHECK_QUEUE_BYTES
    then Err TxErrWitnessOverflow ''SigCheckQueue queued-byte budget exceeded'' else Ok next)"

definition sigcheck_task_bytes :: "nat \<Rightarrow> nat \<Rightarrow> nat res" where
  "sigcheck_task_bytes pk_len sg_len =
    ok_or (TxError_new TxErrWitnessOverflow ''SigCheckQueue task footprint overflow'')
      (Option.bind (usize_checked_add SIGCHECK_TASK_FIXED_OVERHEAD_BYTES pk_len)
        (\<lambda>next. usize_checked_add next sg_len))"

subsection \<open>Queueing\<close>

definition queue_push ::
  "u8 \<Rightarrow> bytes \<Rightarrow> bytes \<Rightarrow> bytes32 \<Rightarrow> TxError \<Rightarrow> (SigCheckQueue, unit) st" where
  "queue_push s pk sg digest err q =
    (case and_then (ensure_task_budget (length (q_tasks q)) (q_registry q)) (\<lambda>_.
       and_then (sigcheck_task_bytes (length pk) (length sg)) (next_queued_bytes (queued_bytes q))) of
       Inl e \<Rightarrow> (Inl e, q)
     | Inr next \<Rightarrow>
       (Ok (), q\<lparr>queued_bytes := next,
         q_tasks := q_tasks q @ [\<lparr>t_suite_id = s, t_pubkey = pk, t_sig = sg, t_digest = digest,
           err_on_fail = err\<rparr>]\<rparr>))"

definition queue_len :: "SigCheckQueue \<Rightarrow> nat" where
  "queue_len q = length (q_tasks q)"

definition assert_flushed :: "SigCheckQueue \<Rightarrow> unit res" where
  "assert_flushed q = (if q_tasks q = [] then Ok () else Err TxErrSigInvalid ''SigCheckQueue has unflushed tasks'')"

definition queue_mark :: "SigCheckQueue \<Rightarrow> SigCheckQueueMark" where
  "queue_mark q = \<lparr>mk_len = length (q_tasks q), mk_queued_bytes = queued_bytes q,
     registry_was_bound = (q_registry q \<noteq> None)\<rparr>"

definition rollback_to :: "SigCheckQueue \<Rightarrow> SigCheckQueueMark \<Rightarrow> SigCheckQueue" where
  "rollback_to q m =
    (let q = q\<lparr>q_tasks := take (mk_len m) (q_tasks q), queued_bytes := mk_queued_bytes m\<rparr> in
     if \<not> registry_was_bound m then q\<lparr>q_registry := None\<rparr> else q)"

definition ensure_registry :: "SuiteRegistry \<Rightarrow> (SigCheckQueue, unit) st" where
  "ensure_registry reg q =
    (case q_registry q of
       Some current \<Rightarrow>
         if current \<noteq> reg then (Err TxErrSigAlgInvalid ''SigCheckQueue registry mismatch'', q) else (Ok (), q)
     | None \<Rightarrow> (Ok (), q\<lparr>q_registry := Some reg\<rparr>))"

text \<open>With a queue the check is queued; without one it is made at once.\<close>

definition check_signature ::
  "OpenSSL \<Rightarrow> u8 \<Rightarrow> bytes \<Rightarrow> bytes \<Rightarrow> bytes32 \<Rightarrow> SuiteRegistry option \<Rightarrow> TxError \<Rightarrow> unit res" where
  "check_signature ssl s pk sg digest registry err =
    and_then (verify_sig_with_registry ssl s pk sg digest registry) (\<lambda>ok. if \<not> ok then Inl err else Ok ())"

definition queue_or_verify_signature ::
  "OpenSSL \<Rightarrow> u8 \<Rightarrow> bytes \<Rightarrow> bytes \<Rightarrow> bytes32 \<Rightarrow> SuiteRegistry \<Rightarrow> TxError \<Rightarrow> (SigCheckQueue option, unit) st" where
  "queue_or_verify_signature ssl s pk sg digest reg err sig_queue =
    (case sig_queue of
       Some q \<Rightarrow> apsnd Some (st_then (ensure_registry reg) (queue_push s pk sg digest err) q)
     | None \<Rightarrow> (check_signature ssl s pk sg digest (Some reg) err, None))"

subsection \<open>Checking the queue\<close>

text \<open>The body of a queued check, as atomic actions on the shared cache.\<close>

type_synonym task_prog = "(SigCache option, (unit, TxError) outcome) prog"

definition queued_task_insert :: "(bytes \<Rightarrow> bytes32) \<Rightarrow> SigCheckTask \<Rightarrow> task_prog" where
  "queued_task_insert H t = Act (\<lambda>cache. case cache of
      None \<Rightarrow> (Done (Returned (Ok ())), None)
    | Some c \<Rightarrow> (case SigCache_insert H (t_suite_id t) (t_pubkey t) (t_sig t) (t_digest t) c of
        None \<Rightarrow> (Done Panicked, Some c)
      | Some c' \<Rightarrow> (Done (Returned (Ok ())), Some c')))"

definition queued_task_verify ::
  "OpenSSL \<Rightarrow> (bytes \<Rightarrow> bytes32) \<Rightarrow> SuiteRegistry option \<Rightarrow> SigCheckTask \<Rightarrow> task_prog" where
  "queued_task_verify ssl H registry t =
    (case verify_sig_with_registry ssl (t_suite_id t) (t_pubkey t) (t_sig t) (t_digest t) registry of
       Inl e \<Rightarrow> Done (Returned (Inl e))
     | Inr ok \<Rightarrow> if \<not> ok then Done (Returned (Inl (err_on_fail t))) else queued_task_insert H t)"

definition queued_task_prog ::
  "OpenSSL \<Rightarrow> (bytes \<Rightarrow> bytes32) \<Rightarrow> SuiteRegistry option \<Rightarrow> SigCheckTask \<Rightarrow> task_prog" where
  "queued_task_prog ssl H registry t = Act (\<lambda>cache. case cache of
      None \<Rightarrow> (queued_task_verify ssl H registry t, None)
    | Some c \<Rightarrow> (case SigCache_lookup H (t_suite_id t) (t_pubkey t) (t_sig t) (t_digest t) c of
        None \<Rightarrow> (Done Panicked, Some c)
      | Some (hit, c') \<Rightarrow>
          if hit then (Done (Returned (Ok ())), Some c')
          else (queued_task_verify ssl H registry t, Some c')))"

definition verify_queued_task ::
  "OpenSSL \<Rightarrow> (bytes \<Rightarrow> bytes32) \<Rightarrow> SigCheckTask \<Rightarrow> SuiteRegistry option \<Rightarrow> SigCache option \<Rightarrow>
   (unit, TxError) outcome \<times> SigCache option" where
  "verify_queued_task ssl H t registry cache = run_prog (queued_task_prog ssl H registry t) cache"

fun reduce_queued_task_results :: "(unit, TxError) WorkerResult list \<Rightarrow> unit res" where
  "reduce_queued_task_results [] = Ok ()"
| "reduce_queued_task_results (r # rs) =
    (case wr_error r of
       Some (Task err) \<Rightarrow> Inl err
     | Some (Panic _) \<Rightarrow> Err TxErrSigInvalid ''signature worker panic (fail-closed)''
     | Some Cancelled \<Rightarrow> reduce_queued_task_results rs
     | None \<Rightarrow> reduce_queued_task_results rs)"

definition worker_pool_sigcheck_error_to_tx_error :: "TxError WorkerPoolError \<Rightarrow> TxError" where
  "worker_pool_sigcheck_error_to_tx_error e = (case e of
     Task err \<Rightarrow> err
   | Cancelled \<Rightarrow> TxError_new TxErrSigInvalid ''signature worker canceled (fail-closed)''
   | Panic _ \<Rightarrow> TxError_new TxErrSigInvalid ''signature worker panic (fail-closed)'')"

definition sigcheck_batch_run_error_to_tx_error :: "WorkerPoolRunError \<Rightarrow> TxError" where
  "sigcheck_batch_run_error_to_tx_error e = (case e of
     InvalidMaxTasks \<Rightarrow> TxError_new TxErrSigInvalid ''signature batch worker pool misconfigured''
   | TooManyTasks _ _ \<Rightarrow> TxError_new TxErrWitnessOverflow ''signature batch task budget exceeded'')"

text \<open>
  The cancellation token of a batch is created for it and shared with nobody, so the
  schedule consists of the turns of the workers only.
\<close>

definition verify_queued_tasks_batch ::
  "nat \<Rightarrow> nat list \<Rightarrow> OpenSSL \<Rightarrow> (bytes \<Rightarrow> bytes32) \<Rightarrow> SigCheckTask list \<Rightarrow> nat \<Rightarrow> SuiteRegistry option \<Rightarrow>
   SigCache option \<Rightarrow> unit res \<times> SigCache option" where
  "verify_queued_tasks_batch par sched ssl H tasks workers registry cache =
    (case run_worker_pool par (map Turn sched) False workers (length tasks) tasks (queued_task_prog ssl H registry) cache of
       (Inl e, cache') \<Rightarrow> (Inl (sigcheck_batch_run_error_to_tx_error e), cache')
     | (Inr results, cache') \<Rightarrow> (reduce_queued_task_results results, cache'))"

fun verify_queue_loop ::
  "OpenSSL \<Rightarrow> (bytes \<Rightarrow> bytes32) \<Rightarrow> SuiteRegistry option \<Rightarrow> SigCheckTask list \<Rightarrow> SigCache option \<Rightarrow>
   (unit, TxError) outcome \<times> SigCache option" where
  "verify_queue_loop ssl H registry [] cache = (Returned (Ok ()), cache)"
| "verify_queue_loop ssl H registry (t # ts) cache =
    (case verify_queued_task ssl H t registry cache of
       (Returned (Inr _), cache') \<Rightarrow> verify_queue_loop ssl H registry ts cache'
     | (v, cache') \<Rightarrow> (v, cache'))"

definition queue_flush ::
  "nat \<Rightarrow> nat list \<Rightarrow> OpenSSL \<Rightarrow> (bytes \<Rightarrow> bytes32) \<Rightarrow> SigCheckQueue \<Rightarrow>
   (unit, TxError) outcome \<times> SigCheckQueue" where
  "queue_flush par sched ssl H q =
    (if q_tasks q = [] then (Returned (Ok ()), q)
     else
     let tasks = q_tasks q; q = q\<lparr>q_tasks := [], queued_bytes := 0\<rparr>;
         (v, cache) =
           (if length tasks = 1 \<or> q_workers q \<le> 1
            then verify_queue_loop ssl H (q_registry q) tasks (q_cache q)
            else apfst Returned (verify_queued_tasks_batch par sched ssl H tasks (q_workers q) (q_registry q) (q_cache q))) in
     (v, q\<lparr>q_cache := cache\<rparr>))"

definition verify_request_prog :: "OpenSSL \<Rightarrow> SigVerifyRequest \<Rightarrow> (unit, (unit, TxError) outcome) prog" where
  "verify_request_prog ssl t =
    Done (Returned (check_signature ssl (r_suite_id t) (r_pubkey t) (r_sig t) (r_digest t) (Some default_registry)
      (TxError_new TxErrSigInvalid ''batch: signature invalid'')))"

definition verify_signatures_batch_with_limit ::
  "nat \<Rightarrow> nat list \<Rightarrow> OpenSSL \<Rightarrow> SigVerifyRequest list \<Rightarrow> nat \<Rightarrow> nat \<Rightarrow> TxError option list" where
  "verify_signatures_batch_with_limit par sched ssl tasks workers max_tasks =
    (case fst (run_worker_pool par (map Turn sched) False workers max_tasks tasks (verify_request_prog ssl) ()) of
       Inr results \<Rightarrow> map (\<lambda>r. map_option worker_pool_sigcheck_error_to_tx_error (wr_error r)) results
     | Inl run_err \<Rightarrow> replicate (length tasks) (Some (sigcheck_batch_run_error_to_tx_error run_err)))"

definition verify_signatures_batch ::
  "nat \<Rightarrow> nat list \<Rightarrow> OpenSSL \<Rightarrow> SigVerifyRequest list \<Rightarrow> nat \<Rightarrow> TxError option list" where
  "verify_signatures_batch par sched ssl tasks workers =
    (if tasks = [] then [] else verify_signatures_batch_with_limit par sched ssl tasks workers (length tasks))"

section \<open>The cache is transparent\<close>

text \<open>The outcome of a queued check, without the cache.\<close>

definition task_check :: "OpenSSL \<Rightarrow> SuiteRegistry option \<Rightarrow> SigCheckTask \<Rightarrow> unit res" where
  "task_check ssl registry t =
    check_signature ssl (t_suite_id t) (t_pubkey t) (t_sig t) (t_digest t) registry (err_on_fail t)"

definition task_args :: "SigCheckTask \<Rightarrow> u8 \<times> bytes \<times> bytes \<times> bytes32" where
  "task_args t = (t_suite_id t, t_pubkey t, t_sig t, t_digest t)"

definition preimage_of :: "u8 \<times> bytes \<times> bytes \<times> bytes32 \<Rightarrow> bytes" where
  "preimage_of = (\<lambda>(s, pk, sg, d). sig_cache_preimage s pk sg d)"

text \<open>Every entry of the cache that belongs to a check of \<open>U\<close> belongs to one that passes.\<close>

definition cache_sound ::
  "OpenSSL \<Rightarrow> (bytes \<Rightarrow> bytes32) \<Rightarrow> SuiteRegistry option \<Rightarrow> (u8 \<times> bytes \<times> bytes \<times> bytes32) set \<Rightarrow>
   SigCache option \<Rightarrow> bool" where
  "cache_sound ssl H registry U cache \<longleftrightarrow> (case cache of None \<Rightarrow> True | Some c \<Rightarrow>
    \<forall>(s, pk, sg, d) \<in> U. H (sig_cache_preimage s pk sg d) \<in> sc_entries c \<longrightarrow>
      verify_sig_with_registry ssl s pk sg d registry = Ok True)"

definition args_fit :: "u8 \<times> bytes \<times> bytes \<times> bytes32 \<Rightarrow> bool" where
  "args_fit = (\<lambda>(s, pk, sg, d). length pk < 2 ^ 32 \<and> length sg < 2 ^ 32)"

lemma le32_len_inject:
  assumes "to_le32 (of_nat m) = to_le32 (of_nat n)" and "m < 2 ^ 32" and "n < 2 ^ 32"
  shows "m = n"
proof -
  have "(of_nat m :: u32) = of_nat n" using assms(1) by simp
  then have "unat (of_nat m :: u32) = unat (of_nat n :: u32)" by simp
  then show ?thesis using assms(2,3) by (simp add: unat_of_nat take_bit_nat_eq_self)
qed

lemma preimage_of_inject:
  assumes "preimage_of a = preimage_of b" and "args_fit a" and "args_fit b"
  shows "a = b"
proof -
  obtain s pk sg d where a: "a = (s, pk, sg, d)" by (metis surj_pair)
  obtain s' pk' sg' d' where b: "b = (s', pk', sg', d')" by (metis surj_pair)
  let ?n = "\<lambda>x. to_le32 (of_nat (length x))"
  have e: "s = s'" "?n pk @ pk @ ?n sg @ sg @ d = ?n pk' @ pk' @ ?n sg' @ sg' @ d'"
    using assms(1) by (auto simp: a b preimage_of_def sig_cache_preimage_def)
  have fit: "length pk < 2 ^ 32" "length pk' < 2 ^ 32" "length sg < 2 ^ 32" "length sg' < 2 ^ 32"
    using assms(2,3) by (auto simp: a b args_fit_def)
  have "?n pk = ?n pk'" and r: "pk @ ?n sg @ sg @ d = pk' @ ?n sg' @ sg' @ d'"
    using e(2) by (auto simp: append_eq_append_conv)
  then have "length pk = length pk'" using fit(1,2) le32_len_inject by blast
  then have pk: "pk = pk'" and "?n sg = ?n sg'" and r: "sg @ d = sg' @ d'"
    using r by (auto simp: append_eq_append_conv)
  then have "length sg = length sg'" using fit(3,4) le32_len_inject by blast
  then show ?thesis using r pk e(1) by (simp add: a b)
qed

lemma cache_sound_lookup:
  assumes "cache_sound ssl H registry U (Some c)" and "(s, pk, sg, d) \<in> U" and "args_fit (s, pk, sg, d)"
  obtains hit c' where "SigCache_lookup H s pk sg d c = Some (hit, c')"
    and "cache_sound ssl H registry U (Some c')"
    and "hit \<Longrightarrow> verify_sig_with_registry ssl s pk sg d registry = Ok True"
proof (rule that)
  let ?hit = "H (sig_cache_preimage s pk sg d) \<in> sc_entries c"
  let ?c = "if ?hit then c\<lparr>sc_hits := sc_hits c + 1\<rparr> else c\<lparr>sc_misses := sc_misses c + 1\<rparr>"
  show "SigCache_lookup H s pk sg d c = Some (?hit, ?c)"
    using assms(3) by (simp add: SigCache_lookup_def sig_cache_key_def args_fit_def Let_def)
  show "cache_sound ssl H registry U (Some ?c)"
    using assms(1) by (simp add: cache_sound_def)
  show "verify_sig_with_registry ssl s pk sg d registry = Ok True" if ?hit
    using assms(1,2) that by (auto simp: cache_sound_def)
qed

lemma cache_sound_insert:
  assumes "cache_sound ssl H registry U (Some c)" and "a \<in> U" and "a = (s, pk, sg, d)"
    and fit: "\<And>a. a \<in> U \<Longrightarrow> args_fit a" and inj: "inj_on H (preimage_of ` U)"
    and ok: "verify_sig_with_registry ssl s pk sg d registry = Ok True"
  obtains c' where "SigCache_insert H s pk sg d c = Some c'" and "cache_sound ssl H registry U (Some c')"
proof (rule that)
  let ?k = "H (sig_cache_preimage s pk sg d)"
  let ?c = "if card (sc_entries c) < sc_capacity c then c\<lparr>sc_entries := insert ?k (sc_entries c)\<rparr> else c"
  show "SigCache_insert H s pk sg d c = Some ?c"
    using fit [OF assms(2)] by (simp add: SigCache_insert_def sig_cache_key_def args_fit_def assms(3))
  have "b = a" if "b \<in> U" "H (preimage_of b) = H (preimage_of a)" for b
    using inj_onD [OF inj that(2)] that(1) assms(2) fit preimage_of_inject by (metis imageI)
  then have "b = (s, pk, sg, d)" if "b \<in> U" "H (preimage_of b) = ?k" for b
    using that by (simp add: assms(3) preimage_of_def)
  then have "cache_sound ssl H registry U (Some (c\<lparr>sc_entries := insert ?k (sc_entries c)\<rparr>))"
    using assms(1) ok by (fastforce simp: cache_sound_def preimage_of_def)
  then show "cache_sound ssl H registry U (Some ?c)" using assms(1) by simp
qed

lemma task_check_passes:
  "verify_sig_with_registry ssl (t_suite_id t) (t_pubkey t) (t_sig t) (t_digest t) registry = Ok True \<Longrightarrow>
    task_check ssl registry t = Ok ()"
  by (simp add: task_check_def check_signature_def)

lemma queued_task_good:
  assumes t: "task_args t \<in> U" and fit: "\<And>a. a \<in> U \<Longrightarrow> args_fit a" and inj: "inj_on H (preimage_of ` U)"
  shows "good (cache_sound ssl H registry U) (Returned (task_check ssl registry t)) (queued_task_prog ssl H registry t)"
proof -
  let ?I = "cache_sound ssl H registry U" and ?v = "Returned (task_check ssl registry t)"
  have ins: "good ?I ?v (queued_task_insert H t)"
    if ok: "verify_sig_with_registry ssl (t_suite_id t) (t_pubkey t) (t_sig t) (t_digest t) registry = Ok True"
    unfolding queued_task_insert_def good_simps
  proof (intro allI impI)
    fix cache assume I: "?I cache"
    let ?r = "case cache of None \<Rightarrow> (Done (Returned (Ok ())), None)
      | Some c \<Rightarrow> (case SigCache_insert H (t_suite_id t) (t_pubkey t) (t_sig t) (t_digest t) c of
          None \<Rightarrow> (Done Panicked, Some c) | Some c' \<Rightarrow> (Done (Returned (Ok ())), Some c'))"
    show "good ?I ?v (fst ?r) \<and> ?I (snd ?r)"
    proof (cases cache)
      case None
      then show ?thesis using I task_check_passes [OF ok] by simp
    next
      case (Some c)
      with I obtain c' where "SigCache_insert H (t_suite_id t) (t_pubkey t) (t_sig t) (t_digest t) c = Some c'"
          "?I (Some c')"
        using cache_sound_insert [OF _ t task_args_def fit inj ok] by blast
      then show ?thesis using task_check_passes [OF ok] Some by simp
    qed
  qed
  have v: "good ?I ?v (queued_task_verify ssl H registry t)"
    using ins by (auto simp: queued_task_verify_def task_check_def check_signature_def split: sum.split)
  show ?thesis unfolding queued_task_prog_def good_simps
  proof (intro allI impI)
    fix cache assume I: "?I cache"
    let ?r = "case cache of None \<Rightarrow> (queued_task_verify ssl H registry t, None)
      | Some c \<Rightarrow> (case SigCache_lookup H (t_suite_id t) (t_pubkey t) (t_sig t) (t_digest t) c of
          None \<Rightarrow> (Done Panicked, Some c)
        | Some (hit, c') \<Rightarrow> if hit then (Done (Returned (Ok ())), Some c')
            else (queued_task_verify ssl H registry t, Some c'))"
    show "good ?I ?v (fst ?r) \<and> ?I (snd ?r)"
    proof (cases cache)
      case None
      then show ?thesis using I v by simp
    next
      case (Some c)
      have "args_fit (task_args t)" using fit t by blast
      with I t Some obtain hit c' where
          "SigCache_lookup H (t_suite_id t) (t_pubkey t) (t_sig t) (t_digest t) c = Some (hit, c')" "?I (Some c')"
          "hit \<Longrightarrow> verify_sig_with_registry ssl (t_suite_id t) (t_pubkey t) (t_sig t) (t_digest t) registry = Ok True"
        unfolding task_args_def using cache_sound_lookup by blast
      then show ?thesis using Some v task_check_passes by auto
    qed
  qed
qed

text \<open>
  The universe of checks that the interpretation of the pool is about: nothing is
  assumed when the hash collides on it or some length does not fit.
\<close>

definition universe_ok :: "(bytes \<Rightarrow> bytes32) \<Rightarrow> (u8 \<times> bytes \<times> bytes \<times> bytes32) set \<Rightarrow> bool" where
  "universe_ok H U \<longleftrightarrow> (\<forall>a \<in> U. args_fit a) \<and> inj_on H (preimage_of ` U)"

interpretation sq: pool_tasks "queued_task_prog ssl H registry" "cache_sound ssl H registry U"
    "\<lambda>t. Returned (task_check ssl registry t)" "\<lambda>t. task_args t \<in> U \<and> universe_ok H U"
  for ssl H registry U
  by unfold_locales (auto simp: universe_ok_def intro: queued_task_good)

interpretation vr: pool_tasks "verify_request_prog ssl" "\<lambda>_. True"
    "\<lambda>t. Returned (check_signature ssl (r_suite_id t) (r_pubkey t) (r_sig t) (r_digest t) (Some default_registry)
      (TxError_new TxErrSigInvalid ''batch: signature invalid''))" "\<lambda>_. True"
  for ssl
  by unfold_locales (simp add: verify_request_prog_def)

section \<open>A flush returns the first failure\<close>

lemma reduce_results:
  "list_all2 (\<lambda>t r. r = outcome_result (Returned (f t))) ts rs \<Longrightarrow>
    reduce_queued_task_results rs = try_for_each f ts"
proof (induction ts arbitrary: rs)
  case (Cons t ts)
  then obtain r' rs' where "rs = r' # rs'" "r' = outcome_result (Returned (f t))"
      "reduce_queued_task_results rs' = try_for_each f ts"
    by (auto simp: list_all2_Cons1)
  then show ?case
    by (cases "f t") (auto simp: outcome_result_def WorkerResult_success_def WorkerResult_failure_def)
qed simp

lemma verify_queue_loop_spec:
  assumes U: "universe_ok H U" and "task_args ` set ts \<subseteq> U" and "cache_sound ssl H registry U cache"
  shows "\<exists>cache'. verify_queue_loop ssl H registry ts cache =
      (Returned (try_for_each (task_check ssl registry) ts), cache') \<and> cache_sound ssl H registry U cache'"
  using assms(2,3)
proof (induction ts arbitrary: cache)
  case (Cons t ts)
  have "good (cache_sound ssl H registry U) (Returned (task_check ssl registry t)) (queued_task_prog ssl H registry t)"
    using U Cons.prems(1) sq.func_good by simp
  from good_run [OF this Cons.prems(2)] obtain cache' where
      c: "verify_queued_task ssl H t registry cache = (Returned (task_check ssl registry t), cache')"
        "cache_sound ssl H registry U cache'"
    unfolding verify_queued_task_def by (metis prod.collapse)
  show ?case
    using c Cons.IH [of cache'] Cons.prems(1) by (cases "task_check ssl registry t") auto
qed simp

lemma verify_batch_spec:
  assumes U: "universe_ok H U" and "task_args ` set ts \<subseteq> U" and "cache_sound ssl H registry U cache"
  shows "\<exists>cache'. verify_queued_tasks_batch par sched ssl H ts workers registry cache =
      (try_for_each (task_check ssl registry) ts, cache') \<and> cache_sound ssl H registry U cache'"
proof -
  obtain res cache' where r: "run_worker_pool par (map Turn sched) False workers (length ts) ts
      (queued_task_prog ssl H registry) cache = (res, cache')" by (rule prod.exhaust)
  have "list_all (\<lambda>t. task_args t \<in> U \<and> universe_ok H U) ts"
    using U assms(2) by (auto simp: list_all_iff)
  from sq.run_result [OF this assms(3) order_refl r] obtain rs where
    "cache_sound ssl H registry U cache'" "res = Inr rs"
    "list_all2 (sq.accepted ssl registry (False \<or> CancelToken \<in> set (map Turn sched))) ts rs" by blast
  moreover from this(3) have "list_all2 (\<lambda>t r. r = outcome_result (Returned (task_check ssl registry t))) ts rs"
    by (rule list_all2_mono) (auto simp: sq.accepted_def)
  ultimately show ?thesis using r by (simp add: verify_queued_tasks_batch_def reduce_results)
qed

lemma queue_flush_spec:
  assumes "universe_ok H U" and "task_args ` set (q_tasks q) \<subseteq> U"
    and "cache_sound ssl H (q_registry q) U (q_cache q)"
  shows "\<exists>cache'. queue_flush par sched ssl H q =
      (Returned (try_for_each (task_check ssl (q_registry q)) (q_tasks q)),
       q\<lparr>q_tasks := [], queued_bytes := if q_tasks q = [] then queued_bytes q else 0, q_cache := cache'\<rparr>) \<and>
    cache_sound ssl H (q_registry q) U cache'"
proof (cases "q_tasks q = []")
  case True
  then show ?thesis using assms(3) by (auto simp: queue_flush_def intro!: exI [of _ "q_cache q"])
next
  case False
  then show ?thesis
    using verify_queue_loop_spec [OF assms] verify_batch_spec [OF assms, of par sched "q_workers q"]
    by (cases "length (q_tasks q) = 1 \<or> q_workers q \<le> 1") (auto simp: queue_flush_def Let_def)
qed

text \<open>Without a cache nothing is assumed of the hash.\<close>

lemma queue_loop_no_cache:
  "verify_queue_loop ssl H registry ts None = (Returned (try_for_each (task_check ssl registry) ts), None)"
proof (induction ts)
  case (Cons t ts)
  have "verify_queued_task ssl H t registry None = (Returned (task_check ssl registry t), None)"
    by (auto simp: verify_queued_task_def queued_task_prog_def queued_task_verify_def queued_task_insert_def
        task_check_def check_signature_def split: sum.split)
  then show ?case using Cons by (cases "task_check ssl registry t") auto
qed simp

interpretation nc: pool_tasks "queued_task_prog ssl H registry" "\<lambda>cache. cache = None"
    "\<lambda>t. Returned (task_check ssl registry t)" "\<lambda>_. True"
  for ssl H registry
  by unfold_locales
    (auto simp: queued_task_prog_def queued_task_verify_def queued_task_insert_def task_check_def check_signature_def
      split: sum.split)

lemma flush_no_cache:
  assumes "q_cache q = None"
  shows "fst (queue_flush par sched ssl H q) = Returned (try_for_each (task_check ssl (q_registry q)) (q_tasks q))"
proof -
  obtain res cache' where r: "run_worker_pool par (map Turn sched) False (q_workers q) (length (q_tasks q)) (q_tasks q)
      (queued_task_prog ssl H (q_registry q)) None = (res, cache')" by (rule prod.exhaust)
  have "list_all (\<lambda>_. True) (q_tasks q)" by (simp add: list_all_iff)
  from nc.run_result [OF this refl order_refl r] obtain rs where
    "res = Inr rs" "list_all2 (nc.accepted ssl (q_registry q) (False \<or> CancelToken \<in> set (map Turn sched))) (q_tasks q) rs" by blast
  moreover from this(2) have
    "list_all2 (\<lambda>t r. r = outcome_result (Returned (task_check ssl (q_registry q) t))) (q_tasks q) rs"
    by (rule list_all2_mono) (auto simp: nc.accepted_def)
  ultimately have "fst (verify_queued_tasks_batch par sched ssl H (q_tasks q) (q_workers q) (q_registry q) None) =
      try_for_each (task_check ssl (q_registry q)) (q_tasks q)"
    using r by (simp add: verify_queued_tasks_batch_def reduce_results)
  then show ?thesis using assms
    by (simp add: queue_flush_def queue_loop_no_cache Let_def case_prod_beta del: try_for_each_Inr)
qed

text \<open>
  C13: flushing the queue gives the same result however many workers run, in whatever
  order they interleave, and whether or not a cache is attached: the first failure
  in submission order of the plain checks, or success when all of them pass. The
  tasks are gone, and the cache still holds only signatures that pass. The hash is
  assumed not to collide on the checks considered, whose keys and signatures are
  shorter than \<open>2 ^ 32\<close>, and the cache to be sound on them to begin with.
\<close>

theorem flush_returns_first_failure:
  assumes "universe_ok H U" and "task_args ` set (q_tasks q) \<subseteq> U"
    and "cache_sound ssl H (q_registry q) U (q_cache q)"
  shows "\<exists>cache'. queue_flush par sched ssl H q =
      (Returned (try_for_each (task_check ssl (q_registry q)) (q_tasks q)),
       q\<lparr>q_tasks := [], queued_bytes := if q_tasks q = [] then queued_bytes q else 0, q_cache := cache'\<rparr>) \<and>
    cache_sound ssl H (q_registry q) U cache'"
  using queue_flush_spec [OF assms] .

text \<open>A library in which exactly the signatures that start with a one are valid.\<close>

definition demo_ssl :: OpenSSL where
  "demo_ssl = \<lparr>OPENSSL_init_crypto = 1, EVP_SIGNATURE_fetch = \<lambda>_ _. True,
    EVP_PKEY_new_raw_public_key_ex = \<lambda>_ _. True, EVP_MD_CTX_new = True,
    EVP_DigestVerifyInit_ex = \<lambda>_ _. 1, EVP_DigestVerify = \<lambda>_ _ sg _. if hd sg = 1 then 1 else 0\<rparr>"

definition demo_task :: "u8 \<Rightarrow> string \<Rightarrow> SigCheckTask" where
  "demo_task b msg = \<lparr>t_suite_id = 1, t_pubkey = replicate 2592 0, t_sig = b # replicate 4626 0,
    t_digest = replicate 32 7, err_on_fail = TxError_new TxErrSigInvalid msg\<rparr>"

lemma demo_verify:
  "d \<noteq> [] \<Longrightarrow> verify_sig_with_registry demo_ssl 1 (replicate 2592 0) (b # replicate 4626 0) d None = Ok (b = 1)"
  by (simp add: verify_sig_with_registry_def runtime_suite_params_for_verification_def
      runtime_suite_params_for_verification_with_default_def runtime_verification_registry_with_default_def
      default_registry_def registry_lookup_def bt_get_def ml_dsa_87_params_def resolve_binding
      is_canonical_default_live_manifest_def
      verify_sig_with_binding_def ensure_openssl_consensus_init_def openssl_consensus_bootstrap_def
      map_openssl_init_rc_def openssl_check_sigalg_def openssl_verify_sig_digest_oneshot_def
      map_digest_verify_rc_def demo_ssl_def const_defs)

lemma demo_task_check:
  "task_check demo_ssl None (demo_task b msg) = (if b = 1 then Ok () else Err TxErrSigInvalid msg)"
  by (simp add: task_check_def check_signature_def demo_task_def demo_verify)

theorem flush_returns_first_failure_witness:
  "fst (queue_flush 4 [1, 0, 0, 1, 1] demo_ssl id
      \<lparr>q_tasks = [demo_task 1 ''a'', demo_task 2 ''b'', demo_task 3 ''c''], queued_bytes = 21759, q_registry = None,
       q_cache = Some (SigCache_new 8), q_workers = 2\<rparr>) = Returned (Err TxErrSigInvalid ''b'')"
proof -
  let ?ts = "[demo_task 1 ''a'', demo_task 2 ''b'', demo_task 3 ''c'']"
  let ?q = "\<lparr>q_tasks = ?ts, queued_bytes = 21759, q_registry = None,
       q_cache = Some (SigCache_new 8), q_workers = 2\<rparr>"
  have "universe_ok id (task_args ` set ?ts)"
    by (simp add: universe_ok_def args_fit_def task_args_def demo_task_def)
  moreover have "cache_sound demo_ssl id None (task_args ` set ?ts) (Some (SigCache_new 8))"
    by (simp add: cache_sound_def SigCache_new_def)
  ultimately have "\<exists>cache'. queue_flush 4 [1, 0, 0, 1, 1] demo_ssl id ?q =
      (Returned (try_for_each (task_check demo_ssl None) ?ts),
       ?q\<lparr>q_tasks := [], queued_bytes := 0, q_cache := cache'\<rparr>)"
    using flush_returns_first_failure [of id "task_args ` set ?ts" ?q demo_ssl 4 "[1, 0, 0, 1, 1]"] by auto
  then show ?thesis by (auto simp: demo_task_check)
qed

section \<open>Accounting and rollback\<close>

definition task_bytes :: "SigCheckTask \<Rightarrow> nat" where
  "task_bytes t = 34 + length (t_pubkey t) + length (t_sig t)"

definition queue_ok :: "SigCheckQueue \<Rightarrow> bool" where
  "queue_ok q \<longleftrightarrow> queued_bytes q = sum_list (map task_bytes (q_tasks q)) \<and>
    queued_bytes q \<le> MAX_SIGCHECK_QUEUE_BYTES \<and> length (q_tasks q) \<le> 9375 \<and> 1 \<le> q_workers q"

definition mark_ok :: "SigCheckQueue \<Rightarrow> SigCheckQueueMark \<Rightarrow> bool" where
  "mark_ok q m \<longleftrightarrow> mk_len m \<le> length (q_tasks q) \<and>
    mk_queued_bytes m = sum_list (map task_bytes (take (mk_len m) (q_tasks q))) \<and>
    (registry_was_bound m \<longrightarrow> q_registry q \<noteq> None)"

text \<open>\<open>q'\<close> is \<open>q\<close> with more tasks, and its registry bound if it was not.\<close>

definition extends :: "SigCheckQueue \<Rightarrow> SigCheckQueue \<Rightarrow> bool" where
  "extends q q' \<longleftrightarrow> (\<exists>ts. q_tasks q' = q_tasks q @ ts) \<and> q_cache q' = q_cache q \<and> q_workers q' = q_workers q \<and>
    (q_registry q \<noteq> None \<longrightarrow> q_registry q' = q_registry q)"

lemma extends_order: "reflp extends" "transp extends"
  by (auto simp: extends_def reflp_def transp_def)

lemma rollback_extends:
  "extends q q' \<Longrightarrow> rollback_to q' (queue_mark q) = q"
  by (cases q; cases q') (auto simp: extends_def rollback_to_def queue_mark_def Let_def)

lemma task_limit:
  assumes "max_sigcheck_queue_tasks registry = Ok limit"
  shows "limit \<le> 9375"
proof -
  obtain x p where p: "checked_add 34 (max x CURRENT_NATIVE_QUEUE_PAYLOAD_FLOOR_BYTES) = Some p"
      "limit = unat (68000000 div p :: u64)"
    using assms
    by (auto simp: max_sigcheck_queue_tasks_def Let_def SIGCHECK_TASK_FIXED_OVERHEAD_BYTES_def
        MAX_SIGCHECK_QUEUE_BYTES_def)
  have "unat CURRENT_NATIVE_QUEUE_PAYLOAD_FLOOR_BYTES = 7219"
    by (simp add: CURRENT_NATIVE_QUEUE_PAYLOAD_FLOOR_BYTES_def const_defs)
  then have "7219 \<le> unat (max x CURRENT_NATIVE_QUEUE_PAYLOAD_FLOOR_BYTES)"
    by (auto simp: max_def word_le_nat_alt)
  then have "7253 \<le> unat p" using p(1) by (simp add: checked_add_Some)
  moreover have "unat (68000000 div p :: u64) = 68000000 div unat p" by (simp add: unat_div)
  ultimately show ?thesis
    using p(2) div_le_mono2 [of 7253 "unat p" 68000000] by simp
qed

lemma queue_push_cases:
  assumes "queue_push s pk sg d err q = (r, q')"
  obtains (fail) e where "r = Inl e" "q' = q"
  | (ok) "r = Ok ()" "queued_bytes q + (34 + length pk + length sg) \<le> MAX_SIGCHECK_QUEUE_BYTES"
      "length (q_tasks q) < 9375"
      "q' = q\<lparr>queued_bytes := queued_bytes q + (34 + length pk + length sg),
         q_tasks := q_tasks q @ [\<lparr>t_suite_id = s, t_pubkey = pk, t_sig = sg, t_digest = d, err_on_fail = err\<rparr>]\<rparr>"
proof (cases "and_then (ensure_task_budget (length (q_tasks q)) (q_registry q)) (\<lambda>_.
       and_then (sigcheck_task_bytes (length pk) (length sg)) (next_queued_bytes (queued_bytes q)))")
  case (Inl e)
  then show ?thesis using assms fail [of e] by (auto simp: queue_push_def)
next
  case (Inr n)
  then have n: "n = queued_bytes q + (34 + length pk + length sg)" "n \<le> MAX_SIGCHECK_QUEUE_BYTES"
    by (auto simp: sigcheck_task_bytes_def next_queued_bytes_def SIGCHECK_TASK_FIXED_OVERHEAD_BYTES_def
        bind_eq_Some_conv split: if_splits)
  have "length (q_tasks q) < 9375"
    using Inr task_limit [of "q_registry q"] by (fastforce simp: ensure_task_budget_def split: if_splits)
  then show ?thesis using assms ok Inr n by (simp add: queue_push_def)
qed

lemma queue_push_extends: "st_keeps extends (queue_push s pk sg d err)"
  unfolding st_keeps_def
proof
  fix q
  obtain r q' where q': "queue_push s pk sg d err q = (r, q')" by (rule prod.exhaust)
  then have "extends q q'"
    by (cases rule: queue_push_cases) (auto simp: extends_def)
  then show "extends q (snd (queue_push s pk sg d err q))" using q' by simp
qed

lemma ensure_registry_extends: "st_keeps extends (ensure_registry reg)"
  by (auto simp: st_keeps_def ensure_registry_def extends_def split: option.split)

lemma queue_or_verify_extends:
  "\<exists>q'. snd (queue_or_verify_signature ssl s pk sg d reg err (Some q)) = Some q' \<and> extends q q'"
proof -
  have "st_keeps extends (st_then (ensure_registry reg) (queue_push s pk sg d err))"
    by (intro st_keeps_intros extends_order ensure_registry_extends queue_push_extends)
  then show ?thesis by (simp add: queue_or_verify_signature_def st_keeps_def)
qed

lemma queue_push_ok:
  assumes "queue_ok q"
  shows "queue_ok (snd (queue_push s pk sg d err q))"
proof -
  obtain r q' where q': "queue_push s pk sg d err q = (r, q')" by (rule prod.exhaust)
  then have "queue_ok q'" using assms
    by (cases rule: queue_push_cases) (auto simp: queue_ok_def task_bytes_def)
  then show ?thesis using q' by simp
qed

lemma queue_or_verify_ok:
  assumes "queue_ok q" and "snd (queue_or_verify_signature ssl s pk sg d reg err (Some q)) = Some q'"
  shows "queue_ok q'"
proof -
  obtain r q1 where q1: "ensure_registry reg q = (r, q1)" by (rule prod.exhaust)
  then have "queue_ok q1" using assms(1)
    by (auto simp: ensure_registry_def queue_ok_def split: option.splits if_splits)
  then show ?thesis using assms(2) q1 queue_push_ok [of q1 s pk sg d err]
    by (cases r) (auto simp: queue_or_verify_signature_def)
qed

lemma mark_ok_extends: "mark_ok q m \<Longrightarrow> extends q q' \<Longrightarrow> mark_ok q' m"
  by (auto simp: mark_ok_def extends_def)

lemma mark_ok_rollback:
  "mark_ok q m \<Longrightarrow> mark_ok q m' \<Longrightarrow> mk_len m' \<le> mk_len m \<Longrightarrow>
    (registry_was_bound m' \<Longrightarrow> registry_was_bound m) \<Longrightarrow> mark_ok (rollback_to q m) m'"
  by (auto simp: mark_ok_def rollback_to_def Let_def min_def)

lemma queue_ok_rollback:
  assumes "queue_ok q" and "mark_ok q m"
  shows "queue_ok (rollback_to q m)"
proof -
  have "sum_list (map task_bytes (q_tasks q)) =
      sum_list (map task_bytes (take (mk_len m) (q_tasks q))) + sum_list (map task_bytes (drop (mk_len m) (q_tasks q)))"
    by (metis append_take_drop_id map_append sum_list_append)
  then show ?thesis using assms by (auto simp: queue_ok_def mark_ok_def rollback_to_def Let_def)
qed

text \<open>
  The life of a queue: it is built, receives checks, is marked before a transaction
  and rolled back or kept after it, and flushed between transactions. The second
  component are the marks that are open, the innermost first.
\<close>

inductive queue_reachable :: "OpenSSL \<Rightarrow> (bytes \<Rightarrow> bytes32) \<Rightarrow> SigCheckQueue \<Rightarrow> SigCheckQueueMark list \<Rightarrow> bool"
  for ssl H where
  qr_default: "queue_reachable ssl H SigCheckQueue_default []"
| qr_new: "queue_reachable ssl H (SigCheckQueue_new par workers) []"
| qr_registry: "queue_reachable ssl H q [] \<Longrightarrow> queue_reachable ssl H (with_registry q reg) []"
| qr_cache: "queue_reachable ssl H q ms \<Longrightarrow> queue_reachable ssl H (with_cache q c) ms"
| qr_check: "queue_reachable ssl H q ms \<Longrightarrow>
    snd (queue_or_verify_signature ssl s pk sg d reg err (Some q)) = Some q' \<Longrightarrow> queue_reachable ssl H q' ms"
| qr_mark: "queue_reachable ssl H q ms \<Longrightarrow> queue_reachable ssl H q (queue_mark q # ms)"
| qr_rollback: "queue_reachable ssl H q (m # ms) \<Longrightarrow> queue_reachable ssl H (rollback_to q m) ms"
| qr_keep: "queue_reachable ssl H q (m # ms) \<Longrightarrow> queue_reachable ssl H q ms"
| qr_flush: "queue_reachable ssl H q [] \<Longrightarrow> queue_reachable ssl H (snd (queue_flush par sched ssl H q)) []"

definition marks_ok :: "SigCheckQueueMark list \<Rightarrow> bool" where
  "marks_ok = sorted_wrt (\<lambda>m m'. mk_len m' \<le> mk_len m \<and> (registry_was_bound m' \<longrightarrow> registry_was_bound m))"

lemma queue_flush_ok: "queue_ok q \<Longrightarrow> queue_ok (snd (queue_flush par sched ssl H q))"
  by (auto simp: queue_flush_def queue_ok_def Let_def split: prod.split)

text \<open>
  C21: at every point of the life of a queue the byte counter is the exact footprint of
  the queued tasks and within the budget, there are at most 9375 tasks, and every
  open mark describes a prefix of the queue, so that rolling back to it is sound.
\<close>

theorem queue_accounting_invariant:
  assumes "queue_reachable ssl H q ms"
  shows "queue_ok q \<and> list_all (mark_ok q) ms \<and> marks_ok ms"
  using assms
proof (induction rule: queue_reachable.induct)
  case (qr_check q ms s pk sg d reg err q')
  then have "extends q q'" using queue_or_verify_extends by (metis option.sel)
  then show ?case using qr_check queue_or_verify_ok mark_ok_extends by (metis (mono_tags, lifting) list.pred_mono_strong)
next
  case (qr_mark q ms)
  have "mark_ok q (queue_mark q)" using qr_mark by (auto simp: mark_ok_def queue_mark_def queue_ok_def)
  then show ?case using qr_mark by (auto simp: marks_ok_def queue_mark_def list_all_iff mark_ok_def)
next
  case (qr_rollback q m ms)
  then have m: "queue_ok q" "mark_ok q m" "list_all (mark_ok q) ms" "marks_ok ms"
      "\<And>m'. m' \<in> set ms \<Longrightarrow> mk_len m' \<le> mk_len m \<and> (registry_was_bound m' \<longrightarrow> registry_was_bound m)"
    by (auto simp: marks_ok_def)
  then show ?case by (auto simp: list_all_iff intro: queue_ok_rollback mark_ok_rollback)
qed (auto simp: queue_flush_ok marks_ok_def, auto simp: queue_ok_def SigCheckQueue_default_def
    SigCheckQueue_new_def with_registry_def with_cache_def mark_ok_def list_all_iff Let_def)

theorem queue_accounting_invariant_witness:
  "queue_ok (snd (queue_flush 4 [1, 0] demo_ssl id
    (rollback_to (the (snd (queue_or_verify_signature demo_ssl 1 [1] [2] [3] default_registry
      (TxError_new TxErrSigInvalid ''x'') (Some (SigCheckQueue_new 4 0))))) (queue_mark (SigCheckQueue_new 4 0)))))"
proof -
  let ?q = "SigCheckQueue_new 4 0"
  obtain q' where q': "snd (queue_or_verify_signature demo_ssl 1 [1] [2] [3] default_registry
      (TxError_new TxErrSigInvalid ''x'') (Some ?q)) = Some q'"
    using queue_or_verify_extends by blast
  have "queue_reachable demo_ssl id q' [queue_mark ?q]"
    by (rule qr_check [OF qr_mark [OF qr_new] q'])
  then have "queue_reachable demo_ssl id (snd (queue_flush 4 [1, 0] demo_ssl id (rollback_to q' (queue_mark ?q)))) []"
    by (intro qr_flush qr_rollback)
  then show ?thesis using queue_accounting_invariant q' by fastforce
qed

text \<open>
  C22: rolling back is exact. Whatever checks are queued after a mark, and whether or
  not queueing them failed half way, rolling back to the mark gives the queue as it
  was when the mark was taken.
\<close>

theorem rollback_restores_queue:
  "\<exists>q'. fold (\<lambda>(s, pk, sg, d, reg, err) queue. snd (queue_or_verify_signature ssl s pk sg d reg err queue))
      checks (Some q) = Some q' \<and> rollback_to q' (queue_mark q) = q"
proof -
  have "\<exists>q'. fold (\<lambda>(s, pk, sg, d, reg, err) queue. snd (queue_or_verify_signature ssl s pk sg d reg err queue))
      checks (Some q1) = Some q' \<and> extends q1 q'" for q1
  proof (induction checks arbitrary: q1)
    case Nil
    then show ?case using extends_order(1) by (simp add: reflpD)
  next
    case (Cons c checks)
    obtain s pk sg d reg err where c: "c = (s, pk, sg, d, reg, err)" by (metis surj_pair)
    obtain q2 where "snd (queue_or_verify_signature ssl s pk sg d reg err (Some q1)) = Some q2" "extends q1 q2"
      using queue_or_verify_extends by blast
    moreover obtain q' where "fold (\<lambda>(s, pk, sg, d, reg, err) queue. snd (queue_or_verify_signature ssl s pk sg d reg err queue))
      checks (Some q2) = Some q'" "extends q2 q'" using Cons by blast
    ultimately show ?case using extends_order(2) by (auto simp: c dest: transpD)
  qed
  then show ?thesis using rollback_extends by blast
qed

text \<open>
  A batch of independent checks returns, for every number of workers and every
  schedule, exactly the verdict of each check made alone, in the order of the requests.
\<close>

lemma batch_is_pointwise:
  "verify_signatures_batch par sched ssl tasks workers =
    map (\<lambda>t. case check_signature ssl (r_suite_id t) (r_pubkey t) (r_sig t) (r_digest t) (Some default_registry)
        (TxError_new TxErrSigInvalid ''batch: signature invalid'') of Inl e \<Rightarrow> Some e | Inr _ \<Rightarrow> None) tasks"
proof -
  obtain res u where r: "run_worker_pool par (map Turn sched) False workers (length tasks) tasks
      (verify_request_prog ssl) () = (res, u)" by (rule prod.exhaust)
  have "list_all (\<lambda>_. True) tasks" by (simp add: list_all_iff)
  from vr.run_result [OF this TrueI order_refl r] obtain rs where
    rs: "res = Inr rs" "list_all2 (vr.accepted ssl (False \<or> CancelToken \<in> set (map Turn sched))) tasks rs" by blast
  from rs(2) have "map (\<lambda>r. map_option worker_pool_sigcheck_error_to_tx_error (wr_error r)) rs =
    map (\<lambda>t. case check_signature ssl (r_suite_id t) (r_pubkey t) (r_sig t) (r_digest t) (Some default_registry)
        (TxError_new TxErrSigInvalid ''batch: signature invalid'') of Inl e \<Rightarrow> Some e | Inr _ \<Rightarrow> None) tasks"
    by (induction rule: list_all2_induct)
      (auto simp: vr.accepted_def outcome_result_def WorkerResult_success_def WorkerResult_failure_def
        worker_pool_sigcheck_error_to_tx_error_def split: sum.split)
  then show ?thesis using r rs(1)
    by (simp add: verify_signatures_batch_def verify_signatures_batch_with_limit_def)
qed

end
