(* ===== verification/Deferral.thy ===== *)
theory Deferral
  imports Sig_Queue
begin

text \<open>
  Deferred signature checks. An operation whose state contains the optional queue of
  \<open>sig_queue.rs\<close> may be run with a queue, where \<open>queue_or_verify_signature\<close> only records
  the checks, or without one, where they are made at once. This theory states what
  it means that the two agree, for any state a queue is a part of, and that the
  combinators of the model preserve it.
\<close>

definition queue_errors :: "TxError set" where
  "queue_errors =
    {TxError_new TxErrWitnessOverflow ''SigCheckQueue task budget exceeded'',
     TxError_new TxErrWitnessOverflow ''SigCheckQueue queued-byte budget exceeded'',
     TxError_new TxErrWitnessOverflow ''SigCheckQueue queued-byte accounting overflow'',
     TxError_new TxErrWitnessOverflow ''SigCheckQueue task footprint overflow'',
     TxError_new TxErrWitnessOverflow ''SigCheckQueue task budget footprint overflow'',
     TxError_new TxErrSigAlgInvalid ''SigCheckQueue registry has no registered suites'',
     TxError_new TxErrSigAlgInvalid ''SuiteRegistry payload footprint overflow''}"

definition registry_fits :: "SuiteRegistry \<Rightarrow> SigCheckQueue \<Rightarrow> bool" where
  "registry_fits reg q \<longleftrightarrow> q_registry q = None \<or> q_registry q = Some reg"

text \<open>\<open>q'\<close> is \<open>q\<close> after the checks \<open>ts\<close> were queued for the registry \<open>reg\<close>.\<close>

definition queued :: "SuiteRegistry \<Rightarrow> SigCheckQueue \<Rightarrow> SigCheckTask list \<Rightarrow> SigCheckQueue \<Rightarrow> bool" where
  "queued reg q ts q' \<longleftrightarrow> extends q q' \<and> q_tasks q' = q_tasks q @ ts \<and> registry_fits reg q' \<and>
    (ts \<noteq> [] \<longrightarrow> q_registry q' = Some reg) \<and> (queue_ok q \<longrightarrow> queue_ok q')"

lemma queued_refl: "registry_fits reg q \<Longrightarrow> queued reg q [] q"
  using extends_order(1) by (simp add: queued_def reflpD)

lemma queued_trans:
  assumes "queued reg q ts q'" and "queued reg q' ts' q''"
  shows "queued reg q (ts @ ts') q''"
proof -
  have "extends q q''" using assms transpD [OF extends_order(2)] unfolding queued_def by blast
  moreover have "q_registry q'' = Some reg" if "ts @ ts' \<noteq> []"
  proof (cases "ts' = []")
    case True
    then have "q_registry q' = Some reg" using that assms(1) by (simp add: queued_def)
    then show ?thesis using assms(2) by (simp add: queued_def extends_def)
  qed (use assms(2) in \<open>simp add: queued_def\<close>)
  ultimately show ?thesis using assms by (simp add: queued_def)
qed

lemma queue_push_error:
  assumes "fst (queue_push s pk sg d err q) = Inl e" and "q_registry q = Some reg"
  shows "e \<in> queue_errors"
proof -
  have m: "e' = ''SuiteRegistry payload footprint overflow''" if "min_sigcheck_payload_bytes reg = Inl e'" for e'
  proof -
    have "try_fold (\<lambda>min_payload (_, params).
      and_then (ok_or ''SuiteRegistry payload footprint overflow''
        (checked_add (pubkey_len params) (sig_len params))) (\<lambda>payload_bytes.
      Inr (Some (case min_payload of Some current \<Rightarrow> min current payload_bytes | None \<Rightarrow> payload_bytes)))) a xs = Inl e'
      \<Longrightarrow> e' = ''SuiteRegistry payload footprint overflow''" for a and xs :: "(u8 \<times> SuiteParams) list"
      by (induction xs arbitrary: a) (auto simp: res_simps split: prod.splits)
    then show ?thesis using that by (simp add: min_sigcheck_payload_bytes_def)
  qed
  have "and_then (ensure_task_budget (length (q_tasks q)) (q_registry q)) (\<lambda>_.
       and_then (sigcheck_task_bytes (length pk) (length sg)) (next_queued_bytes (queued_bytes q))) = Inl e"
    using assms(1) by (auto simp: queue_push_def split: sum.splits)
  then show ?thesis
    by (auto simp: ensure_task_budget_def max_sigcheck_queue_tasks_def assms(2) Let_def sigcheck_task_bytes_def
        next_queued_bytes_def queue_errors_def map_err_def res_simps split: if_splits sum.splits dest: m)
qed

text \<open>The interface: a state with a queue in it.\<close>

locale queue_state =
  fixes getq :: "'s \<Rightarrow> SigCheckQueue option"
    and setq :: "SigCheckQueue option \<Rightarrow> 's \<Rightarrow> 's"
  assumes get_set [simp]: "getq (setq q s) = q"
    and set_get [simp]: "setq (getq s) s = s"
    and set_set [simp]: "setq q (setq q' s) = setq q s"
begin

definition ends :: "OpenSSL \<Rightarrow> SuiteRegistry \<Rightarrow> ('s, 'a) st \<Rightarrow> 's \<Rightarrow> SigCheckTask list \<Rightarrow> 'a res \<Rightarrow> 's \<Rightarrow> bool" where
  "ends ssl reg m s ts r s' \<longleftrightarrow> (case r of
      Inr x \<Rightarrow> (case try_for_each (task_check ssl (Some reg)) ts of
          Inr _ \<Rightarrow> m (setq None s) = (Inr x, setq None s')
        | Inl e \<Rightarrow> fst (m (setq None s)) = Inl e)
    | Inl e \<Rightarrow> e \<in> queue_errors \<or> (\<exists>e'. fst (m (setq None s)) = Inl e'))"

text \<open>
  Run with a queue, \<open>m\<close> succeeds with \<open>x\<close> having queued \<open>ts\<close> exactly when, run without, it
  gives \<open>x\<close> or the first failure among \<open>ts\<close>; it fails otherwise, unless the queue
  refused a check.
\<close>

definition defers :: "OpenSSL \<Rightarrow> SuiteRegistry \<Rightarrow> ('s, 'a) st \<Rightarrow> bool" where
  "defers ssl reg m \<longleftrightarrow> (\<forall>s q. registry_fits reg q \<longrightarrow>
    (\<exists>r s' q' ts. m (setq (Some q) s) = (r, setq (Some q') s') \<and> queued reg q ts q' \<and> ends ssl reg m s ts r s'))"

lemma defersI:
  assumes "\<And>s q. registry_fits reg q \<Longrightarrow>
    \<exists>r s' q' ts. m (setq (Some q) s) = (r, setq (Some q') s') \<and> queued reg q ts q' \<and> ends ssl reg m s ts r s'"
  shows "defers ssl reg m"
  using assms by (simp add: defers_def)

lemma defersE:
  assumes "defers ssl reg m" and "registry_fits reg q"
  obtains r s' q' ts where "m (setq (Some q) s) = (r, setq (Some q') s')" "queued reg q ts q'" "ends ssl reg m s ts r s'"
  using assms unfolding defers_def by blast

text \<open>An operation that does not touch the queue.\<close>

lemma defers_untouched:
  assumes "\<And>s q. m (setq q s) = (fst (f s), setq q (snd (f s)))"
  shows "defers ssl reg m"
proof (rule defersI)
  fix s q assume "registry_fits reg q"
  then show "\<exists>r s' q' ts. m (setq (Some q) s) = (r, setq (Some q') s') \<and> queued reg q ts q' \<and> ends ssl reg m s ts r s'"
    using assms queued_refl
    by (intro exI [of _ "fst (f s)"] exI [of _ "snd (f s)"] exI [of _ q] exI [of _ "[]"])
      (auto simp: ends_def split: sum.split)
qed

lemma defers_lift: "defers ssl reg (st_lift r)"
  by (rule defers_untouched [of _ "\<lambda>s. (r, s)"]) (simp add: st_lift_def)

lemma ends_bind:
  assumes "ends ssl reg m s ts (Inr x) s'" and "ends ssl reg (f x) s' ts' r s''"
  shows "ends ssl reg (st_bind m f) s (ts @ ts') r s''"
proof (cases "try_for_each (task_check ssl (Some reg)) ts")
  case (Inl e)
  then have "fst (m (setq None s)) = Inl e" using assms(1) by (simp add: ends_def)
  then have "fst (st_bind m f (setq None s)) = Inl e" by (auto simp: st_bind_def split: prod.splits)
  then show ?thesis using Inl by (cases r) (auto simp: ends_def try_for_each_append)
next
  case (Inr u)
  then have "m (setq None s) = (Inr x, setq None s')" using assms(1) by (simp add: ends_def del: try_for_each_Inr)
  then show ?thesis using Inr assms(2)
    by (cases r; cases "try_for_each (task_check ssl (Some reg)) ts'") (auto simp: ends_def try_for_each_append simp del: try_for_each_Inr)
qed

lemma ends_bind_error:
  assumes "ends ssl reg m s ts (Inl e) s'"
  shows "ends ssl reg (st_bind m f) s ts (Inl e) s'"
  using assms by (auto simp: ends_def st_bind_def split: prod.splits)

lemma defers_bind:
  assumes m: "defers ssl reg m" and f: "\<And>x. defers ssl reg (f x)"
  shows "defers ssl reg (st_bind m f)"
proof (rule defersI)
  fix s q assume "registry_fits reg q"
  with m obtain r s1 q1 ts where 1: "m (setq (Some q) s) = (r, setq (Some q1) s1)" "queued reg q ts q1"
      "ends ssl reg m s ts r s1" by (rule defersE)
  show "\<exists>r s' q' ts. st_bind m f (setq (Some q) s) = (r, setq (Some q') s') \<and> queued reg q ts q' \<and>
      ends ssl reg (st_bind m f) s ts r s'"
  proof (cases r)
    case (Inl e)
    then show ?thesis using 1 ends_bind_error by fastforce
  next
    case (Inr x)
    have "registry_fits reg q1" using 1(2) by (simp add: queued_def)
    with f obtain r' s2 q2 ts' where 2: "f x (setq (Some q1) s1) = (r', setq (Some q2) s2)" "queued reg q1 ts' q2"
        "ends ssl reg (f x) s1 ts' r' s2" by (rule defersE)
    then have "st_bind m f (setq (Some q) s) = (r', setq (Some q2) s2)" "queued reg q (ts @ ts') q2"
        "ends ssl reg (st_bind m f) s (ts @ ts') r' s2"
      using 1 Inr queued_trans ends_bind by auto
    then show ?thesis by blast
  qed
qed

lemma defers_then: "defers ssl reg m \<Longrightarrow> defers ssl reg n \<Longrightarrow> defers ssl reg (st_then m n)"
  by (simp add: st_then_def defers_bind)

lemma defers_for_each: "(\<And>x. defers ssl reg (f x)) \<Longrightarrow> defers ssl reg (st_for_each f xs)"
  by (induction xs) (auto intro: defers_lift defers_then)

lemmas defers_intros = defers_lift defers_bind defers_then defers_for_each

text \<open>Rolling the queue back on an error hides nothing.\<close>

lemma defers_rollback:
  assumes m: "defers ssl reg m"
    and ok: "\<And>s x s'. m s = (Inr x, s') \<Longrightarrow> n s = (Inr x, s')"
    and err: "\<And>s e s'. m s = (Inl e, s') \<Longrightarrow> n s = (Inl e, setq (case (getq s, getq s') of
        (Some q, Some q') \<Rightarrow> Some (rollback_to q' (queue_mark q)) | _ \<Rightarrow> getq s') s')"
  shows "defers ssl reg n"
proof (rule defersI)
  fix s q assume q: "registry_fits reg q"
  with m obtain r s1 q1 ts where 1: "m (setq (Some q) s) = (r, setq (Some q1) s1)" "queued reg q ts q1"
      "ends ssl reg m s ts r s1" by (rule defersE)
  have fst_n: "fst (n s) = fst (m s)" for s
    by (cases "m s"; cases "fst (m s)") (auto simp: ok err)
  show "\<exists>r s' q' ts. n (setq (Some q) s) = (r, setq (Some q') s') \<and> queued reg q ts q' \<and> ends ssl reg n s ts r s'"
  proof (cases r)
    case (Inl e)
    have "extends q q1" using 1(2) by (simp add: queued_def)
    then have "n (setq (Some q) s) = (Inl e, setq (Some q) s1)"
      using err [of "setq (Some q) s" e "setq (Some q1) s1"] 1(1) Inl by (simp add: rollback_extends)
    moreover have "ends ssl reg n s [] (Inl e) s1" using 1(3) Inl by (simp add: ends_def fst_n)
    ultimately show ?thesis using queued_refl [OF q] by blast
  next
    case (Inr x)
    have "ends ssl reg n s ts (Inr x) s1"
      using 1(3) Inr ok
      by (cases "try_for_each (task_check ssl (Some reg)) ts") (simp_all add: ends_def fst_n del: try_for_each_Inr)
    then show ?thesis using 1 Inr ok by blast
  qed
qed

end

text \<open>The instance in which the queue is the whole state.\<close>

interpretation qs: queue_state "\<lambda>q. q" "\<lambda>q _. q"
  by unfold_locales simp_all

lemma queue_or_verify_defers:
  "qs.defers ssl reg (queue_or_verify_signature ssl s pk sg d reg err)"
proof (rule qs.defersI)
  fix u :: "SigCheckQueue option" and q assume fits: "registry_fits reg q"
  define q1 where "q1 = q\<lparr>q_registry := Some reg\<rparr>"
  have e: "ensure_registry reg q = (Ok (), q1)"
    using fits by (cases q) (auto simp: registry_fits_def ensure_registry_def q1_def)
  let ?t = "\<lparr>t_suite_id = s, t_pubkey = pk, t_sig = sg, t_digest = d, err_on_fail = err\<rparr>"
  obtain r q2 where p: "queue_push s pk sg d err q1 = (r, q2)" by (rule prod.exhaust)
  then have m: "queue_or_verify_signature ssl s pk sg d reg err (Some q) = (r, Some q2)"
    by (simp add: queue_or_verify_signature_def e)
  have x: "extends q q2"
    using queue_or_verify_extends [of ssl s pk sg d reg err q] m by simp
  have ok: "queue_ok q2" if "queue_ok q"
    using queue_or_verify_ok [OF that, of ssl s pk sg d reg err] m by simp
  show "\<exists>r s' q' ts. queue_or_verify_signature ssl s pk sg d reg err (Some q) = (r, Some q') \<and>
      queued reg q ts q' \<and> qs.ends ssl reg (queue_or_verify_signature ssl s pk sg d reg err) u ts r s'"
  proof (cases rule: queue_push_cases [OF p])
    case (1 e)
    then have "e \<in> queue_errors" using queue_push_error [of s pk sg d err q1 e reg] p by (simp add: q1_def)
    moreover have "queued reg q [] q2" using 1 x ok by (simp add: queued_def q1_def registry_fits_def)
    ultimately show ?thesis using m 1 by (auto simp: qs.ends_def)
  next
    case 2
    then have "queued reg q [?t] q2" using x ok by (simp add: queued_def q1_def registry_fits_def)
    moreover have "qs.ends ssl reg (queue_or_verify_signature ssl s pk sg d reg err) u [?t] (Ok ()) None"
      by (auto simp: qs.ends_def queue_or_verify_signature_def task_check_def and_then_Inl split: sum.split)
    ultimately show ?thesis using m 2(1) by blast
  qed
qed

end
