(* ===== verification/Spend.thy ===== *)
theory Spend
  imports Sighash Deferral Covenants
begin

text \<open>
  Authorisation of a spend: \<open>spend_verify.rs\<close>, the spend rules of \<open>htlc.rs\<close> and
  \<open>stealth.rs\<close>, and the signing helpers of \<open>tx_helpers.rs\<close>. The state of a check is the
  prehash cache of the transaction with the queue of deferred checks, \<open>None\<close> when the
  signatures are verified at once.
\<close>

type_synonym spend_state = "SighashV1PrehashCache \<times> SigCheckQueue option"

definition on_cache :: "(SighashV1PrehashCache, 'a) st \<Rightarrow> (spend_state, 'a) st" where
  "on_cache m = (\<lambda>(c, q). case m c of (r, c') \<Rightarrow> (r, (c', q)))"

definition on_queue :: "(SigCheckQueue option, 'a) st \<Rightarrow> (spend_state, 'a) st" where
  "on_queue m = (\<lambda>(c, q). case m q of (r, q') \<Rightarrow> (r, (c, q')))"

text \<open>A check with no queue.\<close>

definition unqueued :: "(spend_state, 'a) st \<Rightarrow> (SighashV1PrehashCache, 'a) st" where
  "unqueued m c = (case m (c, None) of (r, (c', _)) \<Rightarrow> (r, c'))"

text \<open>A check with a cache made for it.\<close>

definition with_new_cache :: "Tx \<Rightarrow> (SighashV1PrehashCache, 'a) st \<Rightarrow> 'a res" where
  "with_new_cache tx m = and_then (SighashV1PrehashCache_new tx) (\<lambda>c. fst (m c))"

definition rotation_or_default :: "RotationProvider option \<Rightarrow> RotationProvider" where
  "rotation_or_default rotation = (case rotation of Some rp \<Rightarrow> rp | None \<Rightarrow> DefaultRotationProvider)"

definition registry_or_default :: "SuiteRegistry option \<Rightarrow> SuiteRegistry" where
  "registry_or_default registry = (case registry of Some reg \<Rightarrow> reg | None \<Rightarrow> default_registry)"

section \<open>Shared checks\<close>

definition extract_crypto_sig_and_sighash :: "WitnessItem \<Rightarrow> (bytes \<times> u8) res" where
  "extract_crypto_sig_and_sighash w =
    (if signature w = [] then Err TxErrParse ''missing sighash_type byte''
     else if \<not> is_valid_sighash_type (last (signature w)) then Err TxErrSighashTypeInvalid ''invalid sighash_type''
     else Ok (butlast (signature w), last (signature w)))"

definition spend_suite_params :: "WitnessItem \<Rightarrow> NativeSuiteSet \<Rightarrow> SuiteRegistry \<Rightarrow> string \<Rightarrow> string \<Rightarrow> SuiteParams res" where
  "spend_suite_params w native_spend reg not_native not_registered =
    (if suite_id w \<notin> native_spend then Err TxErrSigAlgInvalid not_native
     else ok_or (TxError_new TxErrSigAlgInvalid not_registered) (registry_lookup reg (suite_id w)))"

definition validate_witness_item_lengths :: "WitnessItem \<Rightarrow> SuiteParams \<Rightarrow> unit res" where
  "validate_witness_item_lengths w params =
    (if len64 (pubkey w) = pubkey_len params \<and> len64 (signature w) = sig_len params + 1 then Ok ()
     else Err TxErrSigNoncanonical ''non-canonical witness item lengths'')"

text \<open>The signature check every covenant ends with.\<close>

definition verify_witness_sig ::
  "OpenSSL \<Rightarrow> (bytes \<Rightarrow> bytes32) \<Rightarrow> WitnessItem \<Rightarrow> u32 \<Rightarrow> u64 \<Rightarrow> bytes32 \<Rightarrow> SuiteRegistry \<Rightarrow> TxError \<Rightarrow>
   (spend_state, unit) st" where
  "verify_witness_sig ssl H w input_index input_value chain_id reg invalid_sig_error =
    st_bind (st_lift (extract_crypto_sig_and_sighash w)) (\<lambda>(crypto_sig, ty).
    st_bind (on_cache (sighash_v1_digest_with_cache H input_index input_value chain_id ty)) (\<lambda>digest.
    on_queue (queue_or_verify_signature ssl (suite_id w) (pubkey w) crypto_sig digest reg invalid_sig_error)))"

definition verify_mldsa_key_and_sig_q ::
  "OpenSSL \<Rightarrow> (bytes \<Rightarrow> bytes32) \<Rightarrow> WitnessItem \<Rightarrow> bytes32 \<Rightarrow> u32 \<Rightarrow> u64 \<Rightarrow> bytes32 \<Rightarrow> SuiteRegistry \<Rightarrow>
   TxError \<Rightarrow> TxError \<Rightarrow> (spend_state, unit) st" where
  "verify_mldsa_key_and_sig_q ssl H w expected_key_id input_index input_value chain_id reg
      key_binding_error invalid_sig_error =
    (if H (pubkey w) \<noteq> expected_key_id then st_lift (Inl key_binding_error)
     else verify_witness_sig ssl H w input_index input_value chain_id reg invalid_sig_error)"

section \<open>Pay to public key\<close>

definition p2pk_covenant_key_id :: "UtxoEntry \<Rightarrow> u8 \<Rightarrow> bytes32 res" where
  "p2pk_covenant_key_id entry s =
    (if len64 (ue_covenant_data entry) \<noteq> MAX_P2PK_COVENANT_DATA \<or> ue_covenant_data entry ! 0 \<noteq> s
     then Err TxErrCovenantTypeInvalid ''CORE_P2PK covenant_data invalid''
     else Ok (slice (ue_covenant_data entry) 1 33))"

definition validate_p2pk_spend_q ::
  "OpenSSL \<Rightarrow> (bytes \<Rightarrow> bytes32) \<Rightarrow> UtxoEntry \<Rightarrow> WitnessItem \<Rightarrow> u32 \<Rightarrow> u64 \<Rightarrow> bytes32 \<Rightarrow> u64 \<Rightarrow>
   RotationProvider option \<Rightarrow> SuiteRegistry option \<Rightarrow> (spend_state, unit) st" where
  "validate_p2pk_spend_q ssl H entry w input_index input_value chain_id block_height rotation registry =
    (let rp = rotation_or_default rotation; reg = registry_or_default registry;
         native_spend = native_spend_suites rp block_height in
     st_bind (st_lift (spend_suite_params w native_spend reg
       ''CORE_P2PK suite not in native spend set'' ''CORE_P2PK suite not registered'')) (\<lambda>params.
     st_then (st_lift (validate_witness_item_lengths w params)) (
     st_bind (st_lift (p2pk_covenant_key_id entry (suite_id w))) (\<lambda>key_id.
     verify_mldsa_key_and_sig_q ssl H w key_id input_index input_value chain_id reg
       (TxError_new TxErrSigInvalid ''CORE_P2PK key binding mismatch'')
       (TxError_new TxErrSigInvalid ''CORE_P2PK signature invalid'')))))"

definition validate_p2pk_spend_at_height ::
  "OpenSSL \<Rightarrow> (bytes \<Rightarrow> bytes32) \<Rightarrow> UtxoEntry \<Rightarrow> WitnessItem \<Rightarrow> Tx \<Rightarrow> u32 \<Rightarrow> u64 \<Rightarrow> bytes32 \<Rightarrow> u64 \<Rightarrow>
   RotationProvider option \<Rightarrow> SuiteRegistry option \<Rightarrow> (SighashV1PrehashCache, unit) st" where
  "validate_p2pk_spend_at_height ssl H entry w tx input_index input_value chain_id block_height rotation registry =
    unqueued (validate_p2pk_spend_q ssl H entry w input_index input_value chain_id block_height rotation registry)"

definition validate_p2pk_spend_with_cache ::
  "OpenSSL \<Rightarrow> (bytes \<Rightarrow> bytes32) \<Rightarrow> UtxoEntry \<Rightarrow> WitnessItem \<Rightarrow> Tx \<Rightarrow> u32 \<Rightarrow> u64 \<Rightarrow> bytes32 \<Rightarrow> u64 \<Rightarrow>
   (SighashV1PrehashCache, unit) st" where
  "validate_p2pk_spend_with_cache ssl H entry w tx input_index input_value chain_id block_height =
    validate_p2pk_spend_at_height ssl H entry w tx input_index input_value chain_id block_height None None"

definition validate_p2pk_spend ::
  "OpenSSL \<Rightarrow> (bytes \<Rightarrow> bytes32) \<Rightarrow> UtxoEntry \<Rightarrow> WitnessItem \<Rightarrow> Tx \<Rightarrow> u32 \<Rightarrow> u64 \<Rightarrow> bytes32 \<Rightarrow> u64 \<Rightarrow> unit res" where
  "validate_p2pk_spend ssl H entry w tx input_index input_value chain_id block_height =
    with_new_cache tx (validate_p2pk_spend_with_cache ssl H entry w tx input_index input_value chain_id block_height)"

section \<open>Threshold signatures\<close>

datatype ThresholdSigErrorDetail =
    SuiteNotInNativeSpendSet | SuiteNotRegistered | KeyBindingMismatch | SignatureInvalid | ThresholdNotMet

definition threshold_sig_error_message :: "string \<Rightarrow> ThresholdSigErrorDetail \<Rightarrow> string" where
  "threshold_sig_error_message ctx detail =
    (if ctx = ''CORE_MULTISIG'' then (case detail of
        SuiteNotInNativeSpendSet \<Rightarrow> ''CORE_MULTISIG suite not in native spend set''
      | SuiteNotRegistered \<Rightarrow> ''CORE_MULTISIG suite not registered''
      | KeyBindingMismatch \<Rightarrow> ''CORE_MULTISIG key binding mismatch''
      | SignatureInvalid \<Rightarrow> ''CORE_MULTISIG signature invalid''
      | ThresholdNotMet \<Rightarrow> ''CORE_MULTISIG threshold not met'')
     else if ctx = ''CORE_VAULT'' then (case detail of
        SuiteNotInNativeSpendSet \<Rightarrow> ''CORE_VAULT suite not in native spend set''
      | SuiteNotRegistered \<Rightarrow> ''CORE_VAULT suite not registered''
      | KeyBindingMismatch \<Rightarrow> ''CORE_VAULT key binding mismatch''
      | SignatureInvalid \<Rightarrow> ''CORE_VAULT signature invalid''
      | ThresholdNotMet \<Rightarrow> ''CORE_VAULT threshold not met'')
     else ctx)"

text \<open>One slot: the new number of valid signatures.\<close>

definition threshold_slot ::
  "OpenSSL \<Rightarrow> (bytes \<Rightarrow> bytes32) \<Rightarrow> u32 \<Rightarrow> u64 \<Rightarrow> bytes32 \<Rightarrow> NativeSuiteSet \<Rightarrow> string \<Rightarrow> SuiteRegistry \<Rightarrow>
   bytes32 \<Rightarrow> WitnessItem \<Rightarrow> u8 \<Rightarrow> (spend_state, u8) st" where
  "threshold_slot ssl H input_index input_value chain_id native_spend ctx reg key w valid =
    (if suite_id w = SUITE_ID_SENTINEL
     then if pubkey w \<noteq> [] \<or> signature w \<noteq> [] then st_err TxErrParse ''SENTINEL witness must be keyless''
          else st_ok valid
     else
     st_bind (st_lift (spend_suite_params w native_spend reg
       (threshold_sig_error_message ctx SuiteNotInNativeSpendSet)
       (threshold_sig_error_message ctx SuiteNotRegistered))) (\<lambda>params.
     st_then (st_lift (validate_witness_item_lengths w params)) (
     st_then (verify_mldsa_key_and_sig_q ssl H w key input_index input_value chain_id reg
       (TxError_new TxErrSigInvalid (threshold_sig_error_message ctx KeyBindingMismatch))
       (TxError_new TxErrSigInvalid (threshold_sig_error_message ctx SignatureInvalid))) (
     st_ok (saturating_add valid 1)))))"

fun threshold_slots ::
  "OpenSSL \<Rightarrow> (bytes \<Rightarrow> bytes32) \<Rightarrow> u32 \<Rightarrow> u64 \<Rightarrow> bytes32 \<Rightarrow> NativeSuiteSet \<Rightarrow> string \<Rightarrow> SuiteRegistry \<Rightarrow>
   (bytes32 \<times> WitnessItem) list \<Rightarrow> u8 \<Rightarrow> (spend_state, u8) st" where
  "threshold_slots ssl H input_index input_value chain_id native_spend ctx reg [] valid = st_ok valid"
| "threshold_slots ssl H input_index input_value chain_id native_spend ctx reg ((key, w) # rest) valid =
    st_bind (threshold_slot ssl H input_index input_value chain_id native_spend ctx reg key w valid)
      (threshold_slots ssl H input_index input_value chain_id native_spend ctx reg rest)"

definition validate_threshold_sig_spend_q ::
  "OpenSSL \<Rightarrow> (bytes \<Rightarrow> bytes32) \<Rightarrow> bytes32 list \<Rightarrow> u8 \<Rightarrow> WitnessItem list \<Rightarrow> u32 \<Rightarrow> u64 \<Rightarrow> bytes32 \<Rightarrow> u64 \<Rightarrow> string \<Rightarrow>
   RotationProvider option \<Rightarrow> SuiteRegistry option \<Rightarrow> (spend_state, unit) st" where
  "validate_threshold_sig_spend_q ssl H keys threshold ws input_index input_value chain_id block_height ctx
      rotation registry s =
    (let rp = rotation_or_default rotation; reg = registry_or_default registry in
     if length ws \<noteq> length keys then (Err TxErrParse ''witness slot assignment mismatch'', s)
     else
     let native_spend = native_spend_suites rp block_height;
         mark = map_option queue_mark (snd s) in
     case st_bind (threshold_slots ssl H input_index input_value chain_id native_spend ctx reg (zip keys ws) 0)
       (\<lambda>valid. if valid < threshold
          then st_err TxErrSigInvalid (threshold_sig_error_message ctx ThresholdNotMet) else st_ok ()) s of
       (Inr _, s') \<Rightarrow> (Ok (), s')
     | (Inl e, (c, q)) \<Rightarrow> (Inl e, (c, case (mark, q) of
         (Some m, Some queue) \<Rightarrow> Some (rollback_to queue m) | _ \<Rightarrow> q)))"

definition validate_threshold_sig_spend_at_height ::
  "OpenSSL \<Rightarrow> (bytes \<Rightarrow> bytes32) \<Rightarrow> bytes32 list \<Rightarrow> u8 \<Rightarrow> WitnessItem list \<Rightarrow> Tx \<Rightarrow> u32 \<Rightarrow> u64 \<Rightarrow> bytes32 \<Rightarrow> u64 \<Rightarrow> string \<Rightarrow>
   RotationProvider option \<Rightarrow> SuiteRegistry option \<Rightarrow> (SighashV1PrehashCache, unit) st" where
  "validate_threshold_sig_spend_at_height ssl H keys threshold ws tx input_index input_value chain_id block_height
      ctx rotation registry =
    unqueued (validate_threshold_sig_spend_q ssl H keys threshold ws input_index input_value chain_id block_height
      ctx rotation registry)"

definition validate_threshold_sig_spend_with_cache ::
  "OpenSSL \<Rightarrow> (bytes \<Rightarrow> bytes32) \<Rightarrow> bytes32 list \<Rightarrow> u8 \<Rightarrow> WitnessItem list \<Rightarrow> Tx \<Rightarrow> u32 \<Rightarrow> u64 \<Rightarrow> bytes32 \<Rightarrow> u64 \<Rightarrow> string \<Rightarrow>
   (SighashV1PrehashCache, unit) st" where
  "validate_threshold_sig_spend_with_cache ssl H keys threshold ws tx input_index input_value chain_id block_height ctx =
    validate_threshold_sig_spend_at_height ssl H keys threshold ws tx input_index input_value chain_id block_height
      ctx None None"

section \<open>Hashed time locks\<close>

record HtlcSpendContext =
  hx_input_index :: u32
  hx_input_value :: u64
  hx_chain_id :: bytes32
  hx_block_height :: u64
  hx_block_mtp :: u64

record HtlcSelector =
  hs_key_id :: bytes32
  hs_path_id :: u8
  hs_payload :: bytes

definition parse_htlc_selector :: "WitnessItem \<Rightarrow> HtlcSelector res" where
  "parse_htlc_selector path_item =
    (if suite_id path_item \<noteq> SUITE_ID_SENTINEL then Err TxErrParse ''CORE_HTLC selector suite_id invalid''
     else if length (pubkey path_item) \<noteq> 32 then Err TxErrParse ''CORE_HTLC selector key_id length invalid''
     else if signature path_item = [] then Err TxErrParse ''CORE_HTLC selector payload too short''
     else Ok \<lparr>hs_key_id = pubkey path_item, hs_path_id = signature path_item ! 0, hs_payload = signature path_item\<rparr>)"

definition validate_htlc_claim_path :: "(bytes \<Rightarrow> bytes32) \<Rightarrow> HtlcCovenant \<Rightarrow> bytes \<Rightarrow> bytes32 \<Rightarrow> bytes32 res" where
  "validate_htlc_claim_path H cov path_sig selector_key_id =
    (if selector_key_id \<noteq> claim_key_id cov then Err TxErrSigInvalid ''CORE_HTLC claim key_id mismatch''
     else if length path_sig < 3 then Err TxErrParse ''CORE_HTLC claim payload too short''
     else
     let pre_len = unat (from_le16 (slice path_sig 1 3)) in
     if (of_nat pre_len :: u64) < MIN_HTLC_PREIMAGE_BYTES then Err TxErrParse ''CORE_HTLC preimage_len must be >= 16''
     else if (of_nat pre_len :: u64) > MAX_HTLC_PREIMAGE_BYTES then Err TxErrParse ''CORE_HTLC preimage length overflow''
     else if length path_sig \<noteq> 3 + pre_len then Err TxErrParse ''CORE_HTLC claim payload length mismatch''
     else if H (drop 3 path_sig) \<noteq> htlc_hash cov then Err TxErrSigInvalid ''CORE_HTLC claim preimage hash mismatch''
     else Ok (claim_key_id cov))"

definition validate_htlc_refund_path :: "HtlcCovenant \<Rightarrow> bytes \<Rightarrow> bytes32 \<Rightarrow> HtlcSpendContext \<Rightarrow> bytes32 res" where
  "validate_htlc_refund_path cov path_sig selector_key_id ctx =
    (if length path_sig \<noteq> 1 then Err TxErrParse ''CORE_HTLC refund payload length mismatch''
     else if lock_mode cov = LOCK_MODE_HEIGHT \<and> hx_block_height ctx < lock_value cov
     then Err TxErrTimelockNotMet ''CORE_HTLC height lock not met''
     else if lock_mode cov \<noteq> LOCK_MODE_HEIGHT \<and> hx_block_mtp ctx < lock_value cov
     then Err TxErrTimelockNotMet ''CORE_HTLC timestamp lock not met''
     else if selector_key_id \<noteq> refund_key_id cov then Err TxErrSigInvalid ''CORE_HTLC refund key_id mismatch''
     else Ok (refund_key_id cov))"

definition expected_htlc_spend_key_id ::
  "(bytes \<Rightarrow> bytes32) \<Rightarrow> HtlcCovenant \<Rightarrow> HtlcSelector \<Rightarrow> HtlcSpendContext \<Rightarrow> bytes32 res" where
  "expected_htlc_spend_key_id H cov sel ctx =
    (if hs_path_id sel = 0x00 then validate_htlc_claim_path H cov (hs_payload sel) (hs_key_id sel)
     else if hs_path_id sel = 0x01 then validate_htlc_refund_path cov (hs_payload sel) (hs_key_id sel) ctx
     else Err TxErrParse ''CORE_HTLC unknown spend path'')"

definition validate_htlc_signature_precheck ::
  "(bytes \<Rightarrow> bytes32) \<Rightarrow> WitnessItem \<Rightarrow> bytes32 \<Rightarrow> u64 \<Rightarrow> RotationProvider \<Rightarrow> SuiteRegistry \<Rightarrow> unit res" where
  "validate_htlc_signature_precheck H sig_item expected_key_id block_height rp reg =
    (if suite_id sig_item \<notin> native_spend_suites rp block_height
     then Err TxErrSigAlgInvalid ''CORE_HTLC suite not in native spend set''
     else
     and_then (ok_or (TxError_new TxErrSigAlgInvalid ''CORE_HTLC suite not registered'')
       (registry_lookup reg (suite_id sig_item))) (\<lambda>params.
     if len64 (pubkey sig_item) \<noteq> pubkey_len params \<or> len64 (signature sig_item) \<noteq> sig_len params + 1
     then Err TxErrSigNoncanonical ''non-canonical witness item lengths''
     else if H (pubkey sig_item) \<noteq> expected_key_id
     then Err TxErrSigInvalid ''CORE_HTLC signature key binding mismatch''
     else Ok ()))"

definition validate_htlc_spend_q ::
  "OpenSSL \<Rightarrow> (bytes \<Rightarrow> bytes32) \<Rightarrow> UtxoEntry \<Rightarrow> WitnessItem \<Rightarrow> WitnessItem \<Rightarrow> HtlcSpendContext \<Rightarrow>
   RotationProvider option \<Rightarrow> SuiteRegistry option \<Rightarrow> (spend_state, unit) st" where
  "validate_htlc_spend_q ssl H entry path_item sig_item ctx rotation registry =
    st_bind (st_lift (parse_htlc_covenant_data (ue_covenant_data entry))) (\<lambda>cov.
    st_bind (st_lift (parse_htlc_selector path_item)) (\<lambda>sel.
    st_bind (st_lift (expected_htlc_spend_key_id H cov sel ctx)) (\<lambda>expected_key_id.
    let rp = rotation_or_default rotation; reg = registry_or_default registry in
    st_then (st_lift (validate_htlc_signature_precheck H sig_item expected_key_id (hx_block_height ctx) rp reg)) (
    verify_witness_sig ssl H sig_item (hx_input_index ctx) (hx_input_value ctx) (hx_chain_id ctx) reg
      (TxError_new TxErrSigInvalid ''CORE_HTLC signature invalid'')))))"

definition validate_htlc_spend_at_height ::
  "OpenSSL \<Rightarrow> (bytes \<Rightarrow> bytes32) \<Rightarrow> UtxoEntry \<Rightarrow> WitnessItem \<Rightarrow> WitnessItem \<Rightarrow> HtlcSpendContext \<Rightarrow>
   RotationProvider option \<Rightarrow> SuiteRegistry option \<Rightarrow> (SighashV1PrehashCache, unit) st" where
  "validate_htlc_spend_at_height ssl H entry path_item sig_item ctx rotation registry =
    unqueued (validate_htlc_spend_q ssl H entry path_item sig_item ctx rotation registry)"

definition validate_htlc_spend_with_cache ::
  "OpenSSL \<Rightarrow> (bytes \<Rightarrow> bytes32) \<Rightarrow> UtxoEntry \<Rightarrow> WitnessItem \<Rightarrow> WitnessItem \<Rightarrow> HtlcSpendContext \<Rightarrow>
   (SighashV1PrehashCache, unit) st" where
  "validate_htlc_spend_with_cache ssl H entry path_item sig_item ctx =
    validate_htlc_spend_at_height ssl H entry path_item sig_item ctx None None"

section \<open>Stealth outputs\<close>

definition stealth_suite_params :: "RotationProvider \<Rightarrow> SuiteRegistry \<Rightarrow> u8 \<Rightarrow> u64 \<Rightarrow> SuiteParams res" where
  "stealth_suite_params rp reg s block_height =
    (if s \<notin> native_spend_suites rp block_height
     then Err TxErrSigAlgInvalid ''CORE_STEALTH suite not in native spend set''
     else ok_or (TxError_new TxErrSigAlgInvalid ''CORE_STEALTH suite not registered'') (registry_lookup reg s))"

definition validate_stealth_witness_shape :: "WitnessItem \<Rightarrow> SuiteParams \<Rightarrow> unit res" where
  "validate_stealth_witness_shape w params =
    (if len64 (pubkey w) \<noteq> pubkey_len params \<or> len64 (signature w) \<noteq> sig_len params + 1
     then Err TxErrSigNoncanonical ''non-canonical witness item lengths'' else Ok ())"

definition validate_stealth_key_binding :: "(bytes \<Rightarrow> bytes32) \<Rightarrow> WitnessItem \<Rightarrow> StealthCovenant \<Rightarrow> unit res" where
  "validate_stealth_key_binding H w cov =
    (if H (pubkey w) \<noteq> one_time_key_id cov then Err TxErrSigInvalid ''CORE_STEALTH key binding mismatch'' else Ok ())"

definition validate_stealth_spend_q ::
  "OpenSSL \<Rightarrow> (bytes \<Rightarrow> bytes32) \<Rightarrow> UtxoEntry \<Rightarrow> WitnessItem \<Rightarrow> u32 \<Rightarrow> u64 \<Rightarrow> bytes32 \<Rightarrow> u64 \<Rightarrow>
   RotationProvider option \<Rightarrow> SuiteRegistry option \<Rightarrow> (spend_state, unit) st" where
  "validate_stealth_spend_q ssl H entry w input_index input_value chain_id block_height rotation registry =
    (let rp = rotation_or_default rotation; reg = registry_or_default registry in
     st_bind (st_lift (parse_stealth_covenant_data (ue_covenant_data entry))) (\<lambda>cov.
     st_bind (st_lift (stealth_suite_params rp reg (suite_id w) block_height)) (\<lambda>params.
     st_then (st_lift (validate_stealth_witness_shape w params)) (
     st_then (st_lift (validate_stealth_key_binding H w cov)) (
     verify_witness_sig ssl H w input_index input_value chain_id reg
       (TxError_new TxErrSigInvalid ''CORE_STEALTH signature invalid''))))))"

definition validate_stealth_spend_at_height ::
  "OpenSSL \<Rightarrow> (bytes \<Rightarrow> bytes32) \<Rightarrow> UtxoEntry \<Rightarrow> WitnessItem \<Rightarrow> Tx \<Rightarrow> u32 \<Rightarrow> u64 \<Rightarrow> bytes32 \<Rightarrow> u64 \<Rightarrow>
   RotationProvider option \<Rightarrow> SuiteRegistry option \<Rightarrow> (SighashV1PrehashCache, unit) st" where
  "validate_stealth_spend_at_height ssl H entry w tx input_index input_value chain_id block_height rotation registry =
    unqueued (validate_stealth_spend_q ssl H entry w input_index input_value chain_id block_height rotation registry)"

definition validate_stealth_spend_with_cache ::
  "OpenSSL \<Rightarrow> (bytes \<Rightarrow> bytes32) \<Rightarrow> UtxoEntry \<Rightarrow> WitnessItem \<Rightarrow> Tx \<Rightarrow> u32 \<Rightarrow> u64 \<Rightarrow> bytes32 \<Rightarrow> u64 \<Rightarrow>
   (SighashV1PrehashCache, unit) st" where
  "validate_stealth_spend_with_cache ssl H entry w tx input_index input_value chain_id block_height =
    validate_stealth_spend_at_height ssl H entry w tx input_index input_value chain_id block_height None None"

section \<open>Signing\<close>

text \<open>A signer is an interface of the library's users: its two methods.\<close>

record DigestSigner =
  pubkey_bytes :: bytes
  sign_digest32 :: "bytes32 \<Rightarrow> bytes res"

definition p2pk_covenant_data_for_pubkey :: "(bytes \<Rightarrow> bytes32) \<Rightarrow> bytes \<Rightarrow> bytes" where
  "p2pk_covenant_data_for_pubkey H pk = SUITE_ID_ML_DSA_87 # H pk"

definition signing_pubkey_key_id :: "(bytes \<Rightarrow> bytes32) \<Rightarrow> bytes \<Rightarrow> bytes32 res" where
  "signing_pubkey_key_id H pk =
    (if len64 pk \<noteq> ML_DSA_87_PUBKEY_BYTES
     then Err TxErrSigNoncanonical ''non-canonical ML-DSA public key length'' else Ok (H pk))"

definition signing_outpoint :: "TxInput \<Rightarrow> Outpoint" where
  "signing_outpoint i = \<lparr>op_txid = prev_txid i, op_vout = prev_vout i\<rparr>"

definition validate_signing_entry :: "UtxoEntry \<Rightarrow> bytes32 \<Rightarrow> unit res" where
  "validate_signing_entry entry key_id =
    (if ue_covenant_type entry \<noteq> COV_TYPE_P2PK
     then Err TxErrCovenantTypeInvalid ''unsupported covenant type for signing''
     else if len64 (ue_covenant_data entry) \<noteq> MAX_P2PK_COVENANT_DATA \<or> ue_covenant_data entry ! 0 \<noteq> SUITE_ID_ML_DSA_87
     then Err TxErrCovenantTypeInvalid ''CORE_P2PK covenant_data invalid''
     else if slice (ue_covenant_data entry) 1 33 \<noteq> key_id then Err TxErrSigInvalid ''signer key binding mismatch''
     else Ok ())"

definition signing_entry :: "(Outpoint \<rightharpoonup> UtxoEntry) \<Rightarrow> TxInput \<Rightarrow> bytes32 \<Rightarrow> UtxoEntry res" where
  "signing_entry utxo_set i key_id =
    and_then (ok_or (TxError_new TxErrMissingUtxo ''utxo not found for signing'') (utxo_set (signing_outpoint i))) (\<lambda>entry.
    and_then (validate_signing_entry entry key_id) (\<lambda>_. Ok entry))"

definition signed_witness_item :: "DigestSigner \<Rightarrow> bytes \<Rightarrow> bytes32 \<Rightarrow> WitnessItem res" where
  "signed_witness_item signer pk digest =
    and_then (sign_digest32 signer digest) (\<lambda>sg.
    if len64 sg \<noteq> ML_DSA_87_SIG_BYTES then Err TxErrSigNoncanonical ''non-canonical ML-DSA signature length''
    else Ok \<lparr>suite_id = SUITE_ID_ML_DSA_87, pubkey = pk, signature = sg @ [SIGHASH_ALL]\<rparr>)"

fun sign_inputs ::
  "(bytes \<Rightarrow> bytes32) \<Rightarrow> (Outpoint \<rightharpoonup> UtxoEntry) \<Rightarrow> bytes32 \<Rightarrow> DigestSigner \<Rightarrow> bytes \<Rightarrow> bytes32 \<Rightarrow> nat \<Rightarrow> TxInput list \<Rightarrow>
   (SighashV1PrehashCache, WitnessItem list) st" where
  "sign_inputs H utxo_set chain_id signer pk key_id idx [] = st_ok []"
| "sign_inputs H utxo_set chain_id signer pk key_id idx (i # is) =
    st_bind (st_lift (signing_entry utxo_set i key_id)) (\<lambda>entry.
    st_bind (sighash_v1_digest_with_cache H (of_nat idx) (ue_value entry) chain_id SIGHASH_ALL) (\<lambda>digest.
    st_bind (st_lift (signed_witness_item signer pk digest)) (\<lambda>w.
    st_bind (sign_inputs H utxo_set chain_id signer pk key_id (idx + 1) is) (\<lambda>ws.
    st_ok (w # ws)))))"

definition sign_transaction ::
  "(bytes \<Rightarrow> bytes32) \<Rightarrow> (Outpoint \<rightharpoonup> UtxoEntry) \<Rightarrow> bytes32 \<Rightarrow> DigestSigner \<Rightarrow> (Tx, unit) st" where
  "sign_transaction H utxo_set chain_id signer tx =
    (if inputs tx = [] then (Err TxErrParse ''non-coinbase must have at least one input'', tx)
     else
     let pk = pubkey_bytes signer in
     case and_then (signing_pubkey_key_id H pk) (\<lambda>key_id.
       with_new_cache tx (sign_inputs H utxo_set chain_id signer pk key_id 0 (inputs tx))) of
       Inl e \<Rightarrow> (Inl e, tx)
     | Inr ws \<Rightarrow> (Ok (), tx\<lparr>witness := ws\<rparr>))"

section \<open>Checks made at once\<close>

text \<open>
  Without a queue, what \<open>m\<close> returns on a transaction does not depend on what the cache
  holds: it is \<open>r\<close>.
\<close>

definition settles :: "(bytes \<Rightarrow> bytes32) \<Rightarrow> Tx \<Rightarrow> (spend_state, 'a) st \<Rightarrow> 'a res \<Rightarrow> bool" where
  "settles H tx m r \<longleftrightarrow> (\<forall>c. cache_ok H c \<and> sc_tx c = tx \<longrightarrow>
    (\<exists>c'. m (c, None) = (r, (c', None)) \<and> cache_ok H c' \<and> sc_tx c' = tx))"

lemma settles_lift: "settles H tx (st_lift r) r"
  by (simp add: settles_def st_lift_def)

lemma settles_bind:
  assumes "settles H tx m r" and "\<And>x. r = Inr x \<Longrightarrow> settles H tx (f x) (g x)"
  shows "settles H tx (st_bind m f) (and_then r g)"
  unfolding settles_def
proof (intro allI impI)
  fix c assume "cache_ok H c \<and> sc_tx c = tx"
  with assms(1) obtain c1 where c1: "m (c, None) = (r, (c1, None))" "cache_ok H c1" "sc_tx c1 = tx"
    unfolding settles_def by blast
  show "\<exists>c'. st_bind m f (c, None) = (and_then r g, (c', None)) \<and> cache_ok H c' \<and> sc_tx c' = tx"
  proof (cases r)
    case (Inl e)
    then show ?thesis using c1 by simp
  next
    case (Inr x)
    then show ?thesis using c1 assms(2) [OF Inr] unfolding settles_def by simp
  qed
qed

lemma settles_then:
  "settles H tx m r \<Longrightarrow> (\<And>x. r = Inr x \<Longrightarrow> settles H tx n r') \<Longrightarrow> settles H tx (st_then m n) (and_then r (\<lambda>_. r'))"
  unfolding st_then_def by (rule settles_bind)

lemma settles_unique:
  assumes "settles H tx m r" and "settles H tx m r'"
  shows "r = r'"
proof -
  obtain c where "SighashV1PrehashCache_new tx = Ok c" by (simp add: SighashV1PrehashCache_new_def)
  then have "cache_ok H c \<and> sc_tx c = tx" using cache_ok_new by blast
  then show ?thesis using assms unfolding settles_def by fastforce
qed

lemma settles_unqueued:
  assumes "settles H tx m r"
  shows "with_new_cache tx (unqueued m) = r"
proof -
  obtain c where c: "SighashV1PrehashCache_new tx = Ok c" by (simp add: SighashV1PrehashCache_new_def)
  then have "cache_ok H c \<and> sc_tx c = tx" using cache_ok_new by blast
  then show ?thesis using assms c unfolding settles_def with_new_cache_def by (auto simp: unqueued_def)
qed

text \<open>What the signature of a witness item amounts to, and when it authorises an input.\<close>

definition witness_sig_spec ::
  "OpenSSL \<Rightarrow> (bytes \<Rightarrow> bytes32) \<Rightarrow> Tx \<Rightarrow> SuiteRegistry \<Rightarrow> u32 \<Rightarrow> u64 \<Rightarrow> bytes32 \<Rightarrow> WitnessItem \<Rightarrow> TxError \<Rightarrow> unit res" where
  "witness_sig_spec ssl H tx reg i val chain_id w err =
    and_then (extract_crypto_sig_and_sighash w) (\<lambda>(sg, ty).
    and_then (sighash_spec H tx i val chain_id ty) (\<lambda>d.
    check_signature ssl (suite_id w) (pubkey w) sg d (Some reg) err))"

definition signs ::
  "OpenSSL \<Rightarrow> (bytes \<Rightarrow> bytes32) \<Rightarrow> Tx \<Rightarrow> SuiteRegistry \<Rightarrow> u32 \<Rightarrow> u64 \<Rightarrow> bytes32 \<Rightarrow> WitnessItem \<Rightarrow> bool" where
  "signs ssl H tx reg i val chain_id w \<longleftrightarrow> signature w \<noteq> [] \<and> is_valid_sighash_type (last (signature w)) \<and>
    (\<exists>d. sighash_v1_digest_with_type H tx i val chain_id (last (signature w)) = Ok d \<and>
      verify_sig_with_registry ssl (suite_id w) (pubkey w) (butlast (signature w)) d (Some reg) = Ok True)"

lemma check_signature_Ok: "check_signature ssl s pk sg d reg err = Ok () \<longleftrightarrow>
    verify_sig_with_registry ssl s pk sg d reg = Ok True"
  by (auto simp: check_signature_def split: if_splits)

lemma witness_sig_spec_Ok:
  "witness_sig_spec ssl H tx reg i val chain_id w err = Ok () \<longleftrightarrow> signs ssl H tx reg i val chain_id w"
  by (auto simp: witness_sig_spec_def extract_crypto_sig_and_sighash_def signs_def digest_with_type_spec
      check_signature_Ok split: if_splits)

lemma settles_digest:
  "settles H tx (on_cache (sighash_v1_digest_with_cache H i val chain_id ty)) (sighash_spec H tx i val chain_id ty)"
  unfolding settles_def
proof (intro allI impI)
  fix c assume c: "cache_ok H c \<and> sc_tx c = tx"
  obtain r c' where "sighash_v1_digest_with_cache H i val chain_id ty c = (r, c')" by (rule prod.exhaust)
  then show "\<exists>c'. on_cache (sighash_v1_digest_with_cache H i val chain_id ty) (c, None) =
      (sighash_spec H tx i val chain_id ty, (c', None)) \<and> cache_ok H c' \<and> sc_tx c' = tx"
    using digest_with_cache_ok [of H c] c by (auto simp: on_cache_def)
qed

lemma settles_witness_sig:
  "settles H tx (verify_witness_sig ssl H w i val chain_id reg err) (witness_sig_spec ssl H tx reg i val chain_id w err)"
proof -
  have "settles H tx (on_queue (queue_or_verify_signature ssl s pk sg d reg err)) (check_signature ssl s pk sg d (Some reg) err)"
    for s pk sg d
    by (simp add: settles_def on_queue_def queue_or_verify_signature_def)
  then show ?thesis
    unfolding verify_witness_sig_def witness_sig_spec_def
    by (auto intro!: settles_bind settles_lift settles_digest)
qed

text \<open>A witness item of a suite that may spend at the height, with the lengths of the suite.\<close>

definition item_shape :: "NativeSuiteSet \<Rightarrow> SuiteRegistry \<Rightarrow> WitnessItem \<Rightarrow> bool" where
  "item_shape native reg w \<longleftrightarrow> suite_id w \<in> native \<and> (\<exists>p. registry_lookup reg (suite_id w) = Some p \<and>
    len64 (pubkey w) = pubkey_len p \<and> len64 (signature w) = sig_len p + 1)"

lemma suite_params_Ok:
  "and_then (spend_suite_params w native reg m m') (validate_witness_item_lengths w) = Ok u \<longleftrightarrow> item_shape native reg w"
  by (auto simp: spend_suite_params_def validate_witness_item_lengths_def item_shape_def split: if_splits)

lemma settles_key_and_sig:
  "settles H tx (verify_mldsa_key_and_sig_q ssl H w key i val chain_id reg e e')
    (if H (pubkey w) \<noteq> key then Inl e else witness_sig_spec ssl H tx reg i val chain_id w e')"
  unfolding verify_mldsa_key_and_sig_q_def by (simp add: settles_lift settles_witness_sig)

lemma p2pk_settles:
  fixes rotation registry
  defines "reg \<equiv> registry_or_default registry" and "native h \<equiv> native_spend_suites (rotation_or_default rotation) h"
  shows "\<exists>r. settles H tx (validate_p2pk_spend_q ssl H entry w i val chain_id h rotation registry) r \<and>
    (r = Ok () \<longleftrightarrow> item_shape (native h) reg w \<and> len64 (ue_covenant_data entry) = 33 \<and>
      ue_covenant_data entry ! 0 = suite_id w \<and> slice (ue_covenant_data entry) 1 33 = H (pubkey w) \<and> signs ssl H tx reg i val chain_id w)"
proof -
  let ?r = "and_then (spend_suite_params w (native h) reg
       ''CORE_P2PK suite not in native spend set'' ''CORE_P2PK suite not registered'') (\<lambda>params.
     and_then (validate_witness_item_lengths w params) (\<lambda>_.
     and_then (p2pk_covenant_key_id entry (suite_id w)) (\<lambda>key.
     if H (pubkey w) \<noteq> key then Inl (TxError_new TxErrSigInvalid ''CORE_P2PK key binding mismatch'')
     else witness_sig_spec ssl H tx reg i val chain_id w (TxError_new TxErrSigInvalid ''CORE_P2PK signature invalid''))))"
  have "settles H tx (validate_p2pk_spend_q ssl H entry w i val chain_id h rotation registry) ?r"
    unfolding validate_p2pk_spend_q_def Let_def reg_def native_def
    by (intro settles_bind settles_then settles_lift settles_key_and_sig)
  moreover have "?r = Ok () \<longleftrightarrow> item_shape (native h) reg w \<and> (\<exists>key. p2pk_covenant_key_id entry (suite_id w) = Ok key \<and>
      H (pubkey w) = key) \<and> signs ssl H tx reg i val chain_id w"
    using suite_params_Ok [of w "native h" reg] witness_sig_spec_Ok [of ssl H tx reg i val chain_id w]
    by (auto split: if_splits)
  moreover have "(\<exists>key. p2pk_covenant_key_id entry (suite_id w) = Ok key \<and> H (pubkey w) = key) \<longleftrightarrow>
      len64 (ue_covenant_data entry) = 33 \<and> ue_covenant_data entry ! 0 = suite_id w \<and>
      slice (ue_covenant_data entry) 1 33 = H (pubkey w)"
    by (auto simp: p2pk_covenant_key_id_def MAX_P2PK_COVENANT_DATA_def)
  ultimately show ?thesis by blast
qed

definition slot_signed ::
  "OpenSSL \<Rightarrow> (bytes \<Rightarrow> bytes32) \<Rightarrow> Tx \<Rightarrow> SuiteRegistry \<Rightarrow> NativeSuiteSet \<Rightarrow> u32 \<Rightarrow> u64 \<Rightarrow> bytes32 \<Rightarrow> bytes32 \<Rightarrow>
   WitnessItem \<Rightarrow> bool" where
  "slot_signed ssl H tx reg native i val chain_id key w \<longleftrightarrow>
    (if suite_id w = SUITE_ID_SENTINEL then pubkey w = [] \<and> signature w = []
     else item_shape native reg w \<and> H (pubkey w) = key \<and> signs ssl H tx reg i val chain_id w)"

lemma threshold_slot_settles:
  "\<exists>r. settles H tx (threshold_slot ssl H i val chain_id native ctx reg key w v) r \<and>
    (\<forall>x. r = Ok x \<longleftrightarrow> slot_signed ssl H tx reg native i val chain_id key w \<and>
      x = (if suite_id w = SUITE_ID_SENTINEL then v else saturating_add v 1))"
proof (cases "suite_id w = SUITE_ID_SENTINEL")
  case True
  then show ?thesis
    by (cases "pubkey w \<noteq> [] \<or> signature w \<noteq> []")
      (auto simp: threshold_slot_def slot_signed_def intro!: exI settles_lift)
next
  case False
  let ?r = "and_then (spend_suite_params w native reg
       (threshold_sig_error_message ctx SuiteNotInNativeSpendSet)
       (threshold_sig_error_message ctx SuiteNotRegistered)) (\<lambda>params.
     and_then (validate_witness_item_lengths w params) (\<lambda>_.
     and_then (if H (pubkey w) \<noteq> key
       then Inl (TxError_new TxErrSigInvalid (threshold_sig_error_message ctx KeyBindingMismatch))
       else witness_sig_spec ssl H tx reg i val chain_id w
         (TxError_new TxErrSigInvalid (threshold_sig_error_message ctx SignatureInvalid))) (\<lambda>_.
     Ok (saturating_add v 1))))"
  have "settles H tx (threshold_slot ssl H i val chain_id native ctx reg key w v) ?r"
    unfolding threshold_slot_def using False
    by (simp only: if_False) (intro settles_bind settles_then settles_lift settles_key_and_sig)
  moreover have "?r = Ok x \<longleftrightarrow> item_shape native reg w \<and> H (pubkey w) = key \<and>
      signs ssl H tx reg i val chain_id w \<and> x = saturating_add v 1" for x
    using suite_params_Ok [of w native reg] witness_sig_spec_Ok [of ssl H tx reg i val chain_id w]
    by (auto split: if_splits)
  ultimately show ?thesis unfolding slot_signed_def using False by (simp only: if_False simp_thms) blast
qed

definition signed_slots :: "WitnessItem list \<Rightarrow> nat" where
  "signed_slots ws = length (filter (\<lambda>w. suite_id w \<noteq> SUITE_ID_SENTINEL) ws)"

lemma threshold_slots_settles:
  "length ws = length keys \<Longrightarrow>
    \<exists>r. settles H tx (threshold_slots ssl H i val chain_id native ctx reg (zip keys ws) v) r \<and>
    (\<forall>x. r = Ok x \<longleftrightarrow> list_all2 (slot_signed ssl H tx reg native i val chain_id) keys ws \<and>
      unat x = min 255 (unat v + signed_slots ws))"
proof (induction ws keys arbitrary: v rule: list_induct2)
  case Nil
  have "unat v \<le> 255" using unsigned_less [of v, where 'a = nat] by simp
  then show ?case by (auto simp: signed_slots_def word_unat_eq_iff intro!: exI settles_lift)
next
  case (Cons w ws key keys)
  obtain r where r: "settles H tx (threshold_slot ssl H i val chain_id native ctx reg key w v) r"
    "\<And>x. r = Ok x \<longleftrightarrow> slot_signed ssl H tx reg native i val chain_id key w \<and>
      x = (if suite_id w = SUITE_ID_SENTINEL then v else saturating_add v 1)"
    using threshold_slot_settles [of H tx ssl i val chain_id native ctx reg key w v] by blast
  obtain g where g: "\<And>x. settles H tx (threshold_slots ssl H i val chain_id native ctx reg (zip keys ws) x) (g x)"
    "\<And>x y. g x = Ok y \<longleftrightarrow> list_all2 (slot_signed ssl H tx reg native i val chain_id) keys ws \<and>
      unat y = min 255 (unat x + signed_slots ws)"
    using Cons.IH by metis
  have "settles H tx (threshold_slots ssl H i val chain_id native ctx reg (zip (key # keys) (w # ws)) v) (and_then r g)"
    by (simp add: settles_bind r(1) g(1))
  moreover have "unat (saturating_add v 1 :: u8) = min 255 (unat v + 1)"
    by (simp add: unat_saturating_add)
  ultimately show ?case using r(2) g(2)
    by (intro exI [of _ "and_then r g"]) (auto simp: signed_slots_def min_def)
qed

lemma threshold_settles:
  fixes rotation registry
  defines "reg \<equiv> registry_or_default registry" and "native h \<equiv> native_spend_suites (rotation_or_default rotation) h"
  shows "\<exists>r. settles H tx (validate_threshold_sig_spend_q ssl H keys threshold ws i val chain_id h ctx rotation registry) r \<and>
    (r = Ok () \<longleftrightarrow> list_all2 (slot_signed ssl H tx reg (native h) i val chain_id) keys ws \<and>
      unat threshold \<le> signed_slots ws)"
proof (cases "length ws = length keys")
  case False
  then show ?thesis
    by (auto simp: settles_def validate_threshold_sig_spend_q_def dest: list_all2_lengthD
        intro!: exI [of _ "Err TxErrParse ''witness slot assignment mismatch''"])
next
  case True
  obtain r where r: "settles H tx (threshold_slots ssl H i val chain_id (native h) ctx reg (zip keys ws) 0) r"
    "\<And>x. r = Ok x \<longleftrightarrow> list_all2 (slot_signed ssl H tx reg (native h) i val chain_id) keys ws \<and>
      unat x = min 255 (signed_slots ws)"
    using threshold_slots_settles [OF True, of H tx ssl i val chain_id "native h" ctx reg 0] by auto
  let ?f = "\<lambda>valid. if valid < threshold
          then Err TxErrSigInvalid (threshold_sig_error_message ctx ThresholdNotMet) else Ok ()"
  have s: "settles H tx (st_bind (threshold_slots ssl H i val chain_id (native h) ctx reg (zip keys ws) 0)
       (\<lambda>valid. if valid < threshold
          then st_err TxErrSigInvalid (threshold_sig_error_message ctx ThresholdNotMet) else st_ok ())) (and_then r ?f)"
    by (rule settles_bind [OF r(1)]) (simp add: settles_lift)
  have "settles H tx (validate_threshold_sig_spend_q ssl H keys threshold ws i val chain_id h ctx rotation registry)
      (and_then r ?f)"
    unfolding settles_def
  proof (intro allI impI)
    fix c assume "cache_ok H c \<and> sc_tx c = tx"
    with s obtain c' where c': "st_bind (threshold_slots ssl H i val chain_id (native h) ctx reg (zip keys ws) 0)
       (\<lambda>valid. if valid < threshold
          then st_err TxErrSigInvalid (threshold_sig_error_message ctx ThresholdNotMet) else st_ok ()) (c, None)
        = (and_then r ?f, (c', None))" "cache_ok H c' \<and> sc_tx c' = tx"
      unfolding settles_def by blast
    then show "\<exists>c'. validate_threshold_sig_spend_q ssl H keys threshold ws i val chain_id h ctx rotation registry (c, None)
        = (and_then r ?f, (c', None)) \<and> cache_ok H c' \<and> sc_tx c' = tx"
      using True unfolding validate_threshold_sig_spend_q_def Let_def reg_def native_def
      by (cases "and_then r ?f") auto
  qed
  moreover have "unat threshold \<le> 255" using unsigned_less [of threshold, where 'a = nat] by simp
  moreover have "\<exists>x :: u8. unat x = min 255 (signed_slots ws)"
    by (rule exI [of _ "of_nat (min 255 (signed_slots ws))"]) (simp add: unat_of_nat)
  ultimately show ?thesis using r(2)
    by (intro exI [of _ "and_then r ?f"]) (auto simp: word_less_nat_alt not_less)
qed

text \<open>
  C18: a threshold spend (multisig, or the owner keys of a vault) is authorised exactly
  when there is one witness item per key, in the order of the keys, each of them
  either the keyless placeholder or a signature of this input that verifies under
  the key of its slot in a suite that may spend at this height, and the number of
  signatures reaches the threshold.
\<close>

theorem threshold_spend_iff:
  "with_new_cache tx (validate_threshold_sig_spend_at_height ssl H keys threshold ws tx i val chain_id h ctx
      rotation registry) = Ok () \<longleftrightarrow>
    list_all2 (slot_signed ssl H tx (registry_or_default registry)
      (native_spend_suites (rotation_or_default rotation) h) i val chain_id) keys ws \<and>
    unat threshold \<le> signed_slots ws"
proof -
  obtain r where r: "settles H tx (validate_threshold_sig_spend_q ssl H keys threshold ws i val chain_id h ctx rotation registry) r"
    "r = Ok () \<longleftrightarrow> list_all2 (slot_signed ssl H tx (registry_or_default registry)
      (native_spend_suites (rotation_or_default rotation) h) i val chain_id) keys ws \<and> unat threshold \<le> signed_slots ws"
    using threshold_settles by blast
  then show ?thesis
    unfolding validate_threshold_sig_spend_at_height_def using settles_unqueued [OF r(1)] by simp
qed

lemma htlc_claim_Ok:
  "validate_htlc_claim_path H cov sg key = Ok k \<longleftrightarrow> k = claim_key_id cov \<and> key = claim_key_id cov \<and>
    (\<exists>b pre. sg = b # to_le16 (of_nat (length pre)) @ pre \<and> 16 \<le> length pre \<and> length pre \<le> 256 \<and> H pre = htlc_hash cov)"
  (is "?l \<longleftrightarrow> ?r")
proof
  assume l: ?l
  then have "3 \<le> length sg" by (auto simp: validate_htlc_claim_path_def split: if_splits)
  then obtain a b c pre where sg: "sg = a # b # c # pre"
    by (cases sg; cases "tl sg"; cases "tl (tl sg)") auto
  let ?n = "unat (from_le16 [b, c])"
  have n: "?n < 65536" using unsigned_less [of "from_le16 [b, c]", where 'a = nat] by simp
  have f: "16 \<le> ?n" "?n \<le> 256" "length pre = ?n" "k = claim_key_id cov" "key = claim_key_id cov" "H pre = htlc_hash cov"
    using l n by (auto simp: sg validate_htlc_claim_path_def slice_def Let_def word_less_nat_alt not_less
        unat_of_nat unat_ucast split: if_splits)
  moreover have "to_le16 (of_nat (length pre)) = [b, c]" using f(3) by (simp add: to_from_le)
  ultimately show ?r using sg by (intro conjI exI [of _ a] exI [of _ pre]) simp_all
next
  assume ?r
  then obtain b pre where f: "k = claim_key_id cov" "key = claim_key_id cov" "16 \<le> length pre" "length pre \<le> 256"
      "H pre = htlc_hash cov" and sg: "sg = b # to_le16 (of_nat (length pre)) @ pre" by blast
  have "slice sg 1 3 = to_le16 (of_nat (length pre))" using sg by (simp add: slice_def)
  then show ?l using f sg
    by (simp add: validate_htlc_claim_path_def Let_def word_less_nat_alt unat_of_nat)
qed

lemma htlc_refund_Ok:
  "validate_htlc_refund_path cov sg key x = Ok k \<longleftrightarrow> k = refund_key_id cov \<and> key = refund_key_id cov \<and> length sg = 1 \<and>
    lock_value cov \<le> (if lock_mode cov = LOCK_MODE_HEIGHT then hx_block_height x else hx_block_mtp x)"
  by (auto simp: validate_htlc_refund_path_def not_less split: if_splits)

lemma htlc_precheck_Ok:
  "validate_htlc_signature_precheck H w key h rp reg = Ok () \<longleftrightarrow>
    item_shape (native_spend_suites rp h) reg w \<and> H (pubkey w) = key"
  by (auto simp: validate_htlc_signature_precheck_def item_shape_def split: if_splits)

text \<open>The two ways to open a hashed time lock.\<close>

definition htlc_claims :: "(bytes \<Rightarrow> bytes32) \<Rightarrow> HtlcCovenant \<Rightarrow> WitnessItem \<Rightarrow> WitnessItem \<Rightarrow> bool" where
  "htlc_claims H cov path_item sig_item \<longleftrightarrow> pubkey path_item = claim_key_id cov \<and> H (pubkey sig_item) = claim_key_id cov \<and>
    (\<exists>pre. signature path_item = 0 # to_le16 (of_nat (length pre)) @ pre \<and> 16 \<le> length pre \<and> length pre \<le> 256 \<and>
      H pre = htlc_hash cov)"

definition htlc_refunds :: "(bytes \<Rightarrow> bytes32) \<Rightarrow> HtlcCovenant \<Rightarrow> HtlcSpendContext \<Rightarrow> WitnessItem \<Rightarrow> WitnessItem \<Rightarrow> bool" where
  "htlc_refunds H cov x path_item sig_item \<longleftrightarrow>
    pubkey path_item = refund_key_id cov \<and> H (pubkey sig_item) = refund_key_id cov \<and> signature path_item = [1] \<and>
    lock_value cov \<le> (if lock_mode cov = LOCK_MODE_HEIGHT then hx_block_height x else hx_block_mtp x)"

lemma htlc_paths:
  "(\<exists>sel. parse_htlc_selector p = Ok sel \<and> expected_htlc_spend_key_id H cov sel x = Ok (H (pubkey w))) \<longleftrightarrow>
    suite_id p = SUITE_ID_SENTINEL \<and> length (pubkey p) = 32 \<and> (htlc_claims H cov p w \<or> htlc_refunds H cov x p w)"
  (is "?l \<longleftrightarrow> ?r")
proof -
  have "?l \<longleftrightarrow> suite_id p = SUITE_ID_SENTINEL \<and> length (pubkey p) = 32 \<and> signature p \<noteq> [] \<and>
      (signature p ! 0 = 0 \<and> validate_htlc_claim_path H cov (signature p) (pubkey p) = Ok (H (pubkey w)) \<or>
       signature p ! 0 = 1 \<and> validate_htlc_refund_path cov (signature p) (pubkey p) x = Ok (H (pubkey w)))"
    by (auto simp: parse_htlc_selector_def expected_htlc_spend_key_id_def split: if_splits)
  also have "\<dots> \<longleftrightarrow> ?r"
    by (auto simp: htlc_claim_Ok htlc_refund_Ok htlc_claims_def htlc_refunds_def length_Suc_conv)
  finally show ?thesis .
qed

lemma htlc_settles:
  fixes rotation registry
  defines "reg \<equiv> registry_or_default registry" and "rp \<equiv> rotation_or_default rotation"
  shows "\<exists>r. settles H tx (validate_htlc_spend_q ssl H entry p w x rotation registry) r \<and> (r = Ok () \<longleftrightarrow>
    (\<exists>cov. parse_htlc_covenant_data (ue_covenant_data entry) = Ok cov \<and>
      suite_id p = SUITE_ID_SENTINEL \<and> length (pubkey p) = 32 \<and> (htlc_claims H cov p w \<or> htlc_refunds H cov x p w)) \<and>
    item_shape (native_spend_suites rp (hx_block_height x)) reg w \<and>
    signs ssl H tx reg (hx_input_index x) (hx_input_value x) (hx_chain_id x) w)"
proof -
  let ?r = "and_then (parse_htlc_covenant_data (ue_covenant_data entry)) (\<lambda>cov.
    and_then (parse_htlc_selector p) (\<lambda>sel.
    and_then (expected_htlc_spend_key_id H cov sel x) (\<lambda>key.
    and_then (validate_htlc_signature_precheck H w key (hx_block_height x) rp reg) (\<lambda>_.
    witness_sig_spec ssl H tx reg (hx_input_index x) (hx_input_value x) (hx_chain_id x) w
      (TxError_new TxErrSigInvalid ''CORE_HTLC signature invalid'')))))"
  have "settles H tx (validate_htlc_spend_q ssl H entry p w x rotation registry) ?r"
    unfolding validate_htlc_spend_q_def Let_def reg_def rp_def
    by (intro settles_bind settles_then settles_lift settles_witness_sig)
  moreover have "?r = Ok () \<longleftrightarrow> (\<exists>cov. parse_htlc_covenant_data (ue_covenant_data entry) = Ok cov \<and>
      (\<exists>sel. parse_htlc_selector p = Ok sel \<and> expected_htlc_spend_key_id H cov sel x = Ok (H (pubkey w)))) \<and>
      item_shape (native_spend_suites rp (hx_block_height x)) reg w \<and>
      signs ssl H tx reg (hx_input_index x) (hx_input_value x) (hx_chain_id x) w"
    by (auto simp: htlc_precheck_Ok witness_sig_spec_Ok)
  ultimately show ?thesis unfolding htlc_paths by blast
qed

lemma stealth_settles:
  fixes rotation registry
  defines "reg \<equiv> registry_or_default registry" and "native h \<equiv> native_spend_suites (rotation_or_default rotation) h"
  shows "\<exists>r. settles H tx (validate_stealth_spend_q ssl H entry w i val chain_id h rotation registry) r \<and> (r = Ok () \<longleftrightarrow>
    (\<exists>cov. parse_stealth_covenant_data (ue_covenant_data entry) = Ok cov \<and> H (pubkey w) = one_time_key_id cov) \<and>
    item_shape (native h) reg w \<and> signs ssl H tx reg i val chain_id w)"
proof -
  let ?r = "and_then (parse_stealth_covenant_data (ue_covenant_data entry)) (\<lambda>cov.
    and_then (stealth_suite_params (rotation_or_default rotation) reg (suite_id w) h) (\<lambda>params.
    and_then (validate_stealth_witness_shape w params) (\<lambda>_.
    and_then (validate_stealth_key_binding H w cov) (\<lambda>_.
    witness_sig_spec ssl H tx reg i val chain_id w (TxError_new TxErrSigInvalid ''CORE_STEALTH signature invalid'')))))"
  have "settles H tx (validate_stealth_spend_q ssl H entry w i val chain_id h rotation registry) ?r"
    unfolding validate_stealth_spend_q_def Let_def reg_def
    by (intro settles_bind settles_then settles_lift settles_witness_sig)
  moreover have "?r = Ok () \<longleftrightarrow>
    (\<exists>cov. parse_stealth_covenant_data (ue_covenant_data entry) = Ok cov \<and> H (pubkey w) = one_time_key_id cov) \<and>
    item_shape (native h) reg w \<and> signs ssl H tx reg i val chain_id w"
    by (auto simp: witness_sig_spec_Ok validate_stealth_key_binding_def validate_stealth_witness_shape_def
        stealth_suite_params_def item_shape_def native_def split: if_splits)
  ultimately show ?thesis by blast
qed

text \<open>
  C19: a hashed time lock opens exactly on one of two paths. On the claim path the
  selector carries a preimage of 16 to 256 bytes of the lock's hash, and the claim
  key signs; on the refund path the lock's height or median time has been reached,
  and the refund key signs. Both need a signature item of a suite that may spend at
  this height, over the digest of this input.
\<close>

theorem htlc_spend_iff:
  "with_new_cache tx (validate_htlc_spend_at_height ssl H entry p w x rotation registry) = Ok () \<longleftrightarrow>
    (\<exists>cov. parse_htlc_covenant_data (ue_covenant_data entry) = Ok cov \<and>
      suite_id p = SUITE_ID_SENTINEL \<and> length (pubkey p) = 32 \<and>
      (htlc_claims H cov p w \<or> htlc_refunds H cov x p w)) \<and>
    item_shape (native_spend_suites (rotation_or_default rotation) (hx_block_height x)) (registry_or_default registry) w \<and>
    signs ssl H tx (registry_or_default registry) (hx_input_index x) (hx_input_value x) (hx_chain_id x) w"
proof -
  obtain r where r: "settles H tx (validate_htlc_spend_q ssl H entry p w x rotation registry) r"
    "r = Ok () \<longleftrightarrow> (\<exists>cov. parse_htlc_covenant_data (ue_covenant_data entry) = Ok cov \<and>
      suite_id p = SUITE_ID_SENTINEL \<and> length (pubkey p) = 32 \<and> (htlc_claims H cov p w \<or> htlc_refunds H cov x p w)) \<and>
    item_shape (native_spend_suites (rotation_or_default rotation) (hx_block_height x)) (registry_or_default registry) w \<and>
    signs ssl H tx (registry_or_default registry) (hx_input_index x) (hx_input_value x) (hx_chain_id x) w"
    using htlc_settles [of H tx ssl entry p w x rotation registry] by (elim exE conjE) (rule that)
  show ?thesis unfolding validate_htlc_spend_at_height_def settles_unqueued [OF r(1)] by (rule r(2))
qed

section \<open>What is signed can be spent\<close>

lemma sign_inputs_Ok:
  assumes "sign_inputs H utxo_set chain_id signer pk key_id idx ins c = (Inr ws, c')" and "cache_ok H c" and "sc_tx c = tx"
  shows "length ws = length ins \<and> (\<forall>j < length ins. \<exists>entry d sg.
      utxo_set (signing_outpoint (ins ! j)) = Some entry \<and> validate_signing_entry entry key_id = Ok () \<and>
      sighash_spec H tx (of_nat (idx + j)) (ue_value entry) chain_id SIGHASH_ALL = Ok d \<and>
      sign_digest32 signer d = Ok sg \<and> len64 sg = ML_DSA_87_SIG_BYTES \<and>
      ws ! j = \<lparr>suite_id = SUITE_ID_ML_DSA_87, pubkey = pk, signature = sg @ [SIGHASH_ALL]\<rparr>)"
  using assms
proof (induction ins arbitrary: idx c ws)
  case (Cons i ins)
  from Cons.prems(1) obtain entry d c1 w ws' where
      e: "signing_entry utxo_set i key_id = Ok entry"
    and d: "sighash_v1_digest_with_cache H (of_nat idx) (ue_value entry) chain_id SIGHASH_ALL c = (Inr d, c1)"
    and w: "signed_witness_item signer pk d = Ok w"
    and ws: "sign_inputs H utxo_set chain_id signer pk key_id (idx + 1) ins c1 = (Inr ws', c')" "ws = w # ws'"
    by (auto simp: st_simps)
  have c1: "Inr d = sighash_spec H tx (of_nat idx) (ue_value entry) chain_id SIGHASH_ALL" "cache_ok H c1" "sc_tx c1 = tx"
    using digest_with_cache_ok [OF Cons.prems(2) d] Cons.prems(3) by auto
  note IH = Cons.IH [OF ws(1) c1(2,3)]
  show ?case
  proof (intro conjI allI impI)
    show "length ws = length (i # ins)" using IH ws(2) by simp
    fix j assume j: "j < length (i # ins)"
    show "\<exists>entry d sg. utxo_set (signing_outpoint ((i # ins) ! j)) = Some entry \<and> validate_signing_entry entry key_id = Ok () \<and>
      sighash_spec H tx (of_nat (idx + j)) (ue_value entry) chain_id SIGHASH_ALL = Ok d \<and>
      sign_digest32 signer d = Ok sg \<and> len64 sg = ML_DSA_87_SIG_BYTES \<and>
      ws ! j = \<lparr>suite_id = SUITE_ID_ML_DSA_87, pubkey = pk, signature = sg @ [SIGHASH_ALL]\<rparr>"
    proof (cases j)
      case 0
      have "utxo_set (signing_outpoint i) = Some entry" "validate_signing_entry entry key_id = Ok ()"
        using e by (auto simp: signing_entry_def)
      moreover obtain sg where "sign_digest32 signer d = Ok sg" "len64 sg = ML_DSA_87_SIG_BYTES"
          "w = \<lparr>suite_id = SUITE_ID_ML_DSA_87, pubkey = pk, signature = sg @ [SIGHASH_ALL]\<rparr>"
        using w by (auto simp: signed_witness_item_def split: if_splits)
      ultimately show ?thesis using 0 c1(1) [symmetric] ws(2) by simp
    next
      case (Suc k)
      then show ?thesis using IH j ws(2) by simp
    qed
  qed
qed simp

lemma fst_Inr: "fst p = Inr x \<longleftrightarrow> (\<exists>s. p = (Inr x, s))"
  by (cases p) simp

lemma default_rotation_spend: "native_spend_suites DefaultRotationProvider h = {SUITE_ID_ML_DSA_87}"
  by (simp add: DefaultRotationProvider_simps)

lemma sighash_spec_witness: "sighash_spec H (tx\<lparr>witness := ws\<rparr>) i val chain_id ty = sighash_spec H tx i val chain_id ty"
  by (simp add: sighash_spec_def sh_preimage_def sh_prevouts_def sh_sequences_def sh_outputs_def sh_single_def
      da_core_fields_bytes_def)

text \<open>
  C23: a transaction that \<open>sign_transaction\<close> signed spends. For a signer whose
  signatures the verifier accepts under its public key, every input of the signed
  transaction passes the pay-to-public-key check with the witness item of its
  index, under the default suites and at every height. Signing changes nothing but
  the witness.
\<close>

theorem signed_transaction_spends:
  assumes sgn: "sign_transaction H utxo_set chain_id signer tx = (Ok (), tx')"
    and hash: "\<And>x. length (H x) = 32"
    and ver: "\<And>d sg. length d = 32 \<Longrightarrow> sign_digest32 signer d = Ok sg \<Longrightarrow> len64 sg = ML_DSA_87_SIG_BYTES \<Longrightarrow>
      verify_sig_with_registry ssl SUITE_ID_ML_DSA_87 (pubkey_bytes signer) sg d (Some default_registry) = Ok True"
    and j: "j < length (inputs tx)"
  shows "(\<exists>entry. utxo_set (signing_outpoint (inputs tx ! j)) = Some entry \<and>
      validate_p2pk_spend ssl H entry (witness tx' ! j) tx' (of_nat j) (ue_value entry) chain_id h = Ok ()) \<and>
    tx' = tx\<lparr>witness := witness tx'\<rparr> \<and> length (witness tx') = length (inputs tx)"
proof -
  let ?pk = "pubkey_bytes signer"
  obtain c where c: "SighashV1PrehashCache_new tx = Ok c" by (simp add: SighashV1PrehashCache_new_def)
  obtain ws c' where ws: "len64 ?pk = ML_DSA_87_PUBKEY_BYTES" "tx' = tx\<lparr>witness := ws\<rparr>"
      "sign_inputs H utxo_set chain_id signer ?pk (H ?pk) 0 (inputs tx) c = (Inr ws, c')"
    using sgn by (auto simp: sign_transaction_def Let_def signing_pubkey_key_id_def with_new_cache_def c fst_Inr
        split: if_splits sum.splits)
  note S = sign_inputs_Ok [OF ws(3)] cache_ok_new [OF c]
  then obtain entry d sg where f: "utxo_set (signing_outpoint (inputs tx ! j)) = Some entry"
      "validate_signing_entry entry (H ?pk) = Ok ()"
      "sighash_spec H tx (of_nat j) (ue_value entry) chain_id SIGHASH_ALL = Ok d"
      "sign_digest32 signer d = Ok sg" "len64 sg = ML_DSA_87_SIG_BYTES"
      "ws ! j = \<lparr>suite_id = SUITE_ID_ML_DSA_87, pubkey = ?pk, signature = sg @ [SIGHASH_ALL]\<rparr>"
    using j by (auto simp: add_0)
  obtain r where r: "settles H tx' (validate_p2pk_spend_q ssl H entry (ws ! j) (of_nat j) (ue_value entry) chain_id h None None) r"
      "r = Ok () \<longleftrightarrow> item_shape (native_spend_suites (rotation_or_default None) h) (registry_or_default None) (ws ! j) \<and>
        len64 (ue_covenant_data entry) = 33 \<and> ue_covenant_data entry ! 0 = suite_id (ws ! j) \<and>
        slice (ue_covenant_data entry) 1 33 = H (pubkey (ws ! j)) \<and>
        signs ssl H tx' (registry_or_default None) (of_nat j) (ue_value entry) chain_id (ws ! j)"
    using p2pk_settles by blast
  have i: "item_shape (native_spend_suites (rotation_or_default None) h) (registry_or_default None) (ws ! j)"
    using f(5) ws(1)
    by (simp add: item_shape_def f(6) rotation_or_default_def registry_or_default_def default_rotation_spend
        default_registry_lookup ml_dsa_87_params_def)
  have d: "length d = 32" using f(3) hash by (auto simp: sighash_spec_def split: if_splits)
  have "signs ssl H tx' (registry_or_default None) (of_nat j) (ue_value entry) chain_id (ws ! j)"
    using f(3) ver [OF d f(4,5)]
    by (simp add: signs_def f(6) ws(2) digest_with_type_spec sighash_spec_witness registry_or_default_def
        is_valid_sighash_type_def)
  then have "r = Ok ()"
    using f(2) r(2) i by (auto simp: validate_signing_entry_def f(6) MAX_P2PK_COVENANT_DATA_def split: if_splits)
  then have "validate_p2pk_spend ssl H entry (ws ! j) tx' (of_nat j) (ue_value entry) chain_id h = Ok ()"
    using settles_unqueued [OF r(1)]
    by (simp add: validate_p2pk_spend_def validate_p2pk_spend_with_cache_def [abs_def] validate_p2pk_spend_at_height_def)
  then show ?thesis using f(1) ws(2) S by simp
qed

definition demo_signer :: DigestSigner where
  "demo_signer = \<lparr>pubkey_bytes = replicate 2592 0, sign_digest32 = \<lambda>_. Ok (1 # replicate 4626 0)\<rparr>"

definition demo_hash :: "bytes \<Rightarrow> bytes32" where
  "demo_hash x = take 32 (x @ replicate 32 0)"

definition demo_tx :: Tx where
  "demo_tx = \<lparr>version = 1, tx_kind = 0, tx_nonce = 1,
    inputs = [\<lparr>prev_txid = replicate 32 5, prev_vout = 0, script_sig = [], sequence = 0\<rparr>],
    outputs = [], locktime = 0, da_commit_core = None, da_chunk_core = None, witness = [], da_payload = []\<rparr>"

definition demo_entry :: UtxoEntry where
  "demo_entry = \<lparr>ue_value = 9, ue_covenant_type = COV_TYPE_P2PK,
    ue_covenant_data = p2pk_covenant_data_for_pubkey demo_hash (replicate 2592 0), creation_height = 0,
    created_by_coinbase = False\<rparr>"

theorem signed_transaction_spends_witness:
  "\<exists>tx'. sign_transaction demo_hash (\<lambda>_. Some demo_entry) (replicate 32 0) demo_signer demo_tx = (Ok (), tx') \<and>
    validate_p2pk_spend demo_ssl demo_hash demo_entry (witness tx' ! 0) tx' 0 9 (replicate 32 0) 100 = Ok ()"
proof -
  have ver: "verify_sig_with_registry demo_ssl SUITE_ID_ML_DSA_87 (pubkey_bytes demo_signer) sg d (Some default_registry) = Ok True"
    if "length d = 32" "sign_digest32 demo_signer d = Ok sg" for d sg
  proof -
    have "d \<noteq> []" using that(1) by auto
    then show ?thesis using that(2)
      by (auto simp: verify_sig_with_registry_def runtime_suite_params_for_verification_def
          runtime_suite_params_for_verification_with_default_def runtime_verification_registry_with_default_def
          default_registry_lookup ml_dsa_87_params_def resolve_binding
          verify_sig_with_binding_def ensure_openssl_consensus_init_def openssl_consensus_bootstrap_def
          map_openssl_init_rc_def openssl_check_sigalg_def openssl_verify_sig_digest_oneshot_def
          map_digest_verify_rc_def demo_ssl_def demo_signer_def const_defs)
  qed
  have hash: "length (demo_hash x) = 32" for x by (simp add: demo_hash_def)
  have entry: "validate_signing_entry demo_entry (demo_hash (pubkey_bytes demo_signer)) = Ok ()"
    by (simp add: validate_signing_entry_def demo_entry_def p2pk_covenant_data_for_pubkey_def demo_signer_def hash
        slice_def const_defs)
  obtain c where c: "SighashV1PrehashCache_new demo_tx = Ok c" by (simp add: SighashV1PrehashCache_new_def)
  obtain r c' where d: "sighash_v1_digest_with_cache demo_hash 0 9 (replicate 32 0) SIGHASH_ALL c = (r, c')"
    by (rule prod.exhaust)
  have "r = sighash_spec demo_hash demo_tx 0 9 (replicate 32 0) SIGHASH_ALL"
    using digest_with_cache_ok [OF _ d] cache_ok_new [OF c] by simp
  then obtain dig where "r = Ok dig"
    by (simp add: sighash_spec_def demo_tx_def is_valid_sighash_type_def da_core_fields_bytes_def)
  then have "\<exists>tx'. sign_transaction demo_hash (\<lambda>_. Some demo_entry) (replicate 32 0) demo_signer demo_tx = (Ok (), tx')"
    using d c entry
    by (auto simp: sign_transaction_def signing_pubkey_key_id_def demo_signer_def with_new_cache_def signing_entry_def
        demo_tx_def demo_entry_def signed_witness_item_def const_defs Let_def st_lift_def)
  then obtain tx' where tx': "sign_transaction demo_hash (\<lambda>_. Some demo_entry) (replicate 32 0) demo_signer demo_tx = (Ok (), tx')"
    by blast
  have "0 < length (inputs demo_tx)" by (simp add: demo_tx_def)
  from signed_transaction_spends [OF tx' hash ver this, of 100] tx' show ?thesis
    by (auto simp: demo_entry_def)
qed

section \<open>Checks that are deferred\<close>

interpretation sd: queue_state "snd :: spend_state \<Rightarrow> SigCheckQueue option" "\<lambda>q s. (fst s, q)"
  by unfold_locales simp_all

lemma on_queue_defers:
  assumes "qs.defers ssl reg m"
  shows "sd.defers ssl reg (on_queue m)"
proof (rule sd.defersI)
  fix s :: spend_state and q assume "registry_fits reg q"
  with assms obtain r s' q' ts where m: "m (Some q) = (r, Some q')" "queued reg q ts q'" "qs.ends ssl reg m s' ts r s'"
    by (auto elim!: qs.defersE simp: qs.ends_def)
  obtain r0 q0 where n: "m None = (r0, q0)" by (rule prod.exhaust)
  have "sd.ends ssl reg (on_queue m) s ts r s"
    using m(3) n by (cases r; cases "try_for_each (task_check ssl (Some reg)) ts")
      (simp_all add: sd.ends_def qs.ends_def on_queue_def del: try_for_each_Inr)
  then show "\<exists>r s' q' ts. on_queue m (fst s, Some q) = (r, fst s', Some q') \<and> queued reg q ts q' \<and>
      sd.ends ssl reg (on_queue m) s ts r s'"
    using m(1,2) by (intro exI [of _ r] exI [of _ s] exI [of _ q'] exI [of _ ts]) (simp add: on_queue_def)
qed

lemma on_cache_defers: "sd.defers ssl reg (on_cache m)"
  by (rule sd.defers_untouched [of _ "\<lambda>s. case m (fst s) of (r, c') \<Rightarrow> (r, (c', snd s))"])
    (simp add: on_cache_def split: prod.split)

lemma verify_witness_sig_defers: "sd.defers ssl reg (verify_witness_sig ssl H w i val chain_id reg err)"
  unfolding verify_witness_sig_def
  by (auto intro!: sd.defers_bind sd.defers_lift on_cache_defers on_queue_defers queue_or_verify_defers split: prod.split)

lemma key_and_sig_defers: "sd.defers ssl reg (verify_mldsa_key_and_sig_q ssl H w key i val chain_id reg e e')"
  unfolding verify_mldsa_key_and_sig_q_def by (simp add: sd.defers_lift verify_witness_sig_defers)

lemma p2pk_defers:
  "registry_or_default registry = reg \<Longrightarrow>
    sd.defers ssl reg (validate_p2pk_spend_q ssl H entry w i val chain_id h rotation registry)"
  unfolding validate_p2pk_spend_q_def Let_def by (auto intro!: sd.defers_intros key_and_sig_defers)

lemma htlc_defers:
  "registry_or_default registry = reg \<Longrightarrow>
    sd.defers ssl reg (validate_htlc_spend_q ssl H entry p w x rotation registry)"
  unfolding validate_htlc_spend_q_def Let_def by (auto intro!: sd.defers_intros verify_witness_sig_defers)

lemma stealth_defers:
  "registry_or_default registry = reg \<Longrightarrow>
    sd.defers ssl reg (validate_stealth_spend_q ssl H entry w i val chain_id h rotation registry)"
  unfolding validate_stealth_spend_q_def Let_def by (auto intro!: sd.defers_intros verify_witness_sig_defers)

lemma threshold_slots_defers:
  "sd.defers ssl reg (threshold_slots ssl H i val chain_id native ctx reg kws v)"
proof (induction kws arbitrary: v)
  case (Cons kw kws)
  have "sd.defers ssl reg (threshold_slot ssl H i val chain_id native ctx reg key w v)" for key w v
    unfolding threshold_slot_def by (auto intro!: sd.defers_intros key_and_sig_defers)
  then show ?case using Cons by (cases kw) (simp add: sd.defers_bind)
qed (simp add: sd.defers_lift)

lemma threshold_defers:
  assumes "registry_or_default registry = reg"
  shows "sd.defers ssl reg (validate_threshold_sig_spend_q ssl H keys threshold ws i val chain_id h ctx rotation registry)"
proof (cases "length ws = length keys")
  case False
  then show ?thesis
    by (intro sd.defers_untouched [of _ "\<lambda>s. (Err TxErrParse ''witness slot assignment mismatch'', s)"])
      (simp add: validate_threshold_sig_spend_q_def)
next
  case True
  let ?native = "native_spend_suites (rotation_or_default rotation) h"
  let ?m = "st_bind (threshold_slots ssl H i val chain_id ?native ctx reg (zip keys ws) 0)
       (\<lambda>valid. if valid < threshold
          then st_err TxErrSigInvalid (threshold_sig_error_message ctx ThresholdNotMet) else st_ok ())"
  have "sd.defers ssl reg ?m" by (auto intro!: sd.defers_intros threshold_slots_defers)
  then show ?thesis
  proof (rule sd.defers_rollback)
    fix s :: spend_state and x s' assume "?m s = (Inr x, s')"
    then show "validate_threshold_sig_spend_q ssl H keys threshold ws i val chain_id h ctx rotation registry s = (Inr x, s')"
      using True assms by (simp add: validate_threshold_sig_spend_q_def)
  next
    fix s :: spend_state and e s' assume "?m s = (Inl e, s')"
    then show "validate_threshold_sig_spend_q ssl H keys threshold ws i val chain_id h ctx rotation registry s =
      (Inl e, fst s', case (snd s, snd s') of
        (Some q, Some q') \<Rightarrow> Some (rollback_to q' (queue_mark q)) | _ \<Rightarrow> snd s')"
      using True assms
      by (cases s; cases s') (auto simp: validate_threshold_sig_spend_q_def split: option.splits)
  qed
qed

end
