(* ===== verification/Utxo.thy ===== *)
theory Utxo
  imports Spend
begin

text \<open>
  Applying a transaction to the set of unspent outputs (\<open>utxo_basic.rs\<close>). The state of
  the code, \<open>UtxoApplyState\<close>, is threaded through the phases of the code: resolving the
  inputs, checking the spends, adding the outputs, the vault rules and the final value
  check. Outpoints and indices of inputs and outputs keep the low 32 bits, as in the
  code; \<open>usize\<close> counters are naturals.
\<close>

type_synonym utxo_set = "Outpoint \<rightharpoonup> UtxoEntry"

record UtxoApplySummary =
  fee :: u128
  utxo_count :: u64

record UtxoApplyImplContext =
  cx_tx :: Tx
  cx_txid :: bytes32
  cx_utxo_set :: utxo_set
  cx_height :: u64
  cx_block_timestamp :: u64
  cx_block_mtp :: u64
  cx_chain_id :: bytes32
  cx_rotation :: "RotationProvider option"
  cx_registry :: "SuiteRegistry option"

record VaultSpendState =
  vs_keys :: "bytes32 list"
  vs_threshold :: u8
  vs_witness_range :: "nat \<times> nat"
  vs_input_index :: u32
  vs_input_value :: u64
  vs_owner_lock_id :: bytes32
  vs_whitelist :: "bytes32 list"

record UtxoApplyState =
  ua_work :: utxo_set
  sighash_cache :: SighashV1PrehashCache
  sig_queue :: "SigCheckQueue option"
  sum_in :: u128
  sum_in_vault :: u128
  sum_out :: u128
  vault_input_count :: nat
  creates_vault :: bool
  vault_spend :: "VaultSpendState option"
  witness_cursor :: nat
  input_lock_ids :: "bytes32 list"
  input_cov_types :: "u16 list"
  seen_inputs :: "Outpoint set"
  resolved_inputs :: "UtxoEntry list"
  resolved_witness_ranges :: "(nat \<times> nat) list"
  resolved_outpoints :: "Outpoint list"

type_synonym 'a apply_st = "(UtxoApplyState, 'a) st"

definition on_spend :: "(spend_state, 'a) st \<Rightarrow> 'a apply_st" where
  "on_spend m s = (case m (sighash_cache s, sig_queue s) of (r, (c, q)) \<Rightarrow>
     (r, s\<lparr>sighash_cache := c, sig_queue := q\<rparr>))"

definition st_update :: "('s \<Rightarrow> 's) \<Rightarrow> ('s, unit) st" where
  "st_update f = (\<lambda>s. (Ok (), f s))"

definition st_get :: "('s \<Rightarrow> 'a) \<Rightarrow> ('s, 'a) st" where
  "st_get f = (\<lambda>s. (Ok (f s), s))"

section \<open>Inputs\<close>

definition validate_non_coinbase_input_encoding :: "TxInput \<Rightarrow> unit res" where
  "validate_non_coinbase_input_encoding i =
    (if prev_vout i = - 1 \<and> prev_txid i = replicate 32 0
     then Err TxErrParse ''coinbase prevout encoding forbidden in non-coinbase''
     else if script_sig i \<noteq> [] then Err TxErrParse ''script_sig must be empty under genesis covenant set''
     else if sequence i > 0x7fffffff then Err TxErrSequenceInvalid ''sequence exceeds 0x7fffffff''
     else Ok ())"

definition validate_apply_inputs :: "UtxoApplyImplContext \<Rightarrow> unit res" where
  "validate_apply_inputs ctx =
    (if tx_nonce (cx_tx ctx) = 0 then Err TxErrTxNonceInvalid ''tx_nonce must be >= 1 for non-coinbase''
     else if inputs (cx_tx ctx) = [] then Err TxErrParse ''non-coinbase must have at least one input''
     else validate_tx_covenants_genesis (cx_tx ctx) (cx_height ctx) (cx_rotation ctx))"

definition UtxoApplyState_new :: "UtxoApplyImplContext \<Rightarrow> SigCheckQueue option \<Rightarrow> UtxoApplyState res" where
  "UtxoApplyState_new ctx queue =
    and_then (SighashV1PrehashCache_new (cx_tx ctx)) (\<lambda>c.
    Ok \<lparr>ua_work = cx_utxo_set ctx, sighash_cache = c, sig_queue = queue, sum_in = 0, sum_in_vault = 0, sum_out = 0,
      vault_input_count = 0, creates_vault = False, vault_spend = None, witness_cursor = 0,
      input_lock_ids = [], input_cov_types = [], seen_inputs = {}, resolved_inputs = [],
      resolved_witness_ranges = [], resolved_outpoints = []\<rparr>)"

definition validate_input_availability :: "UtxoEntry \<Rightarrow> u64 \<Rightarrow> unit res" where
  "validate_input_availability entry height =
    (if ue_covenant_type entry = COV_TYPE_ANCHOR \<or> ue_covenant_type entry = COV_TYPE_DA_COMMIT
     then Err TxErrMissingUtxo ''attempt to spend non-spendable covenant''
     else if created_by_coinbase entry \<and>
       (height < creation_height entry \<or> height - creation_height entry < COINBASE_MATURITY)
     then Err TxErrCoinbaseImmature ''coinbase immature''
     else Ok ())"

definition check_spend_covenant :: "u16 \<Rightarrow> bytes \<Rightarrow> unit res" where
  "check_spend_covenant ty data =
    (if ty = COV_TYPE_P2PK then Ok ()
     else if ty = COV_TYPE_CORE_STEALTH then and_then (parse_stealth_covenant_data data) (\<lambda>_. Ok ())
     else if ty = COV_TYPE_VAULT then and_then (parse_vault_covenant_data_for_spend data) (\<lambda>_. Ok ())
     else if ty = COV_TYPE_MULTISIG then and_then (parse_multisig_covenant_data data) (\<lambda>_. Ok ())
     else if ty = COV_TYPE_HTLC then and_then (parse_htlc_covenant_data data) (\<lambda>_. Ok ())
     else Err TxErrCovenantTypeInvalid ''unsupported covenant in basic apply'')"

definition validate_input_covenant :: "UtxoEntry \<Rightarrow> unit apply_st" where
  "validate_input_covenant entry s =
    (let vault = (ue_covenant_type entry = COV_TYPE_VAULT);
         s = (if vault then s\<lparr>vault_input_count := vault_input_count s + 1\<rparr> else s) in
     if vault \<and> vault_input_count s > 1
     then (Err TxErrVaultMultiInputForbidden ''multiple CORE_VAULT inputs forbidden'', s)
     else if ue_covenant_type entry = COV_TYPE_CORE_SIMPLICITY then (Inl reject_core_simplicity_spend, s)
     else (check_spend_covenant (ue_covenant_type entry) (ue_covenant_data entry), s))"

definition record_resolved_input :: "Tx \<Rightarrow> UtxoEntry \<Rightarrow> Outpoint \<Rightarrow> unit apply_st" where
  "record_resolved_input tx entry op s =
    (case witness_slots (ue_covenant_type entry) (ue_covenant_data entry) of
       Inl e \<Rightarrow> (Inl e, s)
     | Inr slots \<Rightarrow>
       if slots = 0 then (Err TxErrParse ''invalid witness slots'', s)
       else if witness_cursor s + slots > length (witness tx) then (Err TxErrParse ''witness underflow'', s)
       else (Ok (), s\<lparr>resolved_inputs := resolved_inputs s @ [entry],
         resolved_witness_ranges := resolved_witness_ranges s @ [(witness_cursor s, witness_cursor s + slots)],
         resolved_outpoints := resolved_outpoints s @ [op], witness_cursor := witness_cursor s + slots\<rparr>))"

definition resolve_input :: "UtxoApplyImplContext \<Rightarrow> TxInput \<Rightarrow> unit apply_st" where
  "resolve_input ctx i s =
    (let op = signing_outpoint i in
     case validate_non_coinbase_input_encoding i of
       Inl e \<Rightarrow> (Inl e, s)
     | Inr _ \<Rightarrow>
       if op \<in> seen_inputs s then (Err TxErrParse ''duplicate input outpoint'', s)
       else
       let s = s\<lparr>seen_inputs := insert op (seen_inputs s)\<rparr> in
       case ua_work s op of
         None \<Rightarrow> (Err TxErrMissingUtxo ''utxo not found'', s)
       | Some entry \<Rightarrow>
         st_then (st_lift (validate_input_availability entry (cx_height ctx))) (
         st_then (validate_input_covenant entry) (
         record_resolved_input (cx_tx ctx) entry op)) s)"

definition resolve_inputs :: "UtxoApplyImplContext \<Rightarrow> unit apply_st" where
  "resolve_inputs ctx =
    st_then (st_for_each (resolve_input ctx) (inputs (cx_tx ctx))) (\<lambda>s.
    if witness_cursor s \<noteq> length (witness (cx_tx ctx)) then (Err TxErrParse ''witness_count mismatch'', s)
    else (Ok (), s))"

section \<open>Spends\<close>

definition assigned_witness :: "Tx \<Rightarrow> nat \<times> nat \<Rightarrow> WitnessItem list res" where
  "assigned_witness tx rng =
    (if fst rng \<le> snd rng \<and> snd rng \<le> length (witness tx)
     then Ok (slice (witness tx) (fst rng) (snd rng)) else Err TxErrParse ''witness underflow'')"

definition apply_p2pk_spend ::
  "OpenSSL \<Rightarrow> (bytes \<Rightarrow> bytes32) \<Rightarrow> UtxoApplyImplContext \<Rightarrow> UtxoEntry \<Rightarrow> WitnessItem list \<Rightarrow> u32 \<Rightarrow> (spend_state, unit) st" where
  "apply_p2pk_spend ssl H ctx entry ws input_index = (case ws of
     [w] \<Rightarrow> validate_p2pk_spend_q ssl H entry w input_index (ue_value entry) (cx_chain_id ctx) (cx_height ctx)
       (cx_rotation ctx) (cx_registry ctx)
   | _ \<Rightarrow> st_err TxErrParse ''CORE_P2PK witness_slots must be 1'')"

definition apply_multisig_spend ::
  "OpenSSL \<Rightarrow> (bytes \<Rightarrow> bytes32) \<Rightarrow> UtxoApplyImplContext \<Rightarrow> UtxoEntry \<Rightarrow> WitnessItem list \<Rightarrow> u32 \<Rightarrow> (spend_state, unit) st" where
  "apply_multisig_spend ssl H ctx entry ws input_index =
    st_bind (st_lift (parse_multisig_covenant_data (ue_covenant_data entry))) (\<lambda>m.
    validate_threshold_sig_spend_q ssl H (m_keys m) (m_threshold m) ws input_index (ue_value entry) (cx_chain_id ctx)
      (cx_height ctx) ''CORE_MULTISIG'' (cx_rotation ctx) (cx_registry ctx))"

definition htlc_context :: "UtxoApplyImplContext \<Rightarrow> UtxoEntry \<Rightarrow> u32 \<Rightarrow> HtlcSpendContext" where
  "htlc_context ctx entry input_index =
    \<lparr>hx_input_index = input_index, hx_input_value = ue_value entry, hx_chain_id = cx_chain_id ctx,
     hx_block_height = cx_height ctx, hx_block_mtp = cx_block_mtp ctx\<rparr>"

definition apply_htlc_spend ::
  "OpenSSL \<Rightarrow> (bytes \<Rightarrow> bytes32) \<Rightarrow> UtxoApplyImplContext \<Rightarrow> UtxoEntry \<Rightarrow> WitnessItem list \<Rightarrow> u32 \<Rightarrow> (spend_state, unit) st" where
  "apply_htlc_spend ssl H ctx entry ws input_index = (case ws of
     [selector, w] \<Rightarrow> validate_htlc_spend_q ssl H entry selector w (htlc_context ctx entry input_index)
       (cx_rotation ctx) (cx_registry ctx)
   | _ \<Rightarrow> st_err TxErrParse ''CORE_HTLC witness_slots must be 2'')"

definition apply_stealth_spend ::
  "OpenSSL \<Rightarrow> (bytes \<Rightarrow> bytes32) \<Rightarrow> UtxoApplyImplContext \<Rightarrow> UtxoEntry \<Rightarrow> WitnessItem list \<Rightarrow> u32 \<Rightarrow> (spend_state, unit) st" where
  "apply_stealth_spend ssl H ctx entry ws input_index = (case ws of
     [w] \<Rightarrow> validate_stealth_spend_q ssl H entry w input_index (ue_value entry) (cx_chain_id ctx) (cx_height ctx)
       (cx_rotation ctx) (cx_registry ctx)
   | _ \<Rightarrow> st_err TxErrParse ''CORE_STEALTH witness_slots must be 1'')"

definition VaultSpendState_capture :: "UtxoEntry \<Rightarrow> nat \<times> nat \<Rightarrow> u32 \<Rightarrow> VaultSpendState res" where
  "VaultSpendState_capture entry rng input_index =
    and_then (parse_vault_covenant_data_for_spend (ue_covenant_data entry)) (\<lambda>v.
    Ok \<lparr>vs_keys = v_keys v, vs_threshold = v_threshold v, vs_witness_range = rng, vs_input_index = input_index,
      vs_input_value = ue_value entry, vs_owner_lock_id = owner_lock_id v, vs_whitelist = whitelist v\<rparr>)"

definition validate_resolved_spend ::
  "OpenSSL \<Rightarrow> (bytes \<Rightarrow> bytes32) \<Rightarrow> UtxoApplyImplContext \<Rightarrow> UtxoEntry \<Rightarrow> nat \<times> nat \<Rightarrow> nat \<Rightarrow> unit apply_st" where
  "validate_resolved_spend ssl H ctx entry rng input_index =
    st_bind (st_lift (assigned_witness (cx_tx ctx) rng)) (\<lambda>assigned.
    let input_index = of_nat input_index :: u32; ty = ue_covenant_type entry in
    if ty = COV_TYPE_P2PK then on_spend (apply_p2pk_spend ssl H ctx entry assigned input_index)
    else if ty = COV_TYPE_MULTISIG then on_spend (apply_multisig_spend ssl H ctx entry assigned input_index)
    else if ty = COV_TYPE_VAULT
    then st_bind (st_lift (VaultSpendState_capture entry rng input_index)) (\<lambda>captured.
      st_update (\<lambda>s. s\<lparr>vault_spend := Some captured\<rparr>))
    else if ty = COV_TYPE_HTLC then on_spend (apply_htlc_spend ssl H ctx entry assigned input_index)
    else if ty = COV_TYPE_CORE_STEALTH then on_spend (apply_stealth_spend ssl H ctx entry assigned input_index)
    else st_ok ())"

definition add_input_value :: "UtxoEntry \<Rightarrow> unit apply_st" where
  "add_input_value entry s =
    (case checked_add (sum_in s) (ucast (ue_value entry)) of
       None \<Rightarrow> (Err TxErrParse ''u128 overflow'', s)
     | Some v \<Rightarrow>
       let s = s\<lparr>sum_in := v\<rparr> in
       if ue_covenant_type entry = COV_TYPE_VAULT
       then (case checked_add (sum_in_vault s) (ucast (ue_value entry)) of
           None \<Rightarrow> (Err TxErrParse ''u128 overflow'', s)
         | Some v \<Rightarrow> (Ok (), s\<lparr>sum_in_vault := v\<rparr>))
       else (Ok (), s))"

definition validate_spend ::
  "OpenSSL \<Rightarrow> (bytes \<Rightarrow> bytes32) \<Rightarrow> UtxoApplyImplContext \<Rightarrow> nat \<times> (UtxoEntry \<times> (nat \<times> nat)) \<times> Outpoint \<Rightarrow> unit apply_st" where
  "validate_spend ssl H ctx = (\<lambda>(input_index, (entry, rng), op).
    st_then (validate_resolved_spend ssl H ctx entry rng input_index) (
    st_then (st_update (\<lambda>s. s\<lparr>
      input_lock_ids := input_lock_ids s @ [H (output_descriptor_bytes (ue_covenant_type entry) (ue_covenant_data entry))],
      input_cov_types := input_cov_types s @ [ue_covenant_type entry]\<rparr>)) (
    st_then (add_input_value entry) (
    st_update (\<lambda>s. s\<lparr>ua_work := (ua_work s)(op := None)\<rparr>)))))"

definition validate_spends :: "OpenSSL \<Rightarrow> (bytes \<Rightarrow> bytes32) \<Rightarrow> UtxoApplyImplContext \<Rightarrow> unit apply_st" where
  "validate_spends ssl H ctx s =
    st_for_each (validate_spend ssl H ctx)
      (List.enumerate 0 (zip (zip (resolved_inputs s) (resolved_witness_ranges s)) (resolved_outpoints s))) s"

section \<open>Outputs\<close>

definition add_output :: "UtxoApplyImplContext \<Rightarrow> nat \<times> TxOutput \<Rightarrow> unit apply_st" where
  "add_output ctx = (\<lambda>(i, out) s.
    case checked_add (sum_out s) (ucast (out_value out)) of
      None \<Rightarrow> (Err TxErrParse ''u128 overflow'', s)
    | Some v \<Rightarrow>
      let s = s\<lparr>sum_out := v\<rparr>;
          s = (if out_covenant_type out = COV_TYPE_VAULT then s\<lparr>creates_vault := True\<rparr> else s) in
      if out_covenant_type out = COV_TYPE_ANCHOR \<or> out_covenant_type out = COV_TYPE_DA_COMMIT then (Ok (), s)
      else (Ok (), s\<lparr>ua_work := (ua_work s)(\<lparr>op_txid = cx_txid ctx, op_vout = of_nat i\<rparr> \<mapsto>
        \<lparr>ue_value = out_value out, ue_covenant_type = out_covenant_type out, ue_covenant_data = out_covenant_data out,
         creation_height = cx_height ctx, created_by_coinbase = False\<rparr>)\<rparr>))"

definition add_outputs :: "UtxoApplyImplContext \<Rightarrow> unit apply_st" where
  "add_outputs ctx = st_for_each (add_output ctx) (List.enumerate 0 (outputs (cx_tx ctx)))"

section \<open>Vaults\<close>

definition has_owner_authorized_input :: "bytes32 list \<Rightarrow> u16 list \<Rightarrow> bytes32 \<Rightarrow> bool" where
  "has_owner_authorized_input lock_ids cov_types owner \<longleftrightarrow>
    list_ex (\<lambda>(lock_id, ty). lock_id = owner \<and> (ty = COV_TYPE_P2PK \<or> ty = COV_TYPE_MULTISIG)) (zip lock_ids cov_types)"

definition has_owner_lock_input :: "bytes32 list \<Rightarrow> bytes32 \<Rightarrow> bool" where
  "has_owner_lock_input lock_ids owner \<longleftrightarrow> List.member lock_ids owner"

definition non_vault_inputs_owned_by :: "bytes32 list \<Rightarrow> u16 list \<Rightarrow> bytes32 \<Rightarrow> bool" where
  "non_vault_inputs_owned_by lock_ids cov_types owner \<longleftrightarrow>
    list_all (\<lambda>(lock_id, ty). ty = COV_TYPE_VAULT \<or> lock_id = owner) (zip lock_ids cov_types)"

definition vault_creation_step :: "bytes32 list \<Rightarrow> u16 list \<Rightarrow> TxOutput \<Rightarrow> unit res" where
  "vault_creation_step lock_ids cov_types out =
    (if out_covenant_type out \<noteq> COV_TYPE_VAULT then Ok ()
     else and_then (parse_vault_covenant_data (out_covenant_data out)) (\<lambda>v.
       if \<not> has_owner_authorized_input lock_ids cov_types (owner_lock_id v)
       then Err TxErrVaultOwnerAuthRequired ''missing owner-authorized input for CORE_VAULT creation''
       else Ok ()))"

definition validate_vault_creation :: "UtxoApplyImplContext \<Rightarrow> UtxoApplyState \<Rightarrow> unit res" where
  "validate_vault_creation ctx s =
    (if creates_vault s
     then try_for_each (vault_creation_step (input_lock_ids s) (input_cov_types s)) (outputs (cx_tx ctx)) else Ok ())"

definition validate_owner_and_sponsor :: "VaultSpendState \<Rightarrow> bytes32 list \<Rightarrow> u16 list \<Rightarrow> unit res" where
  "validate_owner_and_sponsor v locks types =
    (if \<not> has_owner_lock_input locks (vs_owner_lock_id v)
     then Err TxErrVaultOwnerAuthRequired ''missing owner-authorized input for CORE_VAULT spend''
     else if \<not> non_vault_inputs_owned_by locks types (vs_owner_lock_id v)
     then Err TxErrVaultFeeSponsorForbidden ''non-owner non-vault input forbidden in CORE_VAULT spend''
     else Ok ())"

definition validate_no_recursion :: "Tx \<Rightarrow> unit res" where
  "validate_no_recursion tx = try_for_each (\<lambda>out.
     if out_covenant_type out = COV_TYPE_VAULT
     then Err TxErrVaultOutputNotWhitelisted ''CORE_VAULT outputs forbidden in CORE_VAULT spend''
     else Ok ()) (outputs tx)"

definition vault_validate_signature ::
  "OpenSSL \<Rightarrow> (bytes \<Rightarrow> bytes32) \<Rightarrow> UtxoApplyImplContext \<Rightarrow> VaultSpendState \<Rightarrow> (spend_state, unit) st" where
  "vault_validate_signature ssl H ctx v =
    st_bind (st_lift (assigned_witness (cx_tx ctx) (vs_witness_range v))) (\<lambda>ws.
    validate_threshold_sig_spend_q ssl H (vs_keys v) (vs_threshold v) ws (vs_input_index v) (vs_input_value v)
      (cx_chain_id ctx) (cx_height ctx) ''CORE_VAULT'' (cx_rotation ctx) (cx_registry ctx))"

definition vault_destination_step :: "(bytes \<Rightarrow> bytes32) \<Rightarrow> VaultSpendState \<Rightarrow> TxOutput \<Rightarrow> unit res" where
  "vault_destination_step H v out =
    (if out_covenant_type out \<noteq> COV_TYPE_P2PK \<and> out_covenant_type out \<noteq> COV_TYPE_MULTISIG \<and> out_covenant_type out \<noteq> COV_TYPE_HTLC
     then Err TxErrVaultOutputNotWhitelisted ''disallowed destination covenant_type for CORE_VAULT spend''
     else if \<not> hash_in_sorted_32 (vs_whitelist v) (H (output_descriptor_bytes (out_covenant_type out) (out_covenant_data out)))
     then Err TxErrVaultOutputNotWhitelisted ''output not whitelisted for CORE_VAULT''
     else Ok ())"

definition validate_destinations :: "(bytes \<Rightarrow> bytes32) \<Rightarrow> VaultSpendState \<Rightarrow> Tx \<Rightarrow> unit res" where
  "validate_destinations H v tx = try_for_each (vault_destination_step H v) (outputs tx)"

definition validate_vault_spend :: "OpenSSL \<Rightarrow> (bytes \<Rightarrow> bytes32) \<Rightarrow> UtxoApplyImplContext \<Rightarrow> unit apply_st" where
  "validate_vault_spend ssl H ctx s =
    (if vault_input_count s = 1
     then (case vault_spend s of
         None \<Rightarrow> (Err TxErrParse ''missing CORE_VAULT signature context'', s)
       | Some v \<Rightarrow>
         st_then (st_update (\<lambda>s. s\<lparr>vault_spend := None\<rparr>)) (
         st_then (\<lambda>s. (validate_owner_and_sponsor v (input_lock_ids s) (input_cov_types s), s)) (
         st_then (st_lift (validate_no_recursion (cx_tx ctx))) (
         st_then (on_spend (vault_validate_signature ssl H ctx v)) (
         st_lift (validate_destinations H v (cx_tx ctx)))))) s)
     else (Ok (), s))"

section \<open>The whole transaction\<close>

definition finish :: "UtxoApplyState \<Rightarrow> (utxo_set \<times> UtxoApplySummary) res" where
  "finish s =
    (if sum_out s > sum_in s then Err TxErrValueConservation ''sum_out exceeds sum_in''
     else if vault_input_count s = 1 \<and> sum_out s < sum_in_vault s
     then Err TxErrValueConservation ''CORE_VAULT value must not fund miner fee''
     else Ok (ua_work s, \<lparr>fee = sum_in s - sum_out s, utxo_count = of_nat (card (dom (ua_work s)))\<rparr>))"

definition apply_phases ::
  "OpenSSL \<Rightarrow> (bytes \<Rightarrow> bytes32) \<Rightarrow> UtxoApplyImplContext \<Rightarrow> (utxo_set \<times> UtxoApplySummary) apply_st" where
  "apply_phases ssl H ctx =
    st_then (resolve_inputs ctx) (
    st_then (validate_spends ssl H ctx) (
    st_then (add_outputs ctx) (
    st_then (\<lambda>s. (validate_vault_creation ctx s, s)) (
    st_then (validate_vault_spend ssl H ctx) (
    \<lambda>s. (finish s, s))))))"

type_synonym apply_result = "(utxo_set \<times> UtxoApplySummary) res"

definition apply_impl ::
  "OpenSSL \<Rightarrow> (bytes \<Rightarrow> bytes32) \<Rightarrow> UtxoApplyImplContext \<Rightarrow> SigCheckQueue option \<Rightarrow> apply_result \<times> SigCheckQueue option" where
  "apply_impl ssl H ctx queue =
    (case and_then (validate_apply_inputs ctx) (\<lambda>_. UtxoApplyState_new ctx queue) of
       Inl e \<Rightarrow> (Inl e, queue)
     | Inr s \<Rightarrow> apsnd sig_queue (apply_phases ssl H ctx s))"

definition apply_context ::
  "Tx \<Rightarrow> bytes32 \<Rightarrow> utxo_set \<Rightarrow> u64 \<Rightarrow> u64 \<Rightarrow> u64 \<Rightarrow> bytes32 \<Rightarrow> RotationProvider option \<Rightarrow> SuiteRegistry option \<Rightarrow>
   UtxoApplyImplContext" where
  "apply_context tx txid utxos height ts mtp chain_id rotation registry =
    \<lparr>cx_tx = tx, cx_txid = txid, cx_utxo_set = utxos, cx_height = height, cx_block_timestamp = ts,
     cx_block_mtp = mtp, cx_chain_id = chain_id, cx_rotation = rotation, cx_registry = registry\<rparr>"

definition apply_with_suite_context ::
  "OpenSSL \<Rightarrow> (bytes \<Rightarrow> bytes32) \<Rightarrow> Tx \<Rightarrow> bytes32 \<Rightarrow> utxo_set \<Rightarrow> u64 \<Rightarrow> u64 \<Rightarrow> u64 \<Rightarrow> bytes32 \<Rightarrow>
   RotationProvider option \<Rightarrow> SuiteRegistry option \<Rightarrow> apply_result" where
  "apply_with_suite_context ssl H tx txid utxos height ts mtp chain_id rotation registry =
    fst (apply_impl ssl H (apply_context tx txid utxos height ts mtp chain_id rotation registry) None)"

definition apply_non_coinbase_tx_basic_update_with_mtp ::
  "OpenSSL \<Rightarrow> (bytes \<Rightarrow> bytes32) \<Rightarrow> Tx \<Rightarrow> bytes32 \<Rightarrow> utxo_set \<Rightarrow> u64 \<Rightarrow> u64 \<Rightarrow> u64 \<Rightarrow> bytes32 \<Rightarrow> apply_result" where
  "apply_non_coinbase_tx_basic_update_with_mtp ssl H tx txid utxos height ts mtp chain_id =
    apply_with_suite_context ssl H tx txid utxos height ts mtp chain_id None None"

definition apply_non_coinbase_tx_basic_update ::
  "OpenSSL \<Rightarrow> (bytes \<Rightarrow> bytes32) \<Rightarrow> Tx \<Rightarrow> bytes32 \<Rightarrow> utxo_set \<Rightarrow> u64 \<Rightarrow> u64 \<Rightarrow> bytes32 \<Rightarrow> apply_result" where
  "apply_non_coinbase_tx_basic_update ssl H tx txid utxos height ts chain_id =
    apply_non_coinbase_tx_basic_update_with_mtp ssl H tx txid utxos height ts ts chain_id"

definition apply_non_coinbase_tx_basic_with_mtp ::
  "OpenSSL \<Rightarrow> (bytes \<Rightarrow> bytes32) \<Rightarrow> Tx \<Rightarrow> bytes32 \<Rightarrow> utxo_set \<Rightarrow> u64 \<Rightarrow> u64 \<Rightarrow> u64 \<Rightarrow> bytes32 \<Rightarrow> UtxoApplySummary res" where
  "apply_non_coinbase_tx_basic_with_mtp ssl H tx txid utxos height ts mtp chain_id =
    and_then (apply_non_coinbase_tx_basic_update_with_mtp ssl H tx txid utxos height ts mtp chain_id)
      (\<lambda>(_, summary). Ok summary)"

definition apply_non_coinbase_tx_basic ::
  "OpenSSL \<Rightarrow> (bytes \<Rightarrow> bytes32) \<Rightarrow> Tx \<Rightarrow> bytes32 \<Rightarrow> utxo_set \<Rightarrow> u64 \<Rightarrow> u64 \<Rightarrow> bytes32 \<Rightarrow> UtxoApplySummary res" where
  "apply_non_coinbase_tx_basic ssl H tx txid utxos height ts chain_id =
    apply_non_coinbase_tx_basic_with_mtp ssl H tx txid utxos height ts ts chain_id"

definition apply_queued_sigchecks ::
  "OpenSSL \<Rightarrow> (bytes \<Rightarrow> bytes32) \<Rightarrow> Tx \<Rightarrow> bytes32 \<Rightarrow> utxo_set \<Rightarrow> u64 \<Rightarrow> u64 \<Rightarrow> u64 \<Rightarrow> bytes32 \<Rightarrow>
   RotationProvider option \<Rightarrow> SuiteRegistry option \<Rightarrow> SigCheckQueue \<Rightarrow> apply_result \<times> SigCheckQueue" where
  "apply_queued_sigchecks ssl H tx txid utxos height ts mtp chain_id rotation registry queue =
    (let entry_mark = queue_mark queue in
     case apply_impl ssl H (apply_context tx txid utxos height ts mtp chain_id rotation registry) (Some queue) of
       (r, q) \<Rightarrow> let queue = (case q of Some queue' \<Rightarrow> queue' | None \<Rightarrow> queue) in
         if is_ok r then (r, queue) else (r, rollback_to queue entry_mark))"

text \<open>\<open>None\<close> is the panic of a flush.\<close>

definition apply_deferred_sigchecks ::
  "nat \<Rightarrow> nat list \<Rightarrow> OpenSSL \<Rightarrow> (bytes \<Rightarrow> bytes32) \<Rightarrow> Tx \<Rightarrow> bytes32 \<Rightarrow> utxo_set \<Rightarrow> u64 \<Rightarrow> u64 \<Rightarrow> u64 \<Rightarrow> bytes32 \<Rightarrow>
   RotationProvider option \<Rightarrow> SuiteRegistry option \<Rightarrow> apply_result option" where
  "apply_deferred_sigchecks par sched ssl H tx txid utxos height ts mtp chain_id rotation registry =
    (case apply_queued_sigchecks ssl H tx txid utxos height ts mtp chain_id rotation registry (SigCheckQueue_new par 1) of
       (Inl e, q) \<Rightarrow> Some (Inl e)
     | (Inr (w, summary), q) \<Rightarrow>
       (case fst (queue_flush par sched ssl H q) of
          Panicked \<Rightarrow> None
        | Returned r \<Rightarrow> Some (and_then r (\<lambda>_. Ok (w, summary)))))"

section \<open>Deferred and immediate checks agree\<close>

interpretation ud: queue_state "sig_queue :: UtxoApplyState \<Rightarrow> SigCheckQueue option" "\<lambda>q s. s\<lparr>sig_queue := q\<rparr>"
  by unfold_locales simp_all

lemma on_spend_defers:
  assumes "sd.defers ssl reg m"
  shows "ud.defers ssl reg (on_spend m)"
proof (rule ud.defersI)
  fix s :: UtxoApplyState and q assume "registry_fits reg q"
  with assms obtain r t q' ts where m: "m (sighash_cache s, Some q) = (r, (fst t, Some q'))" "queued reg q ts q'"
      "sd.ends ssl reg m (sighash_cache s, None) ts r t"
    by (rule sd.defersE [where s = "(sighash_cache s, None)"]) auto
  obtain r0 c0 q0 where n: "m (sighash_cache s, None) = (r0, (c0, q0))" by (metis surj_pair)
  have "ud.ends ssl reg (on_spend m) s ts r (s\<lparr>sighash_cache := fst t\<rparr>)"
    using m(3) n by (cases r; cases "try_for_each (task_check ssl (Some reg)) ts")
      (auto simp: sd.ends_def ud.ends_def on_spend_def simp del: try_for_each_Inr)
  then show "\<exists>r s' q' ts. on_spend m (s\<lparr>sig_queue := Some q\<rparr>) = (r, s'\<lparr>sig_queue := Some q'\<rparr>) \<and>
      queued reg q ts q' \<and> ud.ends ssl reg (on_spend m) s ts r s'"
    using m(1,2)
    by (intro exI [of _ r] exI [of _ "s\<lparr>sighash_cache := fst t\<rparr>"] exI [of _ q'] exI [of _ ts]) (simp add: on_spend_def)
qed

lemma update_defers: "(\<And>s q. f (s\<lparr>sig_queue := q\<rparr>) = (f s)\<lparr>sig_queue := q\<rparr>) \<Longrightarrow> ud.defers ssl reg (st_update f)"
  by (rule ud.defers_untouched [of _ "st_update f"]) (simp add: st_update_def)

lemma get_defers: "(\<And>s q. f (s\<lparr>sig_queue := q\<rparr>) = f s) \<Longrightarrow> ud.defers ssl reg (st_get f)"
  by (rule ud.defers_untouched [of _ "st_get f"]) (simp add: st_get_def)

lemma read_defers: "(\<And>s q. f (s\<lparr>sig_queue := q\<rparr>) = f s) \<Longrightarrow> ud.defers ssl reg (\<lambda>s. (f s, s))"
  by (rule ud.defers_untouched [of _ "\<lambda>s. (f s, s)"]) simp

lemma resolve_input_defers: "ud.defers ssl reg (resolve_input ctx i)"
proof (rule ud.defers_untouched [of _ "resolve_input ctx i"])
  fix s q
  show "resolve_input ctx i (s\<lparr>sig_queue := q\<rparr>) =
    (fst (resolve_input ctx i s), (snd (resolve_input ctx i s))\<lparr>sig_queue := q\<rparr>)"
    by (simp add: resolve_input_def st_then_def st_bind_def st_lift_def validate_input_covenant_def
        record_resolved_input_def Let_def split: sum.split option.split)
qed

lemma validate_resolved_spend_defers:
  assumes "registry_or_default (cx_registry ctx) = reg"
  shows "ud.defers ssl reg (validate_resolved_spend ssl H ctx entry rng i)"
proof -
  have "sd.defers ssl reg (apply_p2pk_spend ssl H ctx entry ws j)" for ws j
    unfolding apply_p2pk_spend_def by (auto intro!: sd.defers_lift p2pk_defers assms split: list.split)
  moreover have "sd.defers ssl reg (apply_stealth_spend ssl H ctx entry ws j)" for ws j
    unfolding apply_stealth_spend_def by (auto intro!: sd.defers_lift stealth_defers assms split: list.split)
  moreover have "sd.defers ssl reg (apply_htlc_spend ssl H ctx entry ws j)" for ws j
    unfolding apply_htlc_spend_def by (auto intro!: sd.defers_lift htlc_defers assms split: list.split)
  moreover have "sd.defers ssl reg (apply_multisig_spend ssl H ctx entry ws j)" for ws j
    unfolding apply_multisig_spend_def by (intro sd.defers_intros threshold_defers assms)
  ultimately show ?thesis
    unfolding validate_resolved_spend_def Let_def
    by (auto intro!: ud.defers_intros on_spend_defers update_defers)
qed

lemma validate_spends_defers:
  assumes "registry_or_default (cx_registry ctx) = reg"
  shows "ud.defers ssl reg (validate_spends ssl H ctx)"
proof -
  have eq: "validate_spends ssl H ctx = st_bind (st_get (\<lambda>s.
      List.enumerate 0 (zip (zip (resolved_inputs s) (resolved_witness_ranges s)) (resolved_outpoints s))))
      (st_for_each (validate_spend ssl H ctx))"
    by (simp add: fun_eq_iff validate_spends_def st_bind_def st_get_def)
  have "ud.defers ssl reg (add_input_value entry)" for entry
    by (rule ud.defers_untouched [of _ "add_input_value entry"])
      (simp add: add_input_value_def Let_def split: option.split)
  then have "ud.defers ssl reg (validate_spend ssl H ctx x)" for x
    unfolding validate_spend_def
    by (auto intro!: ud.defers_intros update_defers validate_resolved_spend_defers assms split: prod.split)
  then show ?thesis unfolding eq by (intro ud.defers_intros get_defers) simp_all
qed

lemma apply_phases_defers:
  assumes "registry_or_default (cx_registry ctx) = reg"
  shows "ud.defers ssl reg (apply_phases ssl H ctx)"
proof -
  have "ud.defers ssl reg (resolve_inputs ctx)"
  proof -
    have "ud.defers ssl reg (\<lambda>s. if witness_cursor s \<noteq> length (witness (cx_tx ctx))
        then (Err TxErrParse ''witness_count mismatch'', s) else (Ok (), s))"
      by (rule ud.defers_untouched [of _ "\<lambda>s. if witness_cursor s \<noteq> length (witness (cx_tx ctx))
        then (Err TxErrParse ''witness_count mismatch'', s) else (Ok (), s)"]) simp
    then show ?thesis unfolding resolve_inputs_def by (intro ud.defers_intros resolve_input_defers)
  qed
  moreover have "ud.defers ssl reg (add_output ctx x)" for x
    by (rule ud.defers_untouched [of _ "add_output ctx x"])
      (simp add: add_output_def Let_def split: prod.split option.split)
  then have "ud.defers ssl reg (add_outputs ctx)" unfolding add_outputs_def by (intro ud.defers_intros)
  moreover have "ud.defers ssl reg (\<lambda>s. (validate_vault_creation ctx s, s))" "ud.defers ssl reg (\<lambda>s. (finish s, s))"
    by (rule read_defers, simp add: validate_vault_creation_def finish_def)+
  moreover have "ud.defers ssl reg (validate_vault_spend ssl H ctx)"
  proof -
    have eq: "validate_vault_spend ssl H ctx = st_bind (st_get (\<lambda>s. (vault_input_count s, vault_spend s)))
      (\<lambda>(n, vs). if n = 1 then (case vs of
         None \<Rightarrow> st_err TxErrParse ''missing CORE_VAULT signature context''
       | Some v \<Rightarrow>
         st_then (st_update (\<lambda>s. s\<lparr>vault_spend := None\<rparr>)) (
         st_then (\<lambda>s. (validate_owner_and_sponsor v (input_lock_ids s) (input_cov_types s), s)) (
         st_then (st_lift (validate_no_recursion (cx_tx ctx))) (
         st_then (on_spend (vault_validate_signature ssl H ctx v)) (
         st_lift (validate_destinations H v (cx_tx ctx))))))) else st_ok ())"
      by (auto simp: fun_eq_iff validate_vault_spend_def st_bind_def st_get_def st_lift_def split: option.split)
    have "sd.defers ssl reg (vault_validate_signature ssl H ctx v)" for v
      unfolding vault_validate_signature_def by (intro sd.defers_intros threshold_defers assms)
    then show ?thesis unfolding eq
      by (auto intro!: ud.defers_intros get_defers update_defers read_defers on_spend_defers split: option.split)
  qed
  ultimately show ?thesis
    unfolding apply_phases_def by (intro ud.defers_intros validate_spends_defers assms)
qed

text \<open>What a run with the queue \<open>q\<close> says about the run without one.\<close>

definition agrees ::
  "OpenSSL \<Rightarrow> SuiteRegistry \<Rightarrow> SigCheckQueue \<Rightarrow> 'a res \<Rightarrow> SigCheckQueue \<Rightarrow> 'a res \<Rightarrow> bool" where
  "agrees ssl reg q r q' immediate \<longleftrightarrow> (\<exists>ts. queued reg q ts q' \<and> (case r of
      Inr x \<Rightarrow> immediate = and_then (try_for_each (task_check ssl (Some reg)) ts) (\<lambda>_. Ok x)
    | Inl e \<Rightarrow> e \<in> queue_errors \<or> (\<exists>e'. immediate = Inl e')))"

lemma agrees_refl: "registry_fits reg q \<Longrightarrow> agrees ssl reg q r q r"
  unfolding agrees_def by (rule exI [of _ "[]"], cases r) (simp_all add: queued_refl)

lemma agrees_bind:
  assumes "agrees ssl reg q (Inr x) q' m" and "agrees ssl reg q' r q'' (f x)"
  shows "agrees ssl reg q r q'' (and_then m f)"
proof -
  obtain ts where 1: "queued reg q ts q'" "m = and_then (try_for_each (task_check ssl (Some reg)) ts) (\<lambda>_. Ok x)"
    using assms(1) by (auto simp: agrees_def)
  obtain ts' where 2: "queued reg q' ts' q''" "case r of
      Inr y \<Rightarrow> f x = and_then (try_for_each (task_check ssl (Some reg)) ts') (\<lambda>_. Ok y)
    | Inl e \<Rightarrow> e \<in> queue_errors \<or> (\<exists>e'. f x = Inl e')" using assms(2) unfolding agrees_def by blast
  have "try_for_each (task_check ssl (Some reg)) (ts @ ts') =
      and_then (try_for_each (task_check ssl (Some reg)) ts) (\<lambda>_. try_for_each (task_check ssl (Some reg)) ts')"
    by (rule try_for_each_append)
  then show ?thesis unfolding agrees_def
    using queued_trans [OF 1(1) 2(1)] 1(2) 2(2)
    by (intro exI [of _ "ts @ ts'"], cases r; cases "try_for_each (task_check ssl (Some reg)) ts")
      (auto simp: and_then_assoc simp del: try_for_each_Inr)
qed

lemma agrees_bind_error: "agrees ssl reg q (Inl e) q' m \<Longrightarrow> agrees ssl reg q (Inl e) q' (and_then m f)"
  by (auto simp: agrees_def)

lemma apply_impl_agrees:
  assumes "registry_fits (registry_or_default (cx_registry ctx)) q"
  shows "\<exists>r q'. apply_impl ssl H ctx (Some q) = (r, Some q') \<and>
    agrees ssl (registry_or_default (cx_registry ctx)) q r q' (fst (apply_impl ssl H ctx None))"
proof (cases "validate_apply_inputs ctx")
  case (Inl e)
  then show ?thesis using queued_refl [OF assms] by (auto simp: apply_impl_def agrees_def)
next
  case (Inr u)
  let ?reg = "registry_or_default (cx_registry ctx)"
  obtain s where s: "UtxoApplyState_new ctx None = Ok s"
    by (simp add: UtxoApplyState_new_def SighashV1PrehashCache_new_def)
  then have new: "UtxoApplyState_new ctx queue = Ok (s\<lparr>sig_queue := queue\<rparr>)" for queue
    by (auto simp: UtxoApplyState_new_def)
  obtain r s' q' ts where d: "apply_phases ssl H ctx (s\<lparr>sig_queue := Some q\<rparr>) = (r, s'\<lparr>sig_queue := Some q'\<rparr>)"
      "queued ?reg q ts q'" "ud.ends ssl ?reg (apply_phases ssl H ctx) s ts r s'"
    by (rule ud.defersE [OF apply_phases_defers [OF refl] assms])
  have "agrees ssl ?reg q r q' (fst (apply_phases ssl H ctx (s\<lparr>sig_queue := None\<rparr>)))"
    using d(2,3) unfolding agrees_def
    by (intro exI [of _ ts], cases r; cases "try_for_each (task_check ssl (Some ?reg)) ts")
      (auto simp: ud.ends_def simp del: try_for_each_Inr)
  then show ?thesis using Inr new d(1) by (simp add: apply_impl_def)
qed

lemma apply_queued_agrees:
  assumes "registry_fits (registry_or_default registry) q"
  shows "\<exists>r q'. apply_queued_sigchecks ssl H tx txid utxos height ts mtp chain_id rotation registry q = (r, q') \<and>
    agrees ssl (registry_or_default registry) q r q'
      (apply_with_suite_context ssl H tx txid utxos height ts mtp chain_id rotation registry)"
proof -
  let ?ctx = "apply_context tx txid utxos height ts mtp chain_id rotation registry" and ?reg = "registry_or_default registry"
  have c: "cx_registry ?ctx = registry" by (simp add: apply_context_def)
  obtain r q1 where a: "apply_impl ssl H ?ctx (Some q) = (r, Some q1)"
      "agrees ssl ?reg q r q1 (fst (apply_impl ssl H ?ctx None))"
    using apply_impl_agrees [of ?ctx q] assms unfolding c by blast
  show ?thesis
  proof (cases r)
    case (Inl e)
    have "extends q q1" using a(2) by (auto simp: agrees_def queued_def)
    then have "apply_queued_sigchecks ssl H tx txid utxos height ts mtp chain_id rotation registry q = (Inl e, q)"
      using a(1) Inl by (simp add: apply_queued_sigchecks_def rollback_extends)
    moreover have "agrees ssl ?reg q (Inl e) q (fst (apply_impl ssl H ?ctx None))"
      using a(2) queued_refl [OF assms] unfolding Inl agrees_def by (intro exI [of _ "[]"]) auto
    ultimately show ?thesis by (auto simp: apply_with_suite_context_def)
  qed (use a in \<open>auto simp: apply_queued_sigchecks_def apply_with_suite_context_def\<close>)
qed

text \<open>
  C12: checking the signatures of a transaction at the end instead of on the way does not
  change what is accepted. The deferred application terminates with a result, and
  either it is the result of the immediate one, the new set and summary or the very
  same error; or both fail, with errors found in a different order; or the queue
  refused a check for lack of room. In particular whatever it accepts, the immediate
  application accepts with the same result.
\<close>

theorem deferred_agrees_with_immediate:
  "\<exists>r. apply_deferred_sigchecks par sched ssl H tx txid utxos height ts mtp chain_id rotation registry = Some r \<and>
    (r = apply_with_suite_context ssl H tx txid utxos height ts mtp chain_id rotation registry \<or>
     (\<exists>e. r = Inl e \<and> (e \<in> queue_errors \<or>
       (\<exists>e'. apply_with_suite_context ssl H tx txid utxos height ts mtp chain_id rotation registry = Inl e'))))"
proof -
  let ?ctx = "apply_context tx txid utxos height ts mtp chain_id rotation registry"
  let ?reg = "registry_or_default (cx_registry ?ctx)" and ?q = "SigCheckQueue_new par 1"
  have "registry_fits ?reg ?q" by (simp add: registry_fits_def SigCheckQueue_new_def)
  then obtain r q' where a: "apply_impl ssl H ?ctx (Some ?q) = (r, Some q')"
      "agrees ssl ?reg ?q r q' (fst (apply_impl ssl H ?ctx None))"
    using apply_impl_agrees by blast
  then obtain tl where tl: "queued ?reg ?q tl q'" "case r of
      Inr x \<Rightarrow> fst (apply_impl ssl H ?ctx None) = and_then (try_for_each (task_check ssl (Some ?reg)) tl) (\<lambda>_. Ok x)
    | Inl e \<Rightarrow> e \<in> queue_errors \<or> (\<exists>e'. fst (apply_impl ssl H ?ctx None) = Inl e')"
    unfolding agrees_def by blast
  show ?thesis
  proof (cases r)
    case (Inl e)
    then show ?thesis using a(1) tl(2)
      by (auto simp: apply_deferred_sigchecks_def apply_queued_sigchecks_def apply_with_suite_context_def)
  next
    case (Inr x)
    have q': "q_tasks q' = tl" "q_cache q' = None" "q_workers q' = 1" "tl \<noteq> [] \<Longrightarrow> q_registry q' = Some ?reg"
      using tl(1) by (auto simp: queued_def extends_def SigCheckQueue_new_def)
    have "fst (queue_flush par sched ssl H q') = Returned (try_for_each (task_check ssl (Some ?reg)) tl)"
      using q' by (cases "tl = []") (auto simp: queue_flush_def queue_loop_no_cache)
    then have "apply_deferred_sigchecks par sched ssl H tx txid utxos height ts mtp chain_id rotation registry =
        Some (and_then (try_for_each (task_check ssl (Some ?reg)) tl) (\<lambda>_. Ok x))"
      using a(1) Inr by (cases x) (simp add: apply_deferred_sigchecks_def apply_queued_sigchecks_def)
    then show ?thesis using tl(2) Inr by (simp add: apply_with_suite_context_def)
  qed
qed

text \<open>
  A transaction that fails leaves the queue of the block exactly as it was,
  whichever of its checks failed and however many signatures it had queued.
\<close>

lemma failed_tx_leaves_queue:
  assumes "apply_queued_sigchecks ssl H tx txid utxos height ts mtp chain_id rotation registry q = (Inl e, q')"
    and "registry_fits (registry_or_default registry) q"
  shows "q' = q"
proof -
  let ?ctx = "apply_context tx txid utxos height ts mtp chain_id rotation registry"
  have r: "cx_registry ?ctx = registry" by (simp add: apply_context_def)
  obtain r q1 where a: "apply_impl ssl H ?ctx (Some q) = (r, Some q1)"
      "agrees ssl (registry_or_default registry) q r q1 (fst (apply_impl ssl H ?ctx None))"
    using apply_impl_agrees [of ?ctx q] assms(2) unfolding r by blast
  then have "extends q q1" by (auto simp: agrees_def queued_def)
  then show ?thesis using assms(1) a(1) rollback_extends
    by (auto simp: apply_queued_sigchecks_def Let_def split: if_splits)
qed

section \<open>What an accepted transaction does\<close>

lemma resolve_input_Ok:
  assumes "resolve_input ctx i s = (Ok u, s')"
  obtains entry slots where "validate_non_coinbase_input_encoding i = Ok ()" and "signing_outpoint i \<notin> seen_inputs s"
    and "ua_work s (signing_outpoint i) = Some entry" and "validate_input_availability entry (cx_height ctx) = Ok ()"
    and "check_spend_covenant (ue_covenant_type entry) (ue_covenant_data entry) = Ok ()"
    and "ue_covenant_type entry = COV_TYPE_VAULT \<Longrightarrow> vault_input_count s = 0"
    and "witness_slots (ue_covenant_type entry) (ue_covenant_data entry) = Ok slots" and "0 < slots"
    and "witness_cursor s + slots \<le> length (witness (cx_tx ctx))"
    and "s' = s\<lparr>seen_inputs := insert (signing_outpoint i) (seen_inputs s),
      vault_input_count := vault_input_count s + (if ue_covenant_type entry = COV_TYPE_VAULT then 1 else 0),
      resolved_inputs := resolved_inputs s @ [entry],
      resolved_witness_ranges := resolved_witness_ranges s @ [(witness_cursor s, witness_cursor s + slots)],
      resolved_outpoints := resolved_outpoints s @ [signing_outpoint i], witness_cursor := witness_cursor s + slots\<rparr>"
proof -
  obtain entry where 1: "validate_non_coinbase_input_encoding i = Ok ()" "signing_outpoint i \<notin> seen_inputs s"
    "ua_work s (signing_outpoint i) = Some entry"
    and r: "st_then (st_lift (validate_input_availability entry (cx_height ctx))) (
         st_then (validate_input_covenant entry) (record_resolved_input (cx_tx ctx) entry (signing_outpoint i)))
         (s\<lparr>seen_inputs := insert (signing_outpoint i) (seen_inputs s)\<rparr>) = (Ok u, s')"
    using assms by (auto simp: resolve_input_def Let_def split: sum.splits if_splits option.splits)
  obtain s1 where 2: "validate_input_availability entry (cx_height ctx) = Ok ()"
      "validate_input_covenant entry (s\<lparr>seen_inputs := insert (signing_outpoint i) (seen_inputs s)\<rparr>) = (Ok (), s1)"
      "record_resolved_input (cx_tx ctx) entry (signing_outpoint i) s1 = (Ok u, s')"
    using r by (auto simp: st_simps)
  have 3: "check_spend_covenant (ue_covenant_type entry) (ue_covenant_data entry) = Ok ()"
      "ue_covenant_type entry = COV_TYPE_VAULT \<Longrightarrow> vault_input_count s = 0"
      "s1 = s\<lparr>seen_inputs := insert (signing_outpoint i) (seen_inputs s),
        vault_input_count := vault_input_count s + (if ue_covenant_type entry = COV_TYPE_VAULT then 1 else 0)\<rparr>"
    using 2(2) by (auto simp: validate_input_covenant_def Let_def split: if_splits)
  obtain slots where 4: "witness_slots (ue_covenant_type entry) (ue_covenant_data entry) = Ok slots" "0 < slots"
      "witness_cursor s1 + slots \<le> length (witness (cx_tx ctx))"
      "s' = s1\<lparr>resolved_inputs := resolved_inputs s1 @ [entry],
         resolved_witness_ranges := resolved_witness_ranges s1 @ [(witness_cursor s1, witness_cursor s1 + slots)],
         resolved_outpoints := resolved_outpoints s1 @ [signing_outpoint i], witness_cursor := witness_cursor s1 + slots\<rparr>"
    using 2(3) by (auto simp: record_resolved_input_def split: sum.splits if_splits)
  show ?thesis
    by (rule that [OF 1 2(1) 3(1,2) 4(1,2)]) (use 3(3) 4(3,4) in simp_all)
qed

text \<open>The outcome of resolving a list of inputs: their entries and witness ranges.\<close>

definition spendable :: "UtxoApplyImplContext \<Rightarrow> UtxoEntry \<Rightarrow> bool" where
  "spendable ctx entry \<longleftrightarrow> validate_input_availability entry (cx_height ctx) = Ok () \<and>
    check_spend_covenant (ue_covenant_type entry) (ue_covenant_data entry) = Ok ()"

definition is_vault :: "UtxoEntry \<Rightarrow> bool" where
  "is_vault entry \<longleftrightarrow> ue_covenant_type entry = COV_TYPE_VAULT"

fun slot_ranges :: "nat \<Rightarrow> UtxoEntry list \<Rightarrow> (nat \<times> nat) list" where
  "slot_ranges k [] = []"
| "slot_ranges k (e # es) = (case witness_slots (ue_covenant_type e) (ue_covenant_data e) of
     Inr n \<Rightarrow> (k, k + n) # slot_ranges (k + n) es | Inl _ \<Rightarrow> [])"

lemma resolve_loop_Ok:
  assumes "st_for_each (resolve_input ctx) ins s = (Ok u, s')"
    and "vault_input_count s \<le> 1"
  shows "\<exists>entries k. distinct (map signing_outpoint ins) \<and> signing_outpoint ` set ins \<inter> seen_inputs s = {} \<and>
    map (\<lambda>i. ua_work s (signing_outpoint i)) ins = map Some entries \<and> list_all (spendable ctx) entries \<and>
    list_all (\<lambda>i. validate_non_coinbase_input_encoding i = Ok ()) ins \<and>
    vault_input_count s + length (filter is_vault entries) \<le> 1 \<and>
    length (slot_ranges (witness_cursor s) entries) = length entries \<and>
    s' = s\<lparr>seen_inputs := signing_outpoint ` set ins \<union> seen_inputs s,
      vault_input_count := vault_input_count s + length (filter is_vault entries),
      resolved_inputs := resolved_inputs s @ entries,
      resolved_witness_ranges := resolved_witness_ranges s @ slot_ranges (witness_cursor s) entries,
      resolved_outpoints := resolved_outpoints s @ map signing_outpoint ins, witness_cursor := k\<rparr>"
  using assms
proof (induction ins arbitrary: s)
  case Nil
  then show ?case by (auto intro!: exI [of _ "witness_cursor s"])
next
  case (Cons i ins)
  obtain s1 where s1: "resolve_input ctx i s = (Ok (), s1)" "st_for_each (resolve_input ctx) ins s1 = (Ok u, s')"
    using Cons.prems(1) by (auto simp: st_simps)
  obtain entry slots where e: "validate_non_coinbase_input_encoding i = Ok ()" "signing_outpoint i \<notin> seen_inputs s"
    "ua_work s (signing_outpoint i) = Some entry" "validate_input_availability entry (cx_height ctx) = Ok ()"
    "check_spend_covenant (ue_covenant_type entry) (ue_covenant_data entry) = Ok ()"
    "ue_covenant_type entry = COV_TYPE_VAULT \<Longrightarrow> vault_input_count s = 0"
    "witness_slots (ue_covenant_type entry) (ue_covenant_data entry) = Ok slots"
    "s1 = s\<lparr>seen_inputs := insert (signing_outpoint i) (seen_inputs s),
      vault_input_count := vault_input_count s + (if ue_covenant_type entry = COV_TYPE_VAULT then 1 else 0),
      resolved_inputs := resolved_inputs s @ [entry],
      resolved_witness_ranges := resolved_witness_ranges s @ [(witness_cursor s, witness_cursor s + slots)],
      resolved_outpoints := resolved_outpoints s @ [signing_outpoint i], witness_cursor := witness_cursor s + slots\<rparr>"
    using resolve_input_Ok [OF s1(1)] by metis
  have "vault_input_count s1 \<le> 1" using e(6,8) Cons.prems(2) by simp
  from Cons.IH [OF s1(2) this] obtain entries k where
    IH: "distinct (map signing_outpoint ins)" "signing_outpoint ` set ins \<inter> seen_inputs s1 = {}"
    "map (\<lambda>i. ua_work s1 (signing_outpoint i)) ins = map Some entries" "list_all (spendable ctx) entries"
    "list_all (\<lambda>i. validate_non_coinbase_input_encoding i = Ok ()) ins"
    "vault_input_count s1 + length (filter is_vault entries) \<le> 1"
    "length (slot_ranges (witness_cursor s1) entries) = length entries"
    "s' = s1\<lparr>seen_inputs := signing_outpoint ` set ins \<union> seen_inputs s1,
      vault_input_count := vault_input_count s1 + length (filter is_vault entries),
      resolved_inputs := resolved_inputs s1 @ entries,
      resolved_witness_ranges := resolved_witness_ranges s1 @ slot_ranges (witness_cursor s1) entries,
      resolved_outpoints := resolved_outpoints s1 @ map signing_outpoint ins, witness_cursor := k\<rparr>"
    by blast
  have "spendable ctx entry" "is_vault entry \<longleftrightarrow> ue_covenant_type entry = COV_TYPE_VAULT"
    using e(4,5) by (simp_all add: spendable_def is_vault_def)
  then show ?case
    using e IH by (intro exI [of _ "entry # entries"] exI [of _ k]) auto
qed

lemma resolved_spend_frame:
  assumes "validate_resolved_spend ssl H ctx entry rng i s = (r, s')"
  shows "\<exists>c q v. s' = s\<lparr>sighash_cache := c, sig_queue := q, vault_spend := v\<rparr>"
proof -
  have os: "\<exists>c q. s' = s\<lparr>sighash_cache := c, sig_queue := q\<rparr>" if "on_spend m s = (r, s')" for m :: "(spend_state, unit) st"
    using that by (auto simp: on_spend_def split: prod.splits)
  have same: ?thesis if "s' = s"
    using that by (intro exI [of _ "sighash_cache s"] exI [of _ "sig_queue s"] exI [of _ "vault_spend s"]) simp
  show ?thesis
  proof (cases "assigned_witness (cx_tx ctx) rng")
    case (Inl e)
    then show ?thesis using assms by (intro same) (auto simp: validate_resolved_spend_def st_bind_def st_lift_def)
  next
    case (Inr ws)
    let ?ty = "ue_covenant_type entry"
    consider m :: "(spend_state, unit) st" where "on_spend m s = (r, s')"
      | "st_bind (st_lift (VaultSpendState_capture entry rng (of_nat i))) (\<lambda>captured.
          st_update (\<lambda>s. s\<lparr>vault_spend := Some captured\<rparr>)) s = (r, s')" | "s' = s"
      using assms Inr by (auto simp: validate_resolved_spend_def Let_def st_lift_def split: if_splits)
    then show ?thesis
    proof cases
      case (1 m)
      then obtain c q where "s' = s\<lparr>sighash_cache := c, sig_queue := q\<rparr>" using os by blast
      then show ?thesis by (intro exI [of _ c] exI [of _ q] exI [of _ "vault_spend s"]) simp
    next
      case 2
      then have "s' = s \<or> (\<exists>v. s' = s\<lparr>vault_spend := v\<rparr>)"
        by (cases "VaultSpendState_capture entry rng (of_nat i)") (auto simp: st_bind_def st_lift_def st_update_def)
      then show ?thesis
      proof
        assume "\<exists>v. s' = s\<lparr>vault_spend := v\<rparr>"
        then obtain v where "s' = s\<lparr>vault_spend := v\<rparr>" ..
        then show ?thesis by (intro exI [of _ "sighash_cache s"] exI [of _ "sig_queue s"] exI [of _ v]) simp
      qed (rule same)
    qed (rule same)
  qed
qed

lemma add_input_value_Ok:
  assumes "add_input_value entry s = (Ok u, s')"
  shows "\<exists>a b. s' = s\<lparr>sum_in := a, sum_in_vault := b\<rparr> \<and> unat a = unat (sum_in s) + unat (ue_value entry) \<and>
    unat b = unat (sum_in_vault s) + (if is_vault entry then unat (ue_value entry) else 0)"
proof -
  have u: "unat (ucast (ue_value entry) :: u128) = unat (ue_value entry)"
    using unsigned_less [of "ue_value entry", where 'a = nat] by (simp add: unat_ucast)
  obtain a where a: "checked_add (sum_in s) (ucast (ue_value entry)) = Some a"
    using assms by (auto simp: add_input_value_def split: option.splits)
  then have 1: "unat a = unat (sum_in s) + unat (ue_value entry)" using u by (simp add: checked_add_Some)
  show ?thesis
  proof (cases "is_vault entry")
    case True
    obtain b where b: "checked_add (sum_in_vault s) (ucast (ue_value entry)) = Some b"
      using assms a True by (auto simp: add_input_value_def is_vault_def Let_def split: option.splits)
    then have "unat b = unat (sum_in_vault s) + unat (ue_value entry)" using u by (simp add: checked_add_Some)
    moreover have "s' = s\<lparr>sum_in := a, sum_in_vault := b\<rparr>"
      using assms a b True by (simp add: add_input_value_def is_vault_def Let_def)
    ultimately show ?thesis using 1 True by auto
  next
    case False
    then have "s' = s\<lparr>sum_in := a, sum_in_vault := sum_in_vault s\<rparr>"
      using assms a by (auto simp: add_input_value_def is_vault_def Let_def)
    then show ?thesis using 1 False by (intro exI conjI) simp_all
  qed
qed

lemma validate_spend_Ok:
  assumes "validate_spend ssl H ctx (i, (entry, rng), op) s = (Ok u, s')"
  shows "\<exists>c q v a b. validate_resolved_spend ssl H ctx entry rng i s = (Ok (), s\<lparr>sighash_cache := c, sig_queue := q, vault_spend := v\<rparr>) \<and>
    s' = s\<lparr>sighash_cache := c, sig_queue := q, vault_spend := v, sum_in := a, sum_in_vault := b,
      input_lock_ids := input_lock_ids s @ [H (output_descriptor_bytes (ue_covenant_type entry) (ue_covenant_data entry))],
      input_cov_types := input_cov_types s @ [ue_covenant_type entry], ua_work := (ua_work s)(op := None)\<rparr> \<and>
    unat a = unat (sum_in s) + unat (ue_value entry) \<and>
    unat b = unat (sum_in_vault s) + (if is_vault entry then unat (ue_value entry) else 0)"
proof -
  obtain s1 s2 where 1: "validate_resolved_spend ssl H ctx entry rng i s = (Ok (), s1)"
    and 2: "add_input_value entry (s1\<lparr>
      input_lock_ids := input_lock_ids s1 @ [H (output_descriptor_bytes (ue_covenant_type entry) (ue_covenant_data entry))],
      input_cov_types := input_cov_types s1 @ [ue_covenant_type entry]\<rparr>) = (Ok (), s2)"
    and 3: "s' = s2\<lparr>ua_work := (ua_work s2)(op := None)\<rparr>"
    using assms by (auto simp: validate_spend_def st_simps st_update_def)
  obtain c q v where s1: "s1 = s\<lparr>sighash_cache := c, sig_queue := q, vault_spend := v\<rparr>"
    using resolved_spend_frame [OF 1] by blast
  obtain a b where ab: "s2 = s1\<lparr>
      input_lock_ids := input_lock_ids s1 @ [H (output_descriptor_bytes (ue_covenant_type entry) (ue_covenant_data entry))],
      input_cov_types := input_cov_types s1 @ [ue_covenant_type entry], sum_in := a, sum_in_vault := b\<rparr>"
      "unat a = unat (sum_in s1) + unat (ue_value entry)"
      "unat b = unat (sum_in_vault s1) + (if is_vault entry then unat (ue_value entry) else 0)"
    using add_input_value_Ok [OF 2] by auto
  show ?thesis
    by (rule exI [of _ c], rule exI [of _ q], rule exI [of _ v], rule exI [of _ a], rule exI [of _ b])
      (use 1 3 s1 ab in simp)
qed

definition entry_value :: "UtxoEntry \<Rightarrow> nat" where
  "entry_value entry = unat (ue_value entry)"

definition lock_id :: "(bytes \<Rightarrow> bytes32) \<Rightarrow> UtxoEntry \<Rightarrow> bytes32" where
  "lock_id H entry = H (output_descriptor_bytes (ue_covenant_type entry) (ue_covenant_data entry))"

lemma validate_spends_loop_Ok:
  assumes "st_for_each (validate_spend ssl H ctx) (List.enumerate k (zip (zip entries rngs) ops)) s = (Ok u, s')"
    and "length rngs = length entries" and "length ops = length entries"
  shows "\<exists>c q v a b. s' = s\<lparr>sighash_cache := c, sig_queue := q, vault_spend := v, sum_in := a, sum_in_vault := b,
      input_lock_ids := input_lock_ids s @ map (lock_id H) entries,
      input_cov_types := input_cov_types s @ map ue_covenant_type entries,
      ua_work := ua_work s |` (- set ops)\<rparr> \<and>
    unat a = unat (sum_in s) + (\<Sum>e\<leftarrow>entries. entry_value e) \<and>
    unat b = unat (sum_in_vault s) + (\<Sum>e\<leftarrow>filter is_vault entries. entry_value e)"
  using assms
proof (induction entries arbitrary: k rngs ops s)
  case Nil
  then show ?case
    by (intro exI [of _ "sighash_cache s"] exI [of _ "sig_queue s"] exI [of _ "vault_spend s"])
      (rule exI [of _ "sum_in s"], rule exI [of _ "sum_in_vault s"], simp)
next
  case (Cons entry entries)
  then obtain rng rngs' op ops' where l: "rngs = rng # rngs'" "ops = op # ops'" "length rngs' = length entries"
      "length ops' = length entries"
    by (metis length_Suc_conv)
  obtain s1 where 1: "validate_spend ssl H ctx (k, (entry, rng), op) s = (Ok (), s1)"
    and 2: "st_for_each (validate_spend ssl H ctx) (List.enumerate (Suc k) (zip (zip entries rngs') ops')) s1 = (Ok u, s')"
    using Cons.prems(1) l by (auto simp: st_simps)
  obtain c q v a b where s1: "s1 = s\<lparr>sighash_cache := c, sig_queue := q, vault_spend := v, sum_in := a, sum_in_vault := b,
      input_lock_ids := input_lock_ids s @ [lock_id H entry],
      input_cov_types := input_cov_types s @ [ue_covenant_type entry], ua_work := (ua_work s)(op := None)\<rparr>"
    "unat a = unat (sum_in s) + entry_value entry"
    "unat b = unat (sum_in_vault s) + (if is_vault entry then entry_value entry else 0)"
    using validate_spend_Ok [OF 1] unfolding lock_id_def entry_value_def by blast
  obtain c' q' v' a' b' where s': "s' = s1\<lparr>sighash_cache := c', sig_queue := q', vault_spend := v', sum_in := a', sum_in_vault := b',
      input_lock_ids := input_lock_ids s1 @ map (lock_id H) entries,
      input_cov_types := input_cov_types s1 @ map ue_covenant_type entries, ua_work := ua_work s1 |` (- set ops')\<rparr>"
    "unat a' = unat (sum_in s1) + (\<Sum>e\<leftarrow>entries. entry_value e)"
    "unat b' = unat (sum_in_vault s1) + (\<Sum>e\<leftarrow>filter is_vault entries. entry_value e)"
    using Cons.IH [OF 2 l(3,4)] by blast
  have r: "((ua_work s)(op := None)) |` (- set ops') = ua_work s |` (- set (op # ops'))"
    by (auto simp: restrict_map_def fun_eq_iff)
  show ?case
    by (rule exI [of _ c'], rule exI [of _ q'], rule exI [of _ v'], rule exI [of _ a'], rule exI [of _ b'])
      (use s' s1 l(2) r in simp)
qed

text \<open>The outputs a transaction creates.\<close>

definition unspendable_type :: "u16 \<Rightarrow> bool" where
  "unspendable_type ty \<longleftrightarrow> ty = COV_TYPE_ANCHOR \<or> ty = COV_TYPE_DA_COMMIT"

definition new_entry :: "UtxoApplyImplContext \<Rightarrow> TxOutput \<Rightarrow> UtxoEntry" where
  "new_entry ctx out = \<lparr>ue_value = out_value out, ue_covenant_type = out_covenant_type out,
    ue_covenant_data = out_covenant_data out, creation_height = cx_height ctx, created_by_coinbase = False\<rparr>"

definition created_from :: "UtxoApplyImplContext \<Rightarrow> nat \<Rightarrow> TxOutput list \<Rightarrow> utxo_set" where
  "created_from ctx k outs op = (let i = unat (op_vout op) in
    if op_txid op = cx_txid ctx \<and> k \<le> i \<and> i < k + length outs \<and> \<not> unspendable_type (out_covenant_type (outs ! (i - k)))
    then Some (new_entry ctx (outs ! (i - k))) else None)"

lemma created_from_Cons:
  assumes "k < 2 ^ 32"
  shows "m ++ created_from ctx k (out # outs) =
    (if unspendable_type (out_covenant_type out) then m
     else m(\<lparr>op_txid = cx_txid ctx, op_vout = of_nat k\<rparr> \<mapsto> new_entry ctx out)) ++ created_from ctx (Suc k) outs"
proof
  fix op :: Outpoint
  have k: "unat (of_nat k :: u32) = k" using assms by (simp add: unat_of_nat)
  consider "op_txid op \<noteq> cx_txid ctx" | "op_txid op = cx_txid ctx" "unat (op_vout op) < k"
    | "op = \<lparr>op_txid = cx_txid ctx, op_vout = of_nat k\<rparr>"
    | "op_txid op = cx_txid ctx" "k < unat (op_vout op)"
  proof (cases "op_txid op = cx_txid ctx \<and> unat (op_vout op) = k")
    case True
    then have "op = \<lparr>op_txid = cx_txid ctx, op_vout = of_nat k\<rparr>" by (cases op) (auto simp: word_unat_eq_iff k)
    then show ?thesis using that by blast
  qed (use that nat_neq_iff in blast)
  then show "(m ++ created_from ctx k (out # outs)) op =
    ((if unspendable_type (out_covenant_type out) then m
     else m(\<lparr>op_txid = cx_txid ctx, op_vout = of_nat k\<rparr> \<mapsto> new_entry ctx out)) ++ created_from ctx (Suc k) outs) op"
    by cases (auto simp: created_from_def map_add_def k Let_def nth_Cons' Suc_diff_le split: option.split)
qed

lemma add_output_Ok:
  assumes "add_output ctx (k, out) s = (Ok u, s')"
  shows "\<exists>a. unat a = unat (sum_out s) + unat (out_value out) \<and>
    s' = s\<lparr>sum_out := a, creates_vault := creates_vault s \<or> out_covenant_type out = COV_TYPE_VAULT,
      ua_work := (if unspendable_type (out_covenant_type out) then ua_work s
        else (ua_work s)(\<lparr>op_txid = cx_txid ctx, op_vout = of_nat k\<rparr> \<mapsto> new_entry ctx out))\<rparr>"
proof -
  have u: "unat (ucast (out_value out) :: u128) = unat (out_value out)"
    using unsigned_less [of "out_value out", where 'a = nat] by (simp add: unat_ucast)
  obtain a where a: "checked_add (sum_out s) (ucast (out_value out)) = Some a"
    using assms by (auto simp: add_output_def split: option.splits)
  then have "unat a = unat (sum_out s) + unat (out_value out)" using u by (simp add: checked_add_Some)
  moreover have "s' = s\<lparr>sum_out := a, creates_vault := creates_vault s \<or> out_covenant_type out = COV_TYPE_VAULT,
      ua_work := (if unspendable_type (out_covenant_type out) then ua_work s
        else (ua_work s)(\<lparr>op_txid = cx_txid ctx, op_vout = of_nat k\<rparr> \<mapsto> new_entry ctx out))\<rparr>"
    using assms a
    by (cases "unspendable_type (out_covenant_type out)"; cases "out_covenant_type out = COV_TYPE_VAULT")
      (auto simp: add_output_def unspendable_type_def new_entry_def Let_def)
  ultimately show ?thesis by blast
qed

lemma add_outputs_Ok:
  assumes "st_for_each (add_output ctx) (List.enumerate k outs) s = (Ok u, s')" and "k + length outs \<le> 2 ^ 32"
  shows "\<exists>a. unat a = unat (sum_out s) + (\<Sum>out\<leftarrow>outs. unat (out_value out)) \<and>
    s' = s\<lparr>sum_out := a, creates_vault := creates_vault s \<or> list_ex (\<lambda>out. out_covenant_type out = COV_TYPE_VAULT) outs,
      ua_work := ua_work s ++ created_from ctx k outs\<rparr>"
  using assms
proof (induction outs arbitrary: k s)
  case Nil
  have "created_from ctx k [] = Map.empty" by (rule ext) (simp add: created_from_def Let_def)
  then show ?case using Nil by (intro exI [of _ "sum_out s"]) simp
next
  case (Cons out outs)
  obtain s1 where 1: "add_output ctx (k, out) s = (Ok (), s1)"
    and 2: "st_for_each (add_output ctx) (List.enumerate (Suc k) outs) s1 = (Ok u, s')"
    using Cons.prems(1) by (auto simp: st_simps)
  obtain a where s1: "unat a = unat (sum_out s) + unat (out_value out)"
    "s1 = s\<lparr>sum_out := a, creates_vault := creates_vault s \<or> out_covenant_type out = COV_TYPE_VAULT,
      ua_work := (if unspendable_type (out_covenant_type out) then ua_work s
        else (ua_work s)(\<lparr>op_txid = cx_txid ctx, op_vout = of_nat k\<rparr> \<mapsto> new_entry ctx out))\<rparr>"
    using add_output_Ok [OF 1] by blast
  obtain a' where s': "unat a' = unat (sum_out s1) + (\<Sum>out\<leftarrow>outs. unat (out_value out))"
    "s' = s1\<lparr>sum_out := a', creates_vault := creates_vault s1 \<or> list_ex (\<lambda>out. out_covenant_type out = COV_TYPE_VAULT) outs,
      ua_work := ua_work s1 ++ created_from ctx (Suc k) outs\<rparr>"
    using Cons.IH [OF 2] Cons.prems(2) by auto
  have "k < 2 ^ 32" using Cons.prems(2) by simp
  then have w: "ua_work s ++ created_from ctx k (out # outs) = ua_work s1 ++ created_from ctx (Suc k) outs"
    using s1(2) by (simp add: created_from_Cons)
  show ?case
    by (rule exI [of _ a']) (use s' s1 w in \<open>simp add: disj_assoc\<close>)
qed

lemma vault_spend_frame:
  assumes "validate_vault_spend ssl H ctx s = (Ok u, s')"
  shows "\<exists>c q v. s' = s\<lparr>sighash_cache := c, sig_queue := q, vault_spend := v\<rparr>"
proof (cases "vault_input_count s = 1")
  case False
  then show ?thesis using assms
    by (intro exI [of _ "sighash_cache s"] exI [of _ "sig_queue s"] exI [of _ "vault_spend s"])
      (simp add: validate_vault_spend_def)
next
  case True
  then obtain v where v: "vault_spend s = Some v"
    using assms by (auto simp: validate_vault_spend_def split: option.splits)
  obtain m :: "(spend_state, unit) st" where "on_spend m (s\<lparr>vault_spend := None\<rparr>) = (Ok (), s')"
    using assms True v by (auto simp: validate_vault_spend_def st_simps st_update_def)
  then obtain c q where "s' = s\<lparr>vault_spend := None, sighash_cache := c, sig_queue := q\<rparr>"
    by (auto simp: on_spend_def split: prod.splits)
  then show ?thesis by (intro exI [of _ c] exI [of _ q] exI [of _ None]) simp
qed

text \<open>An output made by a coinbase is spent 100 blocks later at the earliest.\<close>

definition mature :: "u64 \<Rightarrow> UtxoEntry \<Rightarrow> bool" where
  "mature height entry \<longleftrightarrow> \<not> created_by_coinbase entry \<or> unat (creation_height entry) + 100 \<le> unat height"

lemma spendable_mature: "spendable ctx entry \<Longrightarrow> mature (cx_height ctx) entry \<and> \<not> unspendable_type (ue_covenant_type entry)"
  by (auto simp: spendable_def validate_input_availability_def mature_def unspendable_type_def const_defs
      word_less_nat_alt word_le_nat_alt unat_sub split: if_splits)

text \<open>All the phases of an accepted transaction.\<close>

lemma apply_impl_Ok:
  assumes "apply_impl ssl H ctx q = (Ok (w, sm), q')" and "length (outputs (cx_tx ctx)) \<le> 2 ^ 32"
  obtains s0 s1 s2 s3 s4 entries where
    "validate_apply_inputs ctx = Ok ()" "UtxoApplyState_new ctx q = Ok s0"
    "resolve_inputs ctx s0 = (Ok (), s1)" "validate_spends ssl H ctx s1 = (Ok (), s2)"
    "add_outputs ctx s2 = (Ok (), s3)" "validate_vault_creation ctx s3 = Ok ()"
    "validate_vault_spend ssl H ctx s3 = (Ok (), s4)" "finish s4 = Ok (w, sm)"
    "distinct (map signing_outpoint (inputs (cx_tx ctx)))"
    "map (\<lambda>i. cx_utxo_set ctx (signing_outpoint i)) (inputs (cx_tx ctx)) = map Some entries"
    "list_all (spendable ctx) entries" "length (filter is_vault entries) \<le> 1"
    "resolved_inputs s1 = entries" "resolved_witness_ranges s1 = slot_ranges 0 entries"
    "length (slot_ranges 0 entries) = length entries"
    "resolved_outpoints s1 = map signing_outpoint (inputs (cx_tx ctx))"
    "input_lock_ids s3 = map (lock_id H) entries" "input_cov_types s3 = map ue_covenant_type entries"
    "sighash_cache s1 = sighash_cache s0" "sig_queue s1 = sig_queue s0"
    "sighash_cache s3 = sighash_cache s2" "sig_queue s3 = sig_queue s2" "vault_spend s3 = vault_spend s2"
    "vault_input_count s3 = length (filter is_vault entries)"
    "vault_input_count s4 = length (filter is_vault entries)"
    "unat (sum_in s4) = (\<Sum>e\<leftarrow>entries. entry_value e)"
    "unat (sum_in_vault s4) = (\<Sum>e\<leftarrow>filter is_vault entries. entry_value e)"
    "unat (sum_out s4) = (\<Sum>out\<leftarrow>outputs (cx_tx ctx). unat (out_value out))"
    "ua_work s4 = cx_utxo_set ctx |` (- signing_outpoint ` set (inputs (cx_tx ctx))) ++ created_from ctx 0 (outputs (cx_tx ctx))"
proof -
  obtain s0 where new: "validate_apply_inputs ctx = Ok ()" "UtxoApplyState_new ctx q = Ok s0"
      "fst (apply_phases ssl H ctx s0) = Ok (w, sm)"
    using assms(1) by (auto simp: apply_impl_def apsnd_def map_prod_def split: sum.splits prod.splits)
  then obtain s1 s2 s3 s4 where p: "resolve_inputs ctx s0 = (Ok (), s1)" "validate_spends ssl H ctx s1 = (Ok (), s2)"
      "add_outputs ctx s2 = (Ok (), s3)" "validate_vault_creation ctx s3 = Ok ()"
      "validate_vault_spend ssl H ctx s3 = (Ok (), s4)" "finish s4 = Ok (w, sm)"
    by (auto simp: apply_phases_def st_simps fst_Inr)
  have s0: "ua_work s0 = cx_utxo_set ctx" "seen_inputs s0 = {}" "vault_input_count s0 = 0" "resolved_inputs s0 = []"
      "resolved_witness_ranges s0 = []" "resolved_outpoints s0 = []" "witness_cursor s0 = 0" "sum_in s0 = 0"
      "sum_in_vault s0 = 0" "sum_out s0 = 0" "input_lock_ids s0 = []" "input_cov_types s0 = []"
    using new(2) by (auto simp: UtxoApplyState_new_def)
  have "st_for_each (resolve_input ctx) (inputs (cx_tx ctx)) s0 = (Ok (), s1)"
    using p(1) by (auto simp: resolve_inputs_def st_simps split: if_splits)
  from resolve_loop_Ok [OF this] s0 obtain entries k where
    r: "distinct (map signing_outpoint (inputs (cx_tx ctx)))"
      "map (\<lambda>i. cx_utxo_set ctx (signing_outpoint i)) (inputs (cx_tx ctx)) = map Some entries"
      "list_all (spendable ctx) entries" "length (filter is_vault entries) \<le> 1"
      "length (slot_ranges 0 entries) = length entries"
    and s1: "s1 = s0\<lparr>seen_inputs := signing_outpoint ` set (inputs (cx_tx ctx)), vault_input_count := length (filter is_vault entries),
      resolved_inputs := entries, resolved_witness_ranges := slot_ranges 0 entries,
      resolved_outpoints := map signing_outpoint (inputs (cx_tx ctx)), witness_cursor := k\<rparr>"
    by auto
  have l: "length (inputs (cx_tx ctx)) = length entries" using r(2) by (metis length_map)
  have "st_for_each (validate_spend ssl H ctx) (List.enumerate 0 (zip (zip entries (slot_ranges 0 entries))
      (map signing_outpoint (inputs (cx_tx ctx))))) s1 = (Ok (), s2)"
    using p(2) s1 by (simp add: validate_spends_def)
  from validate_spends_loop_Ok [OF this r(5)] l s1 s0 obtain c1 q1 v1 a b where
    s2: "s2 = s1\<lparr>sighash_cache := c1, sig_queue := q1, vault_spend := v1, sum_in := a, sum_in_vault := b,
      input_lock_ids := map (lock_id H) entries, input_cov_types := map ue_covenant_type entries,
      ua_work := cx_utxo_set ctx |` (- signing_outpoint ` set (inputs (cx_tx ctx)))\<rparr>"
      "unat a = (\<Sum>e\<leftarrow>entries. entry_value e)" "unat b = (\<Sum>e\<leftarrow>filter is_vault entries. entry_value e)"
    by auto
  from add_outputs_Ok [of ctx 0 "outputs (cx_tx ctx)" s2 "()" s3] p(3) assms(2) s2 s1 s0 obtain d where
    s3: "unat d = (\<Sum>out\<leftarrow>outputs (cx_tx ctx). unat (out_value out))"
      "s3 = s2\<lparr>sum_out := d, creates_vault := creates_vault s2 \<or> list_ex (\<lambda>out. out_covenant_type out = COV_TYPE_VAULT) (outputs (cx_tx ctx)),
      ua_work := ua_work s2 ++ created_from ctx 0 (outputs (cx_tx ctx))\<rparr>"
    by (auto simp: add_outputs_def)
  obtain c2 q2 v2 where s4: "s4 = s3\<lparr>sighash_cache := c2, sig_queue := q2, vault_spend := v2\<rparr>"
    using vault_spend_frame [OF p(5)] by blast
  show ?thesis
    by (rule that [OF new(1,2) p r(1-4)]) (use r(5) s1 s2 s3 s4 in simp_all)
qed

lemma apply_impl_conserves:
  assumes "apply_impl ssl H ctx q = (Ok (w, sm), q')" and "length (outputs (cx_tx ctx)) \<le> 2 ^ 32"
  shows "\<exists>entries. distinct (map signing_outpoint (inputs (cx_tx ctx))) \<and>
    map (\<lambda>i. cx_utxo_set ctx (signing_outpoint i)) (inputs (cx_tx ctx)) = map Some entries \<and>
    list_all (\<lambda>e. mature (cx_height ctx) e \<and> \<not> unspendable_type (ue_covenant_type e)) entries \<and>
    unat (fee sm) + (\<Sum>out\<leftarrow>outputs (cx_tx ctx). unat (out_value out)) = (\<Sum>e\<leftarrow>entries. entry_value e) \<and>
    length (filter is_vault entries) \<le> 1 \<and>
    (\<Sum>e\<leftarrow>filter is_vault entries. entry_value e) \<le> (\<Sum>out\<leftarrow>outputs (cx_tx ctx). unat (out_value out)) \<and>
    w = cx_utxo_set ctx |` (- signing_outpoint ` set (inputs (cx_tx ctx))) ++ created_from ctx 0 (outputs (cx_tx ctx)) \<and>
    utxo_count sm = of_nat (card (dom w))"
proof -
  from assms obtain s4 entries where f: "finish s4 = Ok (w, sm)"
      "distinct (map signing_outpoint (inputs (cx_tx ctx)))"
      "map (\<lambda>i. cx_utxo_set ctx (signing_outpoint i)) (inputs (cx_tx ctx)) = map Some entries"
      "list_all (spendable ctx) entries" "length (filter is_vault entries) \<le> 1"
      "vault_input_count s4 = length (filter is_vault entries)"
      "unat (sum_in s4) = (\<Sum>e\<leftarrow>entries. entry_value e)"
      "unat (sum_in_vault s4) = (\<Sum>e\<leftarrow>filter is_vault entries. entry_value e)"
      "unat (sum_out s4) = (\<Sum>out\<leftarrow>outputs (cx_tx ctx). unat (out_value out))"
      "ua_work s4 = cx_utxo_set ctx |` (- signing_outpoint ` set (inputs (cx_tx ctx))) ++ created_from ctx 0 (outputs (cx_tx ctx))"
    by (rule apply_impl_Ok) blast
  have g: "sum_out s4 \<le> sum_in s4" "\<not> (vault_input_count s4 = 1 \<and> sum_out s4 < sum_in_vault s4)" "w = ua_work s4"
      "fee sm = sum_in s4 - sum_out s4" "utxo_count sm = of_nat (card (dom w))"
    using f(1) by (auto simp: finish_def split: if_splits)
  have "unat (fee sm) + unat (sum_out s4) = unat (sum_in s4)"
    using g(1,4) by (simp add: unat_sub word_le_nat_alt)
  moreover have "(\<Sum>e\<leftarrow>filter is_vault entries. entry_value e) \<le> unat (sum_out s4)"
  proof (cases "length (filter is_vault entries) = 1")
    case True
    then show ?thesis using g(2) f(6,8) by (simp add: word_less_nat_alt)
  next
    case False
    then have "filter is_vault entries = []" using f(5) by (cases "filter is_vault entries") auto
    then show ?thesis by simp
  qed
  moreover have "list_all (\<lambda>e. mature (cx_height ctx) e \<and> \<not> unspendable_type (ue_covenant_type e)) entries"
    using f(4) spendable_mature by (auto simp: list_all_iff)
  ultimately show ?thesis using f g by (intro exI [of _ entries]) simp
qed

text \<open>
  C5: an accepted transaction moves value and outputs exactly as it says. It spends
  distinct outpoints that all exist, are of a spendable type and, if they come from a
  coinbase, are at least 100 blocks old. The fee is exactly the value of the spent
  outputs minus the value of the created ones, with no rounding or wrap-around, and
  never negative. The new set is the old one without the spent outpoints and with the
  spendable outputs of the transaction, and its size is reported. At most one vault
  is spent, and its value goes to the outputs, not to the fee.
\<close>

theorem accepted_tx_conserves_value:
  assumes "apply_impl ssl H ctx q = (Ok (w, sm), q')" and "length (outputs (cx_tx ctx)) \<le> 2 ^ 32"
  shows "\<exists>entries. distinct (map signing_outpoint (inputs (cx_tx ctx))) \<and>
    map (\<lambda>i. cx_utxo_set ctx (signing_outpoint i)) (inputs (cx_tx ctx)) = map Some entries \<and>
    list_all (\<lambda>e. mature (cx_height ctx) e \<and> \<not> unspendable_type (ue_covenant_type e)) entries \<and>
    unat (fee sm) + (\<Sum>out\<leftarrow>outputs (cx_tx ctx). unat (out_value out)) = (\<Sum>e\<leftarrow>entries. entry_value e) \<and>
    length (filter is_vault entries) \<le> 1 \<and>
    (\<Sum>e\<leftarrow>filter is_vault entries. entry_value e) \<le> (\<Sum>out\<leftarrow>outputs (cx_tx ctx). unat (out_value out)) \<and>
    w = cx_utxo_set ctx |` (- signing_outpoint ` set (inputs (cx_tx ctx))) ++ created_from ctx 0 (outputs (cx_tx ctx)) \<and>
    utxo_count sm = of_nat (card (dom w))"
  using apply_impl_conserves [OF assms] .

section \<open>Every input is authorised\<close>

text \<open>
  What opens an output, by its type: \<open>ws\<close> are the witness items assigned to input \<open>j\<close>.
\<close>

definition key_opens :: "OpenSSL \<Rightarrow> (bytes \<Rightarrow> bytes32) \<Rightarrow> UtxoApplyImplContext \<Rightarrow> u32 \<Rightarrow> UtxoEntry \<Rightarrow> WitnessItem \<Rightarrow> bool" where
  "key_opens ssl H ctx j entry w \<longleftrightarrow>
    item_shape (native_spend_suites (rotation_or_default (cx_rotation ctx)) (cx_height ctx))
      (registry_or_default (cx_registry ctx)) w \<and>
    signs ssl H (cx_tx ctx) (registry_or_default (cx_registry ctx)) j (ue_value entry) (cx_chain_id ctx) w"

definition threshold_opens ::
  "OpenSSL \<Rightarrow> (bytes \<Rightarrow> bytes32) \<Rightarrow> UtxoApplyImplContext \<Rightarrow> u32 \<Rightarrow> UtxoEntry \<Rightarrow> bytes32 list \<Rightarrow> u8 \<Rightarrow> WitnessItem list \<Rightarrow> bool" where
  "threshold_opens ssl H ctx j entry keys threshold ws \<longleftrightarrow>
    list_all2 (slot_signed ssl H (cx_tx ctx) (registry_or_default (cx_registry ctx))
      (native_spend_suites (rotation_or_default (cx_rotation ctx)) (cx_height ctx)) j (ue_value entry) (cx_chain_id ctx)) keys ws \<and>
    unat threshold \<le> signed_slots ws"

definition opens ::
  "OpenSSL \<Rightarrow> (bytes \<Rightarrow> bytes32) \<Rightarrow> UtxoApplyImplContext \<Rightarrow> u32 \<Rightarrow> UtxoEntry \<Rightarrow> WitnessItem list \<Rightarrow> bool" where
  "opens ssl H ctx j entry ws \<longleftrightarrow> (let ty = ue_covenant_type entry; data = ue_covenant_data entry in
    if ty = COV_TYPE_P2PK then \<exists>w. ws = [w] \<and> key_opens ssl H ctx j entry w \<and>
      len64 data = 33 \<and> data ! 0 = suite_id w \<and> slice data 1 33 = H (pubkey w)
    else if ty = COV_TYPE_MULTISIG then \<exists>m. parse_multisig_covenant_data data = Ok m \<and>
      threshold_opens ssl H ctx j entry (m_keys m) (m_threshold m) ws
    else if ty = COV_TYPE_VAULT then \<exists>v. parse_vault_covenant_data_for_spend data = Ok v \<and>
      threshold_opens ssl H ctx j entry (v_keys v) (v_threshold v) ws
    else if ty = COV_TYPE_HTLC then \<exists>p w cov. ws = [p, w] \<and> key_opens ssl H ctx j entry w \<and>
      parse_htlc_covenant_data data = Ok cov \<and> suite_id p = SUITE_ID_SENTINEL \<and> length (pubkey p) = 32 \<and>
      (htlc_claims H cov p w \<or> htlc_refunds H cov (htlc_context ctx entry j) p w)
    else ty = COV_TYPE_CORE_STEALTH \<and> (\<exists>w cov. ws = [w] \<and> key_opens ssl H ctx j entry w \<and>
      parse_stealth_covenant_data data = Ok cov \<and> H (pubkey w) = one_time_key_id cov))"

lemma apply_p2pk_settles:
  assumes ty: "ue_covenant_type entry = COV_TYPE_P2PK"
  shows "\<exists>r. settles H (cx_tx ctx) (apply_p2pk_spend ssl H ctx entry ws j) r \<and> (r = Ok () \<longleftrightarrow> opens ssl H ctx j entry ws)"
proof (cases "\<exists>w. ws = [w]")
  case True
  then obtain w where w: "ws = [w]" ..
  then show ?thesis
    using p2pk_settles [of H "cx_tx ctx" ssl entry w j "ue_value entry" "cx_chain_id ctx" "cx_height ctx" "cx_rotation ctx" "cx_registry ctx"] ty
    by (auto simp: apply_p2pk_spend_def opens_def key_opens_def)
next
  case False
  then have "apply_p2pk_spend ssl H ctx entry ws j = st_err TxErrParse ''CORE_P2PK witness_slots must be 1''"
    by (auto simp: apply_p2pk_spend_def split: list.split)
  then show ?thesis using False ty settles_lift by (auto simp: opens_def intro!: exI)
qed

lemma apply_multisig_settles:
  assumes ty: "ue_covenant_type entry = COV_TYPE_MULTISIG"
  shows "\<exists>r. settles H (cx_tx ctx) (apply_multisig_spend ssl H ctx entry ws j) r \<and> (r = Ok () \<longleftrightarrow> opens ssl H ctx j entry ws)"
proof (cases "parse_multisig_covenant_data (ue_covenant_data entry)")
  case (Inl e)
  then have "apply_multisig_spend ssl H ctx entry ws j = st_lift (Inl e)"
    by (simp add: apply_multisig_spend_def fun_eq_iff st_bind_def st_lift_def)
  then show ?thesis using Inl ty settles_lift by (auto simp: opens_def intro!: exI)
next
  case (Inr m)
  then have "apply_multisig_spend ssl H ctx entry ws j = validate_threshold_sig_spend_q ssl H (m_keys m) (m_threshold m) ws j
      (ue_value entry) (cx_chain_id ctx) (cx_height ctx) ''CORE_MULTISIG'' (cx_rotation ctx) (cx_registry ctx)"
    by (simp add: apply_multisig_spend_def fun_eq_iff st_bind_def st_lift_def)
  then show ?thesis
    using Inr ty threshold_settles [of H "cx_tx ctx" ssl "m_keys m" "m_threshold m" ws j "ue_value entry" "cx_chain_id ctx"
        "cx_height ctx" "''CORE_MULTISIG''" "cx_rotation ctx" "cx_registry ctx"]
    by (simp add: opens_def threshold_opens_def)
qed

lemma apply_htlc_settles:
  assumes ty: "ue_covenant_type entry = COV_TYPE_HTLC"
  shows "\<exists>r. settles H (cx_tx ctx) (apply_htlc_spend ssl H ctx entry ws j) r \<and> (r = Ok () \<longleftrightarrow> opens ssl H ctx j entry ws)"
proof (cases "\<exists>p w. ws = [p, w]")
  case True
  then obtain p w where w: "ws = [p, w]" by blast
  then show ?thesis
    using htlc_settles [of H "cx_tx ctx" ssl entry p w "htlc_context ctx entry j" "cx_rotation ctx" "cx_registry ctx"] ty
    by (auto simp: apply_htlc_spend_def opens_def key_opens_def htlc_context_def)
next
  case False
  then have "apply_htlc_spend ssl H ctx entry ws j = st_err TxErrParse ''CORE_HTLC witness_slots must be 2''"
    by (auto simp: apply_htlc_spend_def split: list.split)
  then show ?thesis using False ty settles_lift by (auto simp: opens_def intro!: exI)
qed

lemma apply_stealth_settles:
  assumes ty: "ue_covenant_type entry = COV_TYPE_CORE_STEALTH"
  shows "\<exists>r. settles H (cx_tx ctx) (apply_stealth_spend ssl H ctx entry ws j) r \<and> (r = Ok () \<longleftrightarrow> opens ssl H ctx j entry ws)"
proof (cases "\<exists>w. ws = [w]")
  case True
  then obtain w where w: "ws = [w]" ..
  then show ?thesis
    using stealth_settles [of H "cx_tx ctx" ssl entry w j "ue_value entry" "cx_chain_id ctx" "cx_height ctx" "cx_rotation ctx" "cx_registry ctx"] ty
    by (auto simp: apply_stealth_spend_def opens_def key_opens_def)
next
  case False
  then have "apply_stealth_spend ssl H ctx entry ws j = st_err TxErrParse ''CORE_STEALTH witness_slots must be 1''"
    by (auto simp: apply_stealth_spend_def split: list.split)
  then show ?thesis using False ty settles_lift by (auto simp: opens_def intro!: exI)
qed

lemmas apply_spend_settles = apply_p2pk_settles apply_multisig_settles apply_htlc_settles apply_stealth_settles

text \<open>A state of a run without a queue.\<close>

definition at_once :: "(bytes \<Rightarrow> bytes32) \<Rightarrow> UtxoApplyImplContext \<Rightarrow> UtxoApplyState \<Rightarrow> bool" where
  "at_once H ctx s \<longleftrightarrow> sig_queue s = None \<and> cache_ok H (sighash_cache s) \<and> sc_tx (sighash_cache s) = cx_tx ctx"

lemma on_spend_settles:
  assumes "settles H (cx_tx ctx) m r" and "at_once H ctx s"
  shows "\<exists>c. on_spend m s = (r, s\<lparr>sighash_cache := c, sig_queue := None\<rparr>) \<and> at_once H ctx (s\<lparr>sighash_cache := c, sig_queue := None\<rparr>)"
proof -
  obtain c where "m (sighash_cache s, None) = (r, (c, None))" "cache_ok H c" "sc_tx c = cx_tx ctx"
    using assms unfolding settles_def at_once_def by blast
  then show ?thesis using assms(2) by (intro exI [of _ c]) (simp add: on_spend_def at_once_def)
qed

text \<open>What checking one resolved input establishes.\<close>

definition spend_checked ::
  "OpenSSL \<Rightarrow> (bytes \<Rightarrow> bytes32) \<Rightarrow> UtxoApplyImplContext \<Rightarrow> VaultSpendState option \<Rightarrow> nat \<Rightarrow> UtxoEntry \<Rightarrow> nat \<times> nat \<Rightarrow> bool" where
  "spend_checked ssl H ctx vs j entry rng \<longleftrightarrow> snd rng \<le> length (witness (cx_tx ctx)) \<and>
    (if is_vault entry then \<exists>v. VaultSpendState_capture entry rng (of_nat j) = Ok v \<and> vs = Some v
     else opens ssl H ctx (of_nat j) entry (slice (witness (cx_tx ctx)) (fst rng) (snd rng)))"

lemma resolved_spend_at_once:
  assumes "validate_resolved_spend ssl H ctx entry rng j s = (Ok u, s')" and a: "at_once H ctx s" and "spendable ctx entry"
  shows "at_once H ctx s' \<and> spend_checked ssl H ctx (vault_spend s') j entry rng \<and>
    (\<not> is_vault entry \<longrightarrow> vault_spend s' = vault_spend s)"
proof -
  let ?ws = "slice (witness (cx_tx ctx)) (fst rng) (snd rng)" and ?ty = "ue_covenant_type entry"
  have w: "snd rng \<le> length (witness (cx_tx ctx))" "assigned_witness (cx_tx ctx) rng = Ok ?ws"
    using assms(1) by (auto simp: validate_resolved_spend_def st_simps assigned_witness_def split: if_splits)
  have ty: "?ty = COV_TYPE_P2PK \<or> ?ty = COV_TYPE_MULTISIG \<or> ?ty = COV_TYPE_VAULT \<or> ?ty = COV_TYPE_HTLC \<or> ?ty = COV_TYPE_CORE_STEALTH"
    using assms(3) by (auto simp: spendable_def check_spend_covenant_def split: if_splits)
  have spend: ?thesis if m: "validate_resolved_spend ssl H ctx entry rng j s = on_spend m s" "\<not> is_vault entry"
    and r: "\<exists>r. settles H (cx_tx ctx) m r \<and> (r = Ok () \<longleftrightarrow> opens ssl H ctx (of_nat j) entry ?ws)"
    for m :: "(spend_state, unit) st"
  proof -
    obtain r where r: "settles H (cx_tx ctx) m r" "r = Ok () \<longleftrightarrow> opens ssl H ctx (of_nat j) entry ?ws" using r by blast
    obtain c where c: "on_spend m s = (r, s\<lparr>sighash_cache := c, sig_queue := None\<rparr>)"
        "at_once H ctx (s\<lparr>sighash_cache := c, sig_queue := None\<rparr>)"
      using on_spend_settles [OF r(1) a] by blast
    then show ?thesis using assms(1) m r(2) w(1) by (auto simp: spend_checked_def)
  qed
  show ?thesis
  proof (cases "is_vault entry")
    case True
    then show ?thesis using assms(1) w a
      by (auto simp: validate_resolved_spend_def Let_def st_simps is_vault_def spend_checked_def st_update_def at_once_def)
  next
    case False
    then have "?ty \<noteq> COV_TYPE_VAULT" by (simp add: is_vault_def)
    with ty consider "?ty = COV_TYPE_P2PK" | "?ty = COV_TYPE_MULTISIG" | "?ty = COV_TYPE_HTLC" | "?ty = COV_TYPE_CORE_STEALTH"
      by blast
    then show ?thesis
      by cases (rule spend, simp add: validate_resolved_spend_def w(2) st_bind_def st_lift_def, rule False,
          erule apply_spend_settles)+
  qed
qed

lemma validate_spends_at_once:
  assumes "st_for_each (validate_spend ssl H ctx) (List.enumerate k (zip (zip entries rngs) ops)) s = (Ok u, s')"
    and "length rngs = length entries" and "length ops = length entries" and "at_once H ctx s"
    and "list_all (spendable ctx) entries" and "length (filter is_vault entries) \<le> 1"
  shows "at_once H ctx s' \<and> (filter is_vault entries = [] \<longrightarrow> vault_spend s' = vault_spend s) \<and>
    (\<forall>j < length entries. spend_checked ssl H ctx (vault_spend s') (k + j) (entries ! j) (rngs ! j))"
  using assms
proof (induction entries arbitrary: k rngs ops s)
  case (Cons entry entries)
  then obtain rng rngs' op ops' where l: "rngs = rng # rngs'" "ops = op # ops'" "length rngs' = length entries"
      "length ops' = length entries"
    by (metis length_Suc_conv)
  obtain s1 where 1: "validate_spend ssl H ctx (k, (entry, rng), op) s = (Ok (), s1)"
    and 2: "st_for_each (validate_spend ssl H ctx) (List.enumerate (Suc k) (zip (zip entries rngs') ops')) s1 = (Ok u, s')"
    using Cons.prems(1) l by (auto simp: st_simps)
  obtain c q v where v: "validate_resolved_spend ssl H ctx entry rng k s = (Ok (), s\<lparr>sighash_cache := c, sig_queue := q, vault_spend := v\<rparr>)"
      "sighash_cache s1 = c" "sig_queue s1 = q" "vault_spend s1 = v"
    using validate_spend_Ok [OF 1] by auto
  have sp: "spendable ctx entry" using Cons.prems(5) by simp
  have A: "at_once H ctx s1" "spend_checked ssl H ctx (vault_spend s1) k entry rng"
      "\<not> is_vault entry \<longrightarrow> vault_spend s1 = vault_spend s"
    using resolved_spend_at_once [OF v(1) Cons.prems(4) sp] v(2-4) by (auto simp: at_once_def)
  have f: "list_all (spendable ctx) entries" "length (filter is_vault entries) \<le> 1"
      "is_vault entry \<Longrightarrow> filter is_vault entries = []"
    using Cons.prems(5,6) by (auto split: if_splits)
  note B = Cons.IH [OF 2 l(3,4) A(1) f(1,2)]
  have "spend_checked ssl H ctx (vault_spend s') k entry rng"
    using A(2) B f(3) by (cases "is_vault entry") (auto simp: spend_checked_def)
  then have "spend_checked ssl H ctx (vault_spend s') (k + j) ((entry # entries) ! j) (rngs ! j)"
    if "j < length (entry # entries)" for j
    using B that l(1) by (cases j) auto
  then show ?case using A(3) B by (auto split: if_splits)
qed simp

text \<open>The rules of a vault spend beyond the signatures of its keys.\<close>

definition vault_rules ::
  "(bytes \<Rightarrow> bytes32) \<Rightarrow> Tx \<Rightarrow> UtxoEntry list \<Rightarrow> bytes32 \<Rightarrow> bytes32 list \<Rightarrow> bool" where
  "vault_rules H tx entries owner wl \<longleftrightarrow>
    (\<exists>e \<in> set entries. lock_id H e = owner) \<and> (\<forall>e \<in> set entries. is_vault e \<or> lock_id H e = owner) \<and>
    (\<forall>out \<in> set (outputs tx). out_covenant_type out \<in> {COV_TYPE_P2PK, COV_TYPE_MULTISIG, COV_TYPE_HTLC} \<and>
      H (output_descriptor_bytes (out_covenant_type out) (out_covenant_data out)) \<in> set wl)"

lemma bsearch_base_bound: "0 < sz \<Longrightarrow> bsearch_base xs t base sz < base + sz"
proof (induction xs t base sz rule: bsearch_base.induct)
  case (1 xs t base sz)
  show ?case
  proof (cases "sz > 1")
    case True
    let ?b = "if xs ! (base + sz div 2) > t then base else base + sz div 2"
    have "bsearch_base xs t base sz = bsearch_base xs t ?b (sz - sz div 2)"
      using True by (subst bsearch_base.simps) (simp add: Let_def)
    moreover have "bsearch_base xs t ?b (sz - sz div 2) < ?b + (sz - sz div 2)"
      using 1(1) [OF True refl refl] True by simp
    ultimately show ?thesis by (auto split: if_splits)
  next
    case False
    then show ?thesis using 1(2) by (subst bsearch_base.simps) simp
  qed
qed

lemma hash_in_sorted_member: "hash_in_sorted_32 xs t \<Longrightarrow> t \<in> set xs"
  using bsearch_base_bound [of "length xs" xs t 0] by (auto simp: hash_in_sorted_32_def in_set_conv_nth)

lemma vault_rules_Ok:
  assumes "validate_owner_and_sponsor v (map (lock_id H) entries) (map ue_covenant_type entries) = Ok ()"
    and "validate_destinations H v tx = Ok ()"
  shows "vault_rules H tx entries (vs_owner_lock_id v) (vs_whitelist v)"
proof -
  have "\<exists>e \<in> set entries. lock_id H e = vs_owner_lock_id v" "\<forall>e \<in> set entries. is_vault e \<or> lock_id H e = vs_owner_lock_id v"
    using assms(1)
    by (auto simp: validate_owner_and_sponsor_def has_owner_lock_input_def non_vault_inputs_owned_by_def zip_map_map
        zip_same_conv_map list_all_iff is_vault_def split: if_splits)
  moreover have "\<forall>out \<in> set (outputs tx). out_covenant_type out \<in> {COV_TYPE_P2PK, COV_TYPE_MULTISIG, COV_TYPE_HTLC} \<and>
      H (output_descriptor_bytes (out_covenant_type out) (out_covenant_data out)) \<in> set (vs_whitelist v)"
    using assms(2) hash_in_sorted_member
    by (auto simp: validate_destinations_def vault_destination_step_def split: if_splits)
  ultimately show ?thesis unfolding vault_rules_def by (intro conjI)
qed

lemma vault_spend_at_once:
  assumes "validate_vault_spend ssl H ctx s = (Ok u, s')" and "at_once H ctx s" and "vault_input_count s = 1"
    and "vault_spend s = Some v" and "VaultSpendState_capture entry rng j = Ok v"
    and "snd rng \<le> length (witness (cx_tx ctx))" and "is_vault entry"
    and "input_lock_ids s = map (lock_id H) entries" and "input_cov_types s = map ue_covenant_type entries"
  shows "opens ssl H ctx j entry (slice (witness (cx_tx ctx)) (fst rng) (snd rng)) \<and>
    vault_rules H (cx_tx ctx) entries (vs_owner_lock_id v) (vs_whitelist v)"
proof -
  obtain cov where cov: "parse_vault_covenant_data_for_spend (ue_covenant_data entry) = Ok cov"
      "vs_keys v = v_keys cov" "vs_threshold v = v_threshold cov" "vs_witness_range v = rng" "vs_input_index v = j"
      "vs_input_value v = ue_value entry"
    using assms(5) by (auto simp: VaultSpendState_capture_def)
  have at: "at_once H ctx (s\<lparr>vault_spend := None\<rparr>)" using assms(2) by (simp add: at_once_def)
  obtain s1 where p: "validate_owner_and_sponsor v (map (lock_id H) entries) (map ue_covenant_type entries) = Ok ()"
      "on_spend (vault_validate_signature ssl H ctx v) (s\<lparr>vault_spend := None\<rparr>) = (Ok (), s1)"
      "validate_destinations H v (cx_tx ctx) = Ok ()"
    using assms(1,3,4,8,9) by (auto simp: validate_vault_spend_def st_simps st_update_def)
  let ?ws = "slice (witness (cx_tx ctx)) (fst rng) (snd rng)"
  obtain s2 where "on_spend (validate_threshold_sig_spend_q ssl H (v_keys cov) (v_threshold cov) ?ws j (ue_value entry)
      (cx_chain_id ctx) (cx_height ctx) ''CORE_VAULT'' (cx_rotation ctx) (cx_registry ctx)) (s\<lparr>vault_spend := None\<rparr>) = (Ok (), s2)"
  proof -
    have "assigned_witness (cx_tx ctx) rng = Ok ?ws"
      using p(2) cov(4) by (auto simp: on_spend_def vault_validate_signature_def st_simps assigned_witness_def
          split: prod.splits if_splits)
    then show ?thesis using that p(2) cov by (simp add: on_spend_def vault_validate_signature_def st_bind_def st_lift_def)
  qed
  moreover obtain r where r: "settles H (cx_tx ctx) (validate_threshold_sig_spend_q ssl H (v_keys cov) (v_threshold cov) ?ws j
      (ue_value entry) (cx_chain_id ctx) (cx_height ctx) ''CORE_VAULT'' (cx_rotation ctx) (cx_registry ctx)) r"
    "r = Ok () \<longleftrightarrow> threshold_opens ssl H ctx j entry (v_keys cov) (v_threshold cov) ?ws"
    using threshold_settles unfolding threshold_opens_def by blast
  ultimately have "threshold_opens ssl H ctx j entry (v_keys cov) (v_threshold cov) ?ws"
    using on_spend_settles [OF r(1) at] by auto
  then have "opens ssl H ctx j entry ?ws" using cov(1) assms(7) by (simp add: opens_def is_vault_def)
  then show ?thesis using vault_rules_Ok [OF p(1,3)] by blast
qed

text \<open>The state in which a transaction without a queue starts, and what its spend checks leave.\<close>

lemma at_once_new: "UtxoApplyState_new ctx None = Ok s0 \<Longrightarrow> at_once H ctx s0"
  using cache_ok_new [of "cx_tx ctx"] by (auto simp: UtxoApplyState_new_def at_once_def)

lemma spends_checked:
  assumes "at_once H ctx s1" and "validate_spends ssl H ctx s1 = (Ok (), s2)"
    and e: "map (\<lambda>i. cx_utxo_set ctx (signing_outpoint i)) (inputs (cx_tx ctx)) = map Some entries"
      "list_all (spendable ctx) entries" "length (filter is_vault entries) \<le> 1"
      "resolved_inputs s1 = entries" "resolved_witness_ranges s1 = slot_ranges 0 entries"
      "length (slot_ranges 0 entries) = length entries"
      "resolved_outpoints s1 = map signing_outpoint (inputs (cx_tx ctx))"
  shows "at_once H ctx s2"
    and "\<And>j. j < length entries \<Longrightarrow> spend_checked ssl H ctx (vault_spend s2) j (entries ! j) (slot_ranges 0 entries ! j)"
proof -
  have l: "length (map signing_outpoint (inputs (cx_tx ctx))) = length entries" using e(1) by (metis length_map)
  have L: "st_for_each (validate_spend ssl H ctx) (List.enumerate 0 (zip (zip entries (slot_ranges 0 entries))
      (map signing_outpoint (inputs (cx_tx ctx))))) s1 = (Ok (), s2)"
    using assms(2) e(4,5,7) by (simp add: validate_spends_def)
  have B: "at_once H ctx s2 \<and> (\<forall>j < length entries. spend_checked ssl H ctx (vault_spend s2) (0 + j) (entries ! j)
      (slot_ranges 0 entries ! j))"
    using validate_spends_at_once [OF L e(6) l assms(1) e(2,3)] by blast
  from B show "at_once H ctx s2" by (rule conjunct1)
  from B show "spend_checked ssl H ctx (vault_spend s2) j (entries ! j) (slot_ranges 0 entries ! j)" if "j < length entries" for j
    using that by simp
qed

lemma vault_opens:
  assumes a: "at_once H ctx s3" and p: "validate_vault_spend ssl H ctx s3 = (Ok (), s4)"
    and e: "length (filter is_vault entries) \<le> 1" "vault_input_count s3 = length (filter is_vault entries)"
      "input_lock_ids s3 = map (lock_id H) entries" "input_cov_types s3 = map ue_covenant_type entries"
    and j: "j < length entries" "is_vault (entries ! j)"
    and c: "spend_checked ssl H ctx (vault_spend s3) j (entries ! j) (slot_ranges 0 entries ! j)"
  shows "opens ssl H ctx (of_nat j) (entries ! j)
      (slice (witness (cx_tx ctx)) (fst (slot_ranges 0 entries ! j)) (snd (slot_ranges 0 entries ! j))) \<and>
    (\<exists>v. parse_vault_covenant_data_for_spend (ue_covenant_data (entries ! j)) = Ok v \<and>
      vault_rules H (cx_tx ctx) entries (owner_lock_id v) (whitelist v))"
proof -
  have "entries ! j \<in> set (filter is_vault entries)" using j by simp
  then have n: "vault_input_count s3 = 1" using e(1,2) by (cases "filter is_vault entries") auto
  from c j(2) obtain v where v: "VaultSpendState_capture (entries ! j) (slot_ranges 0 entries ! j) (of_nat j) = Ok v"
      "vault_spend s3 = Some v" "snd (slot_ranges 0 entries ! j) \<le> length (witness (cx_tx ctx))"
    by (auto simp: spend_checked_def)
  from vault_spend_at_once [OF p a n v(2,1,3) j(2) e(3,4)] v(1) show ?thesis
    by (auto simp: VaultSpendState_capture_def)
qed

text \<open>
  C4: nothing is spent without authorisation. When a transaction is accepted, the witness
  items assigned to every input open the output it spends: a key's signature for a
  pay-to-public-key or stealth output, enough of the keys for a multisig or a vault, one of
  the two paths for a hashed time lock, and no other type can be spent. A vault moreover is
  spent only together with an input of its owner and with no other party's input, and
  only to outputs on its whitelist.
\<close>

theorem accepted_tx_is_authorised:
  assumes "apply_impl ssl H ctx None = (Ok (w, sm), q')" and "length (outputs (cx_tx ctx)) \<le> 2 ^ 32"
  shows "\<exists>entries. map (\<lambda>i. cx_utxo_set ctx (signing_outpoint i)) (inputs (cx_tx ctx)) = map Some entries \<and>
    (\<forall>j < length entries. opens ssl H ctx (of_nat j) (entries ! j)
      (slice (witness (cx_tx ctx)) (fst (slot_ranges 0 entries ! j)) (snd (slot_ranges 0 entries ! j)))) \<and>
    (\<forall>e \<in> set entries. is_vault e \<longrightarrow> (\<exists>v. parse_vault_covenant_data_for_spend (ue_covenant_data e) = Ok v \<and>
      vault_rules H (cx_tx ctx) entries (owner_lock_id v) (whitelist v)))"
proof -
  from assms obtain s0 s1 s2 s3 s4 entries where
    s0: "UtxoApplyState_new ctx None = Ok s0"
    and p: "validate_spends ssl H ctx s1 = (Ok (), s2)" "validate_vault_spend ssl H ctx s3 = (Ok (), s4)"
    and e: "map (\<lambda>i. cx_utxo_set ctx (signing_outpoint i)) (inputs (cx_tx ctx)) = map Some entries"
      "list_all (spendable ctx) entries" "length (filter is_vault entries) \<le> 1"
      "resolved_inputs s1 = entries" "resolved_witness_ranges s1 = slot_ranges 0 entries"
      "length (slot_ranges 0 entries) = length entries"
      "resolved_outpoints s1 = map signing_outpoint (inputs (cx_tx ctx))"
      "input_lock_ids s3 = map (lock_id H) entries" "input_cov_types s3 = map ue_covenant_type entries"
      "sighash_cache s1 = sighash_cache s0" "sig_queue s1 = sig_queue s0"
      "sighash_cache s3 = sighash_cache s2" "sig_queue s3 = sig_queue s2" "vault_spend s3 = vault_spend s2"
      "vault_input_count s3 = length (filter is_vault entries)"
    by (rule apply_impl_Ok) blast
  have a1: "at_once H ctx s1" using at_once_new [OF s0, of H] e(10,11) by (simp add: at_once_def)
  note B = spends_checked [OF a1 p(1) e(1-7)]
  have a3: "at_once H ctx s3" using B(1) e(12,13) by (simp add: at_once_def)
  have vault: "opens ssl H ctx (of_nat j) (entries ! j)
      (slice (witness (cx_tx ctx)) (fst (slot_ranges 0 entries ! j)) (snd (slot_ranges 0 entries ! j))) \<and>
      (\<exists>v. parse_vault_covenant_data_for_spend (ue_covenant_data (entries ! j)) = Ok v \<and>
        vault_rules H (cx_tx ctx) entries (owner_lock_id v) (whitelist v))"
    if "j < length entries" "is_vault (entries ! j)" for j
    using vault_opens [OF a3 p(2) e(3,15,8,9) that] B(2) [OF that(1)] e(14) by simp
  have "opens ssl H ctx (of_nat j) (entries ! j)
      (slice (witness (cx_tx ctx)) (fst (slot_ranges 0 entries ! j)) (snd (slot_ranges 0 entries ! j)))"
    if "j < length entries" for j
    using vault [OF that] B(2) [OF that] by (cases "is_vault (entries ! j)") (auto simp: spend_checked_def)
  moreover have "\<exists>v. parse_vault_covenant_data_for_spend (ue_covenant_data e) = Ok v \<and>
      vault_rules H (cx_tx ctx) entries (owner_lock_id v) (whitelist v)" if "e \<in> set entries" "is_vault e" for e
    using that vault by (metis in_set_conv_nth)
  ultimately show ?thesis using e(1) by blast
qed

text \<open>A payment from the demo key: one input of 9, one output of 5.\<close>

definition pay_tx :: Tx where
  "pay_tx = demo_tx\<lparr>outputs := [\<lparr>out_value = 5, out_covenant_type = COV_TYPE_P2PK,
      out_covenant_data = SUITE_ID_ML_DSA_87 # replicate 32 4\<rparr>],
    witness := [\<lparr>suite_id = SUITE_ID_ML_DSA_87, pubkey = replicate 2592 0,
      signature = (1 # replicate 4626 0) @ [SIGHASH_ALL]\<rparr>]\<rparr>"

definition pay_ctx :: UtxoApplyImplContext where
  "pay_ctx = apply_context pay_tx (replicate 32 1)
    [\<lparr>op_txid = replicate 32 5, op_vout = 0\<rparr> \<mapsto> demo_entry] 100 7 7 (replicate 32 0) None None"

lemma pay_p2pk:
  assumes "cache_ok demo_hash c" and "sc_tx c = pay_tx"
  shows "\<exists>c'. validate_p2pk_spend_q demo_ssl demo_hash demo_entry (witness pay_tx ! 0) 0 9 (replicate 32 0) 100 None None
    (c, None) = (Ok (), (c', None))"
proof -
  let ?w = "witness pay_tx ! 0"
  obtain r where r: "settles demo_hash pay_tx
      (validate_p2pk_spend_q demo_ssl demo_hash demo_entry ?w 0 9 (replicate 32 0) 100 None None) r"
      "r = Ok () \<longleftrightarrow> item_shape (native_spend_suites (rotation_or_default None) 100) (registry_or_default None) ?w \<and>
        len64 (ue_covenant_data demo_entry) = 33 \<and> ue_covenant_data demo_entry ! 0 = suite_id ?w \<and>
        slice (ue_covenant_data demo_entry) 1 33 = demo_hash (pubkey ?w) \<and>
        signs demo_ssl demo_hash pay_tx (registry_or_default None) 0 9 (replicate 32 0) ?w"
    using p2pk_settles by blast
  have len: "length (demo_hash x) = 32" for x by (simp add: demo_hash_def)
  obtain d where d: "sighash_spec demo_hash pay_tx 0 9 (replicate 32 0) SIGHASH_ALL = Ok d" "length d = 32"
    by (simp add: sighash_spec_def pay_tx_def demo_tx_def is_valid_sighash_type_def da_core_fields_bytes_def len)
  have "d \<noteq> []" using d(2) by auto
  then have "verify_sig_with_registry demo_ssl SUITE_ID_ML_DSA_87 (replicate 2592 0) (1 # replicate 4626 0) d
      (Some default_registry) = Ok True"
    by (simp add: verify_sig_with_registry_def runtime_suite_params_for_verification_def
        runtime_suite_params_for_verification_with_default_def runtime_verification_registry_with_default_def
        default_registry_lookup ml_dsa_87_params_def resolve_binding
        verify_sig_with_binding_def ensure_openssl_consensus_init_def openssl_consensus_bootstrap_def
        map_openssl_init_rc_def openssl_check_sigalg_def openssl_verify_sig_digest_oneshot_def
        map_digest_verify_rc_def demo_ssl_def const_defs)
  then have "signs demo_ssl demo_hash pay_tx (registry_or_default None) 0 9 (replicate 32 0) ?w"
    using d(1) by (simp add: signs_def pay_tx_def digest_with_type_spec registry_or_default_def is_valid_sighash_type_def)
  moreover have "item_shape (native_spend_suites (rotation_or_default None) 100) (registry_or_default None) ?w"
    by (simp add: item_shape_def pay_tx_def rotation_or_default_def registry_or_default_def default_rotation_spend
        default_registry_lookup ml_dsa_87_params_def const_defs)
  ultimately have "r = Ok ()"
    using r(2) by (simp add: demo_entry_def p2pk_covenant_data_for_pubkey_def len slice_def pay_tx_def)
  then show ?thesis using r(1) assms unfolding settles_def by blast
qed

lemma pay_fields:
  "tx_nonce pay_tx = 1" "tx_kind pay_tx = 0"
  "inputs pay_tx = [\<lparr>prev_txid = replicate 32 5, prev_vout = 0, script_sig = [], sequence = 0\<rparr>]"
  "outputs pay_tx = [\<lparr>out_value = 5, out_covenant_type = COV_TYPE_P2PK, out_covenant_data = SUITE_ID_ML_DSA_87 # replicate 32 4\<rparr>]"
  "length (witness pay_tx) = 1" "slice (witness pay_tx) 0 (Suc 0) = [witness pay_tx ! 0]"
  by (simp_all add: pay_tx_def demo_tx_def slice_def)

lemma pay_accepted: "\<exists>w sm q'. apply_impl demo_ssl demo_hash pay_ctx None = (Ok (w, sm), q')"
proof -
  obtain c where c: "SighashV1PrehashCache_new pay_tx = Ok c" by (simp add: SighashV1PrehashCache_new_def)
  have "cache_ok demo_hash c \<and> sc_tx c = pay_tx" using cache_ok_new [OF c] .
  then obtain c' where c': "validate_p2pk_spend_q demo_ssl demo_hash demo_entry (witness pay_tx ! 0) 0 9 (replicate 32 0) 100 None None
    (c, None) = (Ok (), (c', None))" using pay_p2pk by blast
  have e: "ue_covenant_type demo_entry = COV_TYPE_P2PK" "ue_value demo_entry = 9" "\<not> created_by_coinbase demo_entry"
    by (simp_all add: demo_entry_def)
  have g: "validate_tx_covenants_genesis pay_tx 100 None = Ok ()"
    by (simp add: validate_tx_covenants_genesis_def pay_fields genesis_output_step_def validate_p2pk_anchor_def
        validate_simplicity_output_group_cap_def DefaultRotationProvider_simps MAX_P2PK_COVENANT_DATA_def)
  show ?thesis
    using c c' g
    by (simp add: apply_impl_def pay_ctx_def apply_context_def validate_apply_inputs_def pay_fields UtxoApplyState_new_def
        apply_phases_def st_then_def st_bind_def resolve_inputs_def resolve_input_def signing_outpoint_def
        validate_non_coinbase_input_encoding_def Let_def e validate_input_availability_def st_lift_def
        validate_input_covenant_def check_spend_covenant_def record_resolved_input_def witness_slots_def
        validate_spends_def validate_spend_def validate_resolved_spend_def assigned_witness_def on_spend_def
        apply_p2pk_spend_def st_update_def add_input_value_def checked_add_def add_outputs_def add_output_def
        validate_vault_creation_def validate_vault_spend_def finish_def)
qed

lemma pay_ctx_fields:
  "cx_tx pay_ctx = pay_tx" "cx_utxo_set pay_ctx = [\<lparr>op_txid = replicate 32 5, op_vout = 0\<rparr> \<mapsto> demo_entry]"
  "cx_txid pay_ctx = replicate 32 1" "cx_height pay_ctx = 100"
  by (simp_all add: pay_ctx_def apply_context_def)

theorem accepted_tx_conserves_value_witness:
  "\<exists>w sm q'. apply_impl demo_ssl demo_hash pay_ctx None = (Ok (w, sm), q') \<and> unat (fee sm) = 4 \<and>
    w \<lparr>op_txid = replicate 32 5, op_vout = 0\<rparr> = None \<and>
    map_option ue_value (w \<lparr>op_txid = replicate 32 1, op_vout = 0\<rparr>) = Some 5"
proof -
  obtain w sm q' where a: "apply_impl demo_ssl demo_hash pay_ctx None = (Ok (w, sm), q')" using pay_accepted by blast
  have l: "length (outputs (cx_tx pay_ctx)) \<le> 2 ^ 32" by (simp add: pay_ctx_fields pay_fields)
  obtain entries where e: "map (\<lambda>i. cx_utxo_set pay_ctx (signing_outpoint i)) (inputs (cx_tx pay_ctx)) = map Some entries"
      "unat (fee sm) + (\<Sum>out\<leftarrow>outputs (cx_tx pay_ctx). unat (out_value out)) = (\<Sum>e\<leftarrow>entries. entry_value e)"
      "w = cx_utxo_set pay_ctx |` (- signing_outpoint ` set (inputs (cx_tx pay_ctx))) ++ created_from pay_ctx 0 (outputs (cx_tx pay_ctx))"
    using accepted_tx_conserves_value [OF a l] by blast
  have "entries = [demo_entry]" using e(1) by (auto simp: pay_ctx_fields pay_fields signing_outpoint_def)
  then have "unat (fee sm) = 4" using e(2) by (simp add: pay_ctx_fields pay_fields entry_value_def demo_entry_def)
  moreover have "w \<lparr>op_txid = replicate 32 5, op_vout = 0\<rparr> = None"
      "map_option ue_value (w \<lparr>op_txid = replicate 32 1, op_vout = 0\<rparr>) = Some 5"
    by (simp_all add: e(3) pay_ctx_fields pay_fields signing_outpoint_def created_from_def unspendable_type_def
        new_entry_def map_add_def Let_def)
  ultimately show ?thesis using a by blast
qed

theorem accepted_tx_is_authorised_witness:
  "opens demo_ssl demo_hash pay_ctx 0 demo_entry [witness pay_tx ! 0]"
proof -
  obtain w sm q' where a: "apply_impl demo_ssl demo_hash pay_ctx None = (Ok (w, sm), q')" using pay_accepted by blast
  have l: "length (outputs (cx_tx pay_ctx)) \<le> 2 ^ 32" by (simp add: pay_ctx_fields pay_fields)
  obtain entries where e: "map (\<lambda>i. cx_utxo_set pay_ctx (signing_outpoint i)) (inputs (cx_tx pay_ctx)) = map Some entries"
      "\<forall>j < length entries. opens demo_ssl demo_hash pay_ctx (of_nat j) (entries ! j)
      (slice (witness (cx_tx pay_ctx)) (fst (slot_ranges 0 entries ! j)) (snd (slot_ranges 0 entries ! j)))"
    using accepted_tx_is_authorised [OF a l] by blast
  have "entries = [demo_entry]" using e(1) by (auto simp: pay_ctx_fields pay_fields signing_outpoint_def)
  moreover have "ue_covenant_type demo_entry = COV_TYPE_P2PK" by (simp add: demo_entry_def)
  ultimately show ?thesis using e(2) by (simp add: pay_ctx_fields pay_fields witness_slots_def)
qed

end
