(* ===== verification/Weight.thy ===== *)
theory Weight
  imports Tx_Codec Suite_Registry
begin

text \<open>
  The weight of a transaction (\<^verbatim>\<open>block_basic/weight.rs\<close>): four times the size of its core,
  plus the size of its witness and payload sections, plus a cost for every signature
  to verify. The code adds sizes field by field in checked \<open>u64\<close> arithmetic; the lemmas
  show that the sums are the lengths of the serialised sections.
\<close>

section \<open>Sizes\<close>

definition weight_overflow :: TxError where
  "weight_overflow = TxError_new TxErrParse ''u64 overflow''"

definition weight_checked_add :: "u64 \<Rightarrow> u64 \<Rightarrow> u64 res" where
  "weight_checked_add a b = ok_or weight_overflow (checked_add a b)"

definition compact_size_len :: "u64 \<Rightarrow> u64" where
  "compact_size_len n =
    (if n \<le> 0xfc then 1 else if n \<le> 0xffff then 3 else if n \<le> 0xffffffff then 5 else 9)"

definition add_input_sizes :: "u64 \<Rightarrow> TxInput list \<Rightarrow> u64 res" where
  "add_input_sizes = try_fold (\<lambda>base_size i.
    and_then (weight_checked_add base_size (32 + 4)) (\<lambda>base_size.
    and_then (weight_checked_add base_size (compact_size_len (len64 (script_sig i)))) (\<lambda>base_size.
    and_then (weight_checked_add base_size (len64 (script_sig i))) (\<lambda>base_size.
    weight_checked_add base_size 4))))"

definition is_anchor_counted_output :: "TxOutput \<Rightarrow> bool" where
  "is_anchor_counted_output out \<longleftrightarrow>
    out_covenant_type out = COV_TYPE_ANCHOR \<or> out_covenant_type out = COV_TYPE_DA_COMMIT"

definition add_output_size :: "u64 \<times> u64 \<Rightarrow> TxOutput \<Rightarrow> (u64 \<times> u64) res" where
  "add_output_size = (\<lambda>(base_size, anchor_bytes) out.
    and_then (weight_checked_add base_size (8 + 2)) (\<lambda>base_size.
    let covenant_len = len64 (out_covenant_data out) in
    and_then (weight_checked_add base_size (compact_size_len covenant_len)) (\<lambda>base_size.
    and_then (weight_checked_add base_size covenant_len) (\<lambda>base_size.
    if is_anchor_counted_output out
    then and_then (weight_checked_add anchor_bytes covenant_len) (\<lambda>anchor_bytes. Ok (base_size, anchor_bytes))
    else Ok (base_size, anchor_bytes)))))"

definition add_output_sizes :: "u64 \<Rightarrow> TxOutput list \<Rightarrow> (u64 \<times> u64) res" where
  "add_output_sizes base_size = try_fold add_output_size (base_size, 0)"

definition tx_base_size :: "Tx \<Rightarrow> (u64 \<times> u64) res" where
  "tx_base_size tx =
    and_then (weight_checked_add (4 + 1 + 8) (compact_size_len (len64 (inputs tx)))) (\<lambda>base_size.
    and_then (add_input_sizes base_size (inputs tx)) (\<lambda>base_size.
    and_then (weight_checked_add base_size (compact_size_len (len64 (outputs tx)))) (\<lambda>base_size.
    and_then (add_output_sizes base_size (outputs tx)) (\<lambda>(base_size, anchor_bytes).
    and_then (weight_checked_add base_size 4) (\<lambda>base_size.
    and_then (da_core_fields_bytes tx) (\<lambda>core.
    and_then (weight_checked_add base_size (len64 core)) (\<lambda>base_size.
    Ok (base_size, anchor_bytes))))))))"

definition add_witness_item_size :: "u64 \<Rightarrow> WitnessItem \<Rightarrow> u64 res" where
  "add_witness_item_size witness_size w =
    and_then (weight_checked_add witness_size 1) (\<lambda>witness_size.
    and_then (weight_checked_add witness_size (compact_size_len (len64 (pubkey w)))) (\<lambda>witness_size.
    and_then (weight_checked_add witness_size (len64 (pubkey w))) (\<lambda>witness_size.
    and_then (weight_checked_add witness_size (compact_size_len (len64 (signature w)))) (\<lambda>witness_size.
    weight_checked_add witness_size (len64 (signature w))))))"

definition add_witness_cost :: "(WitnessItem \<Rightarrow> u64 res) \<Rightarrow> u64 \<times> u64 \<Rightarrow> WitnessItem \<Rightarrow> (u64 \<times> u64) res" where
  "add_witness_cost sig_cost_fn = (\<lambda>(witness_size, sig_cost) w.
    and_then (add_witness_item_size witness_size w) (\<lambda>witness_size.
    and_then (sig_cost_fn w) (\<lambda>cost.
    and_then (weight_checked_add sig_cost cost) (\<lambda>sig_cost.
    Ok (witness_size, sig_cost)))))"

definition tx_witness_size_and_sig_cost :: "Tx \<Rightarrow> (WitnessItem \<Rightarrow> u64 res) \<Rightarrow> (u64 \<times> u64) res" where
  "tx_witness_size_and_sig_cost tx sig_cost_fn =
    try_fold (add_witness_cost sig_cost_fn) (compact_size_len (len64 (witness tx)), 0) (witness tx)"

definition tx_da_size_and_bytes :: "Tx \<Rightarrow> (u64 \<times> u64) res" where
  "tx_da_size_and_bytes tx =
    (let da_len = len64 (da_payload tx) in
     and_then (weight_checked_add (compact_size_len da_len) da_len) (\<lambda>da_size.
     Ok (da_size, if tx_kind tx \<noteq> 0x00 then da_len else 0)))"

definition tx_weight :: "u64 \<Rightarrow> u64 \<Rightarrow> u64 \<Rightarrow> u64 \<Rightarrow> u64 res" where
  "tx_weight base_size witness_size da_size sig_cost =
    and_then (ok_or weight_overflow (checked_mul WITNESS_DISCOUNT_DIVISOR base_size)) (\<lambda>base_weight.
    and_then (weight_checked_add base_weight witness_size) (\<lambda>weight.
    and_then (weight_checked_add weight da_size) (\<lambda>weight.
    weight_checked_add weight sig_cost)))"

definition tx_weight_components :: "Tx \<Rightarrow> (WitnessItem \<Rightarrow> u64 res) \<Rightarrow> (u64 \<times> u64 \<times> u64) res" where
  "tx_weight_components tx sig_cost_fn =
    and_then (tx_base_size tx) (\<lambda>(base_size, anchor_bytes).
    and_then (tx_witness_size_and_sig_cost tx sig_cost_fn) (\<lambda>(witness_size, sig_cost).
    and_then (tx_da_size_and_bytes tx) (\<lambda>(da_size, da_bytes).
    and_then (tx_weight base_size witness_size da_size sig_cost) (\<lambda>weight.
    Ok (weight, da_bytes, anchor_bytes)))))"

section \<open>Costs\<close>

definition has_expected_mldsa87_shape :: "WitnessItem \<Rightarrow> bool" where
  "has_expected_mldsa87_shape w \<longleftrightarrow>
    len64 (pubkey w) = ML_DSA_87_PUBKEY_BYTES \<and> len64 (signature w) = ML_DSA_87_SIG_BYTES + 1"

definition legacy_sig_cost :: "WitnessItem \<Rightarrow> u64 res" where
  "legacy_sig_cost w = Ok
    (if suite_id w = SUITE_ID_SENTINEL then 0
     else if suite_id w = SUITE_ID_SIMPLICITY_ENVELOPE then SIMPLICITY_BASE_VERIFY_COST
     else if suite_id w = SUITE_ID_ML_DSA_87 \<and> has_expected_mldsa87_shape w then VERIFY_COST_ML_DSA_87
     else if suite_id w = SUITE_ID_ML_DSA_87 then 0
     else VERIFY_COST_UNKNOWN_SUITE)"

definition tx_weight_and_stats :: "Tx \<Rightarrow> (u64 \<times> u64 \<times> u64) res" where
  "tx_weight_and_stats tx = tx_weight_components tx legacy_sig_cost"

definition registry_sig_cost :: "WitnessItem \<Rightarrow> NativeSuiteSet \<Rightarrow> SuiteRegistry \<Rightarrow> u64 res" where
  "registry_sig_cost w native_spend registry =
    (if suite_id w = SUITE_ID_SENTINEL then Ok 0
     else if suite_id w = SUITE_ID_SIMPLICITY_ENVELOPE then Ok SIMPLICITY_BASE_VERIFY_COST
     else if suite_id w \<notin> native_spend then Ok VERIFY_COST_UNKNOWN_SUITE
     else case registry_lookup registry (suite_id w) of
       None \<Rightarrow> Ok VERIFY_COST_UNKNOWN_SUITE
     | Some params \<Rightarrow>
       if len64 (pubkey w) = pubkey_len params \<and> len64 (signature w) = sig_len params + 1
       then Ok (verify_cost params) else Ok 0)"

definition tx_weight_and_stats_at_height ::
  "Tx \<Rightarrow> u64 \<Rightarrow> RotationProvider option \<Rightarrow> SuiteRegistry option \<Rightarrow> (u64 \<times> u64 \<times> u64) res" where
  "tx_weight_and_stats_at_height tx height rotation registry = (case (rotation, registry) of
     (Some rp, Some reg) \<Rightarrow>
       tx_weight_components tx (\<lambda>w. registry_sig_cost w (native_spend_suites rp height) reg)
   | _ \<Rightarrow> tx_weight_and_stats tx)"

section \<open>The sums are lengths\<close>

lemma weight_add_of_nat:
  "m + n < 2 ^ 64 \<Longrightarrow> weight_checked_add (of_nat m) (of_nat n) = Ok (of_nat (m + n))"
  by (simp add: weight_checked_add_def checked_add_def unat_of_nat)

lemma weight_add_numeral:
  "m + numeral k < 2 ^ 64 \<Longrightarrow> weight_checked_add (of_nat m) (numeral k) = Ok (of_nat (m + numeral k))"
  "m + 1 < 2 ^ 64 \<Longrightarrow> weight_checked_add (of_nat m) 1 = Ok (of_nat (m + 1))"
  using weight_add_of_nat [of m "numeral k"] weight_add_of_nat [of m 1] by simp_all

lemma compact_size_len_eq: "compact_size_len v = of_nat (length (encode_compact_size v))"
  by (simp add: compact_size_len_def length_encode_compact_size word_le_nat_alt)

lemmas weight_adds = weight_add_of_nat weight_add_numeral compact_size_len_eq

lemma add_input_sizes_eq:
  assumes "list_all (\<lambda>i. length (prev_txid i) = 32) ins"
    and "m + length (concat (map marshal_input ins)) < 2 ^ 64"
  shows "add_input_sizes (of_nat m) ins = Ok (of_nat (m + length (concat (map marshal_input ins))))"
  using assms
proof (induction ins arbitrary: m)
  case Nil
  then show ?case by (simp add: add_input_sizes_def)
next
  case (Cons i ins)
  let ?n = "m + length (marshal_input i)"
  have b: "m + 36 + length (encode_compact_size (len64 (script_sig i))) + length (script_sig i) + 4 = ?n"
    using Cons.prems(1) by (simp add: marshal_input_def)
  have "?n < 2 ^ 64" "add_input_sizes (of_nat ?n) ins = Ok (of_nat (?n + length (concat (map marshal_input ins))))"
    using Cons.IH [of ?n] Cons.prems by (simp_all del: of_nat_add)
  then show ?case using b [symmetric] by (simp add: add_input_sizes_def weight_adds add.assoc del: of_nat_add)
qed

definition anchor_bytes_of :: "TxOutput list \<Rightarrow> nat" where
  "anchor_bytes_of outs = (\<Sum>out\<leftarrow>filter is_anchor_counted_output outs. length (out_covenant_data out))"

lemma anchor_bytes_le: "anchor_bytes_of outs \<le> length (concat (map marshal_output outs))"
  by (induction outs) (auto simp: anchor_bytes_of_def marshal_output_def)

lemma add_output_sizes_eq:
  assumes "m + length (concat (map marshal_output outs)) < 2 ^ 64"
  shows "add_output_sizes (of_nat m) outs =
    Ok (of_nat (m + length (concat (map marshal_output outs))), of_nat (anchor_bytes_of outs))"
proof -
  have "try_fold add_output_size (of_nat m, of_nat a) outs =
      Ok (of_nat (m + length (concat (map marshal_output outs))), of_nat (a + anchor_bytes_of outs))"
    if "m + length (concat (map marshal_output outs)) < 2 ^ 64" and "a \<le> m" for m a
    using that
  proof (induction outs arbitrary: m a)
    case Nil
    then show ?case by (simp add: anchor_bytes_of_def)
  next
    case (Cons out outs)
    let ?n = "m + length (marshal_output out)"
      and ?a = "a + (if is_anchor_counted_output out then length (out_covenant_data out) else 0)"
    have b: "m + 10 + length (encode_compact_size (len64 (out_covenant_data out))) + length (out_covenant_data out) = ?n"
      by (simp add: marshal_output_def)
    have s: "add_output_size (of_nat m, of_nat a) out = Ok (of_nat ?n, of_nat ?a)"
      using Cons.prems b [symmetric] by (simp add: add_output_size_def weight_adds Let_def add.assoc del: of_nat_add)
    have "?a \<le> ?n" using Cons.prems(2) by (simp add: marshal_output_def)
    then have "try_fold add_output_size (of_nat ?n, of_nat ?a) outs =
      Ok (of_nat (?n + length (concat (map marshal_output outs))), of_nat (?a + anchor_bytes_of outs))"
      using Cons.IH [of ?n ?a] Cons.prems(1) by (simp del: of_nat_add)
    then show ?case using s by (auto simp: anchor_bytes_of_def add.assoc simp del: of_nat_add)
  qed
  from this [of m 0] show ?thesis using assms by (simp add: add_output_sizes_def)
qed

lemma tx_base_size_eq:
  assumes "wf_core tx"
  shows "tx_base_size tx = Ok (of_nat (length (marshal_core tx)), of_nat (anchor_bytes_of (outputs tx)))"
proof -
  have b: "length (marshal_core tx) < 2 ^ 64" using marshal_core_bound [OF assms] by simp
  obtain core where core: "da_core_fields_bytes tx = Ok core"
      "marshal_core tx = to_le32 (version tx) @ [tx_kind tx] @ to_le64 (tx_nonce tx) @
       encode_compact_size (len64 (inputs tx)) @ concat (map marshal_input (inputs tx)) @
       encode_compact_size (len64 (outputs tx)) @ concat (map marshal_output (outputs tx)) @
       to_le32 (locktime tx) @ core"
    using assms by (auto simp: wf_core_def da_core_fields_bytes_def marshal_core_def)
  let ?a = "13 + length (encode_compact_size (len64 (inputs tx)))"
  let ?b = "?a + length (concat (map marshal_input (inputs tx)))"
  let ?c = "?b + length (encode_compact_size (len64 (outputs tx)))"
  let ?d = "?c + length (concat (map marshal_output (outputs tx)))"
  have e: "?d + 4 + length core = length (marshal_core tx)" unfolding core(2) by simp
  have "list_all (\<lambda>i. length (prev_txid i) = 32) (inputs tx)"
    using assms by (auto simp: wf_core_def wf_input_def list_all_iff)
  moreover have "weight_checked_add 13 (compact_size_len (len64 (inputs tx))) = Ok (of_nat ?a)"
    using e b weight_add_of_nat [of 13 "length (encode_compact_size (len64 (inputs tx)))"]
    by (simp add: compact_size_len_eq)
  moreover have "?b < 2 ^ 64" "?c < 2 ^ 64" "?d < 2 ^ 64" "?d + 4 < 2 ^ 64" using e b by linarith+
  ultimately show ?thesis
    using e b core(1)
    by (simp add: tx_base_size_def add_input_sizes_eq add_output_sizes_eq weight_adds del: of_nat_add length_concat)
qed

lemma add_witness_item_size_eq:
  assumes "m + length (marshal_witness_item w) < 2 ^ 64"
  shows "add_witness_item_size (of_nat m) w = Ok (of_nat (m + length (marshal_witness_item w)))"
proof -
  have "m + 1 + length (encode_compact_size (len64 (pubkey w))) + length (pubkey w) +
      length (encode_compact_size (len64 (signature w))) + length (signature w) = m + length (marshal_witness_item w)"
    by (simp add: marshal_witness_item_def)
  from this [symmetric] assms show ?thesis
    by (simp add: add_witness_item_size_def weight_adds add.assoc del: of_nat_add of_nat_Suc)
qed

text \<open>A cost function that never fails, and its sum over the witness.\<close>

lemma witness_size_eq:
  assumes "\<And>w. sig_cost_fn w = Ok (cost w)"
    and "length (encode_compact_size (len64 (witness tx))) + length (concat (map marshal_witness_item (witness tx))) < 2 ^ 64"
    and "(\<Sum>w\<leftarrow>witness tx. unat (cost w)) < 2 ^ 64"
  shows "tx_witness_size_and_sig_cost tx sig_cost_fn = Ok
    (of_nat (length (encode_compact_size (len64 (witness tx))) + length (concat (map marshal_witness_item (witness tx)))),
     of_nat (\<Sum>w\<leftarrow>witness tx. unat (cost w)))"
proof -
  have "try_fold (add_witness_cost sig_cost_fn) (of_nat m, of_nat k) ws =
      Ok (of_nat (m + length (concat (map marshal_witness_item ws))), of_nat (k + (\<Sum>w\<leftarrow>ws. unat (cost w))))"
    if "m + length (concat (map marshal_witness_item ws)) < 2 ^ 64" and "k + (\<Sum>w\<leftarrow>ws. unat (cost w)) < 2 ^ 64" for m k ws
    using that
  proof (induction ws arbitrary: m k)
    case Nil
    then show ?case by simp
  next
    case (Cons w ws)
    let ?n = "m + length (marshal_witness_item w)" and ?k = "k + unat (cost w)"
    have "weight_checked_add (of_nat k) (cost w) = Ok (of_nat ?k)"
      using weight_add_of_nat [of k "unat (cost w)"] Cons.prems(2) by simp
    then have "add_witness_cost sig_cost_fn (of_nat m, of_nat k) w = Ok (of_nat ?n, of_nat ?k)"
      using Cons.prems(1) by (simp add: add_witness_cost_def add_witness_item_size_eq assms(1) del: of_nat_add)
    moreover have "try_fold (add_witness_cost sig_cost_fn) (of_nat ?n, of_nat ?k) ws =
      Ok (of_nat (?n + length (concat (map marshal_witness_item ws))), of_nat (?k + (\<Sum>w\<leftarrow>ws. unat (cost w))))"
      by (rule Cons.IH) (use Cons.prems in simp_all)
    ultimately show ?case by (simp add: add.assoc del: of_nat_add)
  qed
  from this [of _ "witness tx" 0] show ?thesis
    using assms(2,3) by (simp add: tx_witness_size_and_sig_cost_def compact_size_len_eq del: of_nat_add)
qed

definition da_bytes_of :: "Tx \<Rightarrow> nat" where
  "da_bytes_of tx = (if tx_kind tx \<noteq> 0 then length (da_payload tx) else 0)"

lemma tx_weight_of_nat:
  assumes "4 * b + w + d + c < 2 ^ 64"
  shows "tx_weight (of_nat b) (of_nat w) (of_nat d) (of_nat c) = Ok (of_nat (4 * b + w + d + c))"
proof -
  have "checked_mul WITNESS_DISCOUNT_DIVISOR (of_nat b) = Some (of_nat (4 * b))"
    using assms by (simp add: checked_mul_def unat_of_nat WITNESS_DISCOUNT_DIVISOR_def)
  then show ?thesis using assms by (simp add: tx_weight_def weight_adds del: of_nat_add of_nat_mult)
qed

lemma tx_weight_components_eq:
  assumes "wf_tx tx" and "\<And>w. sig_cost_fn w = Ok (cost w)"
    and "(\<Sum>w\<leftarrow>witness tx. unat (cost w)) < 2 ^ 63"
  shows "tx_weight_components tx sig_cost_fn = Ok
    (of_nat (4 * length (marshal_core tx) + length (marshal_tail tx) + (\<Sum>w\<leftarrow>witness tx. unat (cost w))),
     of_nat (da_bytes_of tx), of_nat (anchor_bytes_of (outputs tx)))"
proof -
  let ?w = "length (encode_compact_size (len64 (witness tx))) + length (concat (map marshal_witness_item (witness tx)))"
    and ?d = "length (encode_compact_size (len64 (da_payload tx))) + length (da_payload tx)"
    and ?c = "\<Sum>w\<leftarrow>witness tx. unat (cost w)" and ?b = "length (marshal_core tx)"
  have core: "wf_core tx" using assms(1) by (simp add: wf_tx_def)
  have t: "?w + ?d = length (marshal_tail tx)" by (simp add: marshal_tail_def)
  have b: "?b \<le> 70000000" "?w + ?d \<le> 700000" unfolding t
    by (rule marshal_core_bound [OF core], rule marshal_tail_bound [OF assms(1)])
  have "tx_witness_size_and_sig_cost tx sig_cost_fn = Ok (of_nat ?w, of_nat ?c)"
    by (rule witness_size_eq) (use assms(2,3) b in \<open>simp_all del: length_concat\<close>)
  moreover have "tx_da_size_and_bytes tx = Ok (of_nat ?d, of_nat (da_bytes_of tx))"
    using b by (simp add: tx_da_size_and_bytes_def da_bytes_of_def Let_def weight_adds del: of_nat_add)
  moreover have "tx_weight (of_nat ?b) (of_nat ?w) (of_nat ?d) (of_nat ?c) = Ok (of_nat (4 * ?b + ?w + ?d + ?c))"
    by (rule tx_weight_of_nat) (use b assms(3) in \<open>simp del: length_concat\<close>)
  moreover have "4 * ?b + ?w + ?d + ?c = 4 * ?b + length (marshal_tail tx) + ?c" using t by linarith
  ultimately show ?thesis
    using tx_base_size_eq [OF core] by (simp add: tx_weight_components_def del: of_nat_add of_nat_mult length_concat)
qed

definition legacy_cost :: "WitnessItem \<Rightarrow> nat" where
  "legacy_cost w =
    (if suite_id w = 0 then 0 else if suite_id w = 1 \<and> \<not> has_expected_mldsa87_shape w then 0
     else if suite_id w = 1 then 8 else 64)"

lemma legacy_sig_cost_unat: "\<exists>c. legacy_sig_cost w = Ok c \<and> unat c = legacy_cost w"
  by (simp add: legacy_sig_cost_def legacy_cost_def const_defs)

lemma legacy_cost_bound:
  assumes "wf_tx tx"
  shows "(\<Sum>w\<leftarrow>witness tx. legacy_cost w) \<le> 65536"
proof -
  have "(\<Sum>w\<leftarrow>witness tx. legacy_cost w) \<le> (\<Sum>w\<leftarrow>witness tx. 64)"
    by (rule sum_list_mono) (simp add: legacy_cost_def)
  then show ?thesis using assms by (simp add: wf_tx_def wf_witnesses_def sum_list_triv)
qed

lemma tx_weight_and_stats_eq:
  assumes "wf_tx tx"
  shows "tx_weight_and_stats tx = Ok
    (of_nat (4 * length (marshal_core tx) + length (marshal_tail tx) + (\<Sum>w\<leftarrow>witness tx. legacy_cost w)),
     of_nat (da_bytes_of tx), of_nat (anchor_bytes_of (outputs tx)))"
proof -
  define cost where "cost w = (case legacy_sig_cost w of Inr c \<Rightarrow> c | Inl _ \<Rightarrow> 0)" for w
  have c: "legacy_sig_cost w = Ok (cost w)" "unat (cost w) = legacy_cost w" for w
    using legacy_sig_cost_unat [of w] by (auto simp: cost_def)
  have "(\<Sum>w\<leftarrow>witness tx. unat (cost w)) = (\<Sum>w\<leftarrow>witness tx. legacy_cost w)" by (simp add: c(2))
  moreover note legacy_cost_bound [OF assms]
  ultimately show ?thesis
    using tx_weight_components_eq [of tx legacy_sig_cost cost, OF assms c(1)]
    by (simp add: tx_weight_and_stats_def del: of_nat_add of_nat_mult)
qed

lemma witness_item_bound:
  assumes "wf_tx tx" and "w \<in> set (witness tx)"
  shows "length (marshal_witness_item w) \<le> 100000"
proof -
  have "length (marshal_witness_item w) \<le> sum_list (map (length \<circ> marshal_witness_item) (witness tx))"
    using assms(2) by (intro elem_le_sum_list member_le_sum_list) auto
  moreover have "length (concat (map marshal_witness_item (witness tx))) \<le> 100000"
    using assms by (auto simp: wf_tx_def wf_witnesses_def)
  ultimately show ?thesis by (simp add: length_concat)
qed

text \<open>
  C40: the weight of a transaction that the parser accepts is computed without overflow
  and is exactly three times the offset where its core ends plus the length of
  the whole encoding plus the verification cost of every witness item: 0 for a
  placeholder or an ML-DSA item of the wrong shape, 8 for an ML-DSA item of the right
  shape, 64 for any other suite. Its payload and anchor bytes are counted as they are.
\<close>

theorem tx_weight_is_encoded_size:
  assumes "parse_tx_without_hashes b = Ok (tx, core_end, total_end)"
  shows "\<exists>weight da anchor. tx_weight_and_stats tx = Ok (weight, da, anchor) \<and>
    unat weight = 3 * core_end + total_end + (\<Sum>w\<leftarrow>witness tx.
      if suite_id w = 0 \<or> suite_id w = 1 \<and> (length (pubkey w) \<noteq> 2592 \<or> length (signature w) \<noteq> 4628) then 0
      else if suite_id w = 1 then 8 else 64) \<and>
    unat da = (if tx_kind tx = 0 then 0 else length (da_payload tx)) \<and>
    unat anchor = (\<Sum>out\<leftarrow>filter is_anchor_counted_output (outputs tx). length (out_covenant_data out))"
proof -
  have w: "wf_tx tx" "core_end = length (marshal_core tx)" "total_end = length (marshal_core tx @ marshal_tail tx)"
    using assms by (auto simp: parse_tx_without_hashes_iff)
  have cost: "map legacy_cost (witness tx) = map (\<lambda>w.
      if suite_id w = 0 \<or> suite_id w = 1 \<and> (length (pubkey w) \<noteq> 2592 \<or> length (signature w) \<noteq> 4628) then 0
      else if suite_id w = 1 then 8 else 64) (witness tx)"
  proof (rule map_cong [OF refl])
    fix w assume "w \<in> set (witness tx)"
    then have "length (pubkey w) < 2 ^ 64" "length (signature w) < 2 ^ 64"
      using witness_item_bound [OF w(1)] by (fastforce simp: marshal_witness_item_def)+
    then show "legacy_cost w = (if suite_id w = 0 \<or> suite_id w = 1 \<and> (length (pubkey w) \<noteq> 2592 \<or> length (signature w) \<noteq> 4628) then 0
      else if suite_id w = 1 then 8 else 64)"
      by (auto simp: legacy_cost_def has_expected_mldsa87_shape_def const_defs word_unat_eq_iff unat_of_nat)
  qed
  have core: "wf_core tx" using w(1) by (simp add: wf_tx_def)
  have "(\<Sum>x\<leftarrow>witness tx. legacy_cost x) \<le> 65536" by (rule legacy_cost_bound [OF w(1)])
  then have u: "4 * length (marshal_core tx) + length (marshal_tail tx) + (\<Sum>x\<leftarrow>witness tx. legacy_cost x) < 2 ^ 64"
    using marshal_core_bound [OF core] marshal_tail_bound [OF w(1)] by simp
  have "anchor_bytes_of (outputs tx) \<le> length (marshal_core tx)"
    using anchor_bytes_le [of "outputs tx"] by (simp add: marshal_core_def)
  then have a: "anchor_bytes_of (outputs tx) < 2 ^ 64" using marshal_core_bound [OF core] by simp
  have "da_bytes_of tx \<le> length (marshal_tail tx)" by (simp add: da_bytes_of_def marshal_tail_def)
  then have d: "da_bytes_of tx < 2 ^ 64" using marshal_tail_bound [OF w(1)] by simp
  show ?thesis
    unfolding tx_weight_and_stats_eq [OF w(1)] cost [symmetric]
    by (intro exI conjI, rule refl)
      (use u a d w(2,3) in \<open>simp_all add: unat_of_nat da_bytes_of_def anchor_bytes_of_def del: of_nat_add of_nat_mult\<close>)
qed

theorem tx_weight_is_encoded_size_witness:
  "\<exists>tx weight. parse_tx_without_hashes [1, 0, 0, 0, 0, 7, 0, 0, 0, 0, 0, 0, 0, 0, 0, 0, 0, 0, 0, 1, 0, 0, 0, 0] = Ok (tx, 19, 24) \<and>
    tx_weight_and_stats tx = Ok (weight, 0, 0) \<and> unat weight = 81"
proof -
  let ?t = "\<lparr>version = 1, tx_kind = 0, tx_nonce = 7, inputs = [], outputs = [], locktime = 0,
      da_commit_core = None, da_chunk_core = None, witness = [\<lparr>suite_id = 0, pubkey = [], signature = []\<rparr>], da_payload = []\<rparr>"
  have "wf_tx ?t"
    by (simp add: wf_tx_def wf_core_def wf_payload_def wf_witnesses_def wf_witness_item_def SUITE_ID_SENTINEL_def
        sentinel_shape_def marshal_witness_item_def encode_compact_size_def)
  moreover have "marshal_core ?t = [1, 0, 0, 0, 0, 7, 0, 0, 0, 0, 0, 0, 0, 0, 0, 0, 0, 0, 0]" "marshal_tail ?t = [1, 0, 0, 0, 0]"
    by (simp_all add: marshal_core_def marshal_tail_def to_le32_def to_le64_def nat_le_numeral encode_compact_size_def
        marshal_witness_item_def)
  ultimately have p: "parse_tx_without_hashes [1, 0, 0, 0, 0, 7, 0, 0, 0, 0, 0, 0, 0, 0, 0, 0, 0, 0, 0, 1, 0, 0, 0, 0] = Ok (?t, 19, 24)"
    using wf_tx_length [of ?t] by (simp add: parse_tx_without_hashes_iff)
  show ?thesis
    using p tx_weight_is_encoded_size [OF p] by (auto simp: word_unat_eq_iff)
qed

end
