(* ===== verification/Da_Set.thy ===== *)
theory Da_Set
  imports Tx_Codec BTree_Map
begin

text \<open>
  Data-availability sets of a block (\<^verbatim>\<open>block_basic/da_set.rs\<close>). A commit transaction
  announces a number of chunks under an identifier; the chunk transactions of the
  block carry them. The code collects both into ordered maps and then checks
  the maps; the reference \<open>da_sets_complete\<close> speaks about the list of transactions.
\<close>

section \<open>Collecting\<close>

record DaCommitSet =
  ds_tx :: Tx
  ds_chunk_count :: u16

type_synonym DaCommitMap = "(bytes32, DaCommitSet) btree_map"
type_synonym DaChunkMap = "(bytes32, (u16, Tx) btree_map) btree_map"

record DaSetStructure =
  da_commits :: DaCommitMap
  da_chunks :: DaChunkMap
  duplicate_commit_ids :: "bytes32 set"
  duplicate_chunk_indexes :: "(bytes32, u16 set) btree_map"

definition DaSetStructure_default :: DaSetStructure where
  "DaSetStructure_default =
    \<lparr>da_commits = [], da_chunks = [], duplicate_commit_ids = {}, duplicate_chunk_indexes = []\<rparr>"

definition da_parse_error :: "string \<Rightarrow> TxError" where
  "da_parse_error msg = TxError_new TxErrParse msg"

definition da_incomplete :: "string \<Rightarrow> TxError" where
  "da_incomplete msg = TxError_new BlockErrDaIncomplete msg"

definition validate_da_chunk_hashes :: "(bytes \<Rightarrow> bytes32) \<Rightarrow> Tx list \<Rightarrow> unit res" where
  "validate_da_chunk_hashes H = try_for_each (\<lambda>tx.
    if tx_kind tx \<noteq> 0x02 then Ok ()
    else and_then (ok_or (da_parse_error ''missing da_chunk_core for tx_kind=0x02'') (da_chunk_core tx)) (\<lambda>core.
    if H (da_payload tx) \<noteq> chunk_hash core then Err BlockErrDaChunkHashInvalid ''chunk_hash mismatch'' else Ok ()))"

text \<open>\<open>or_default\<close> of an entry of a map of collections.\<close>

definition get_or_default :: "'v \<Rightarrow> ('k, 'v) btree_map \<Rightarrow> 'k \<Rightarrow> 'v" where
  "get_or_default d m k = (case bt_get m k of Some v \<Rightarrow> v | None \<Rightarrow> d)"

definition add_da_commit :: "DaSetStructure \<Rightarrow> Tx \<Rightarrow> DaSetStructure res" where
  "add_da_commit sets tx = (case da_commit_core tx of
     None \<Rightarrow> Inl (da_parse_error ''missing da_commit_core for tx_kind=0x01'')
   | Some core \<Rightarrow> (case bt_get (da_commits sets) (dc_da_id core) of
       None \<Rightarrow> Ok (sets\<lparr>da_commits := bt_insert (dc_da_id core) \<lparr>ds_tx = tx, ds_chunk_count = chunk_count core\<rparr> (da_commits sets)\<rparr>)
     | Some _ \<Rightarrow> Ok (sets\<lparr>duplicate_commit_ids := insert (dc_da_id core) (duplicate_commit_ids sets)\<rparr>)))"

definition add_da_chunk :: "DaSetStructure \<Rightarrow> Tx \<Rightarrow> DaSetStructure res" where
  "add_da_chunk sets tx = (case da_chunk_core tx of
     None \<Rightarrow> Inl (da_parse_error ''missing da_chunk_core for tx_kind=0x02'')
   | Some core \<Rightarrow>
     let set_of_id = get_or_default [] (da_chunks sets) (dk_da_id core) in
     (case bt_get set_of_id (chunk_index core) of
       None \<Rightarrow> Ok (sets\<lparr>da_chunks := bt_insert (dk_da_id core) (bt_insert (chunk_index core) tx set_of_id) (da_chunks sets)\<rparr>)
     | Some _ \<Rightarrow> Ok (sets\<lparr>duplicate_chunk_indexes := bt_insert (dk_da_id core)
         (insert (chunk_index core) (get_or_default {} (duplicate_chunk_indexes sets) (dk_da_id core)))
         (duplicate_chunk_indexes sets)\<rparr>)))"

definition add_da_tx :: "DaSetStructure \<Rightarrow> Tx \<Rightarrow> DaSetStructure res" where
  "add_da_tx sets tx =
    (if tx_kind tx = 0x01 then add_da_commit sets tx
     else if tx_kind tx = 0x02 then add_da_chunk sets tx
     else Ok sets)"

definition collect_da_commits_and_chunks :: "Tx list \<Rightarrow> DaSetStructure res" where
  "collect_da_commits_and_chunks = try_fold add_da_tx DaSetStructure_default"

section \<open>Checking\<close>

definition da_commit_for_id :: "DaCommitMap \<Rightarrow> bytes32 \<Rightarrow> DaCommitSet res" where
  "da_commit_for_id commits da_id =
    ok_or (TxError_new BlockErrDaSetInvalid ''missing DA commit for da_id'') (bt_get commits da_id)"

definition da_chunk_set_for_id :: "DaChunkMap \<Rightarrow> bytes32 \<Rightarrow> (u16, Tx) btree_map res" where
  "da_chunk_set_for_id chunks da_id = ok_or (da_incomplete ''DA commit without chunks'') (bt_get chunks da_id)"

definition da_chunk_tx_for_index :: "(u16, Tx) btree_map \<Rightarrow> u16 \<Rightarrow> Tx res" where
  "da_chunk_tx_for_index m i = ok_or (da_incomplete ''missing DA chunk index'') (bt_get m i)"

definition chunk_range :: "u16 \<Rightarrow> u16 list" where
  "chunk_range n = map of_nat [0..<unat n]"

definition validate_da_duplicate_commits :: "bytes32 set \<Rightarrow> unit res" where
  "validate_da_duplicate_commits ids =
    (if ids \<noteq> {} then Err BlockErrDaSetInvalid ''duplicate DA commit for da_id'' else Ok ())"

definition validate_da_duplicate_chunk_indexes :: "(bytes32, u16 set) btree_map \<Rightarrow> bytes32 \<Rightarrow> unit res" where
  "validate_da_duplicate_chunk_indexes dups da_id = (case bt_get dups da_id of
     Some indexes \<Rightarrow> if indexes \<noteq> {} then Inl (da_incomplete ''duplicate DA chunk index'') else Ok ()
   | None \<Rightarrow> Ok ())"

definition validate_da_chunk_set_completeness :: "DaChunkMap \<Rightarrow> bytes32 \<Rightarrow> u16 \<Rightarrow> unit res" where
  "validate_da_chunk_set_completeness chunks da_id n =
    (if (case bt_get chunks da_id of None \<Rightarrow> 0 | Some m \<Rightarrow> length m) \<noteq> unat n
     then Inl (da_incomplete ''DA chunk count mismatch'') else Ok ())"

definition validate_da_chunk_indexes :: "(u16, Tx) btree_map \<Rightarrow> u16 \<Rightarrow> unit res" where
  "validate_da_chunk_indexes m n =
    try_for_each (\<lambda>i. and_then (da_chunk_tx_for_index m i) (\<lambda>_. Ok ())) (chunk_range n)"

definition validate_da_set_completeness :: "DaSetStructure \<Rightarrow> unit res" where
  "validate_da_set_completeness sets = try_for_each (\<lambda>(da_id, commit).
    and_then (validate_da_duplicate_chunk_indexes (duplicate_chunk_indexes sets) da_id) (\<lambda>_.
    and_then (validate_da_chunk_set_completeness (da_chunks sets) da_id (ds_chunk_count commit)) (\<lambda>_.
    and_then (da_chunk_set_for_id (da_chunks sets) da_id) (\<lambda>m.
    validate_da_chunk_indexes m (ds_chunk_count commit))))) (da_commits sets)"

definition validate_da_batch_count :: "DaCommitMap \<Rightarrow> unit res" where
  "validate_da_batch_count commits =
    (if length commits > unat MAX_DA_BATCHES_PER_BLOCK
     then Err BlockErrDaBatchExceeded ''too many DA commits in block'' else Ok ())"

definition validate_da_chunk_orphans :: "DaCommitMap \<Rightarrow> DaChunkMap \<Rightarrow> unit res" where
  "validate_da_chunk_orphans commits chunks = try_for_each (\<lambda>(da_id, _).
    if bt_get commits da_id = None then Err BlockErrDaSetInvalid ''DA chunks without DA commit'' else Ok ()) chunks"

definition validate_da_chunk_count :: "u16 \<Rightarrow> unit res" where
  "validate_da_chunk_count n =
    (if n = 0 \<or> ucast n > MAX_DA_CHUNK_COUNT
     then Err TxErrParse ''chunk_count out of range for tx_kind=0x01'' else Ok ())"

definition validate_da_chunk_count_bounds :: "DaCommitMap \<Rightarrow> unit res" where
  "validate_da_chunk_count_bounds =
    try_for_each (\<lambda>(_, commit). validate_da_chunk_count (ds_chunk_count commit))"

definition validate_da_set_structure :: "DaSetStructure \<Rightarrow> unit res" where
  "validate_da_set_structure sets =
    and_then (validate_da_chunk_orphans (da_commits sets) (da_chunks sets)) (\<lambda>_.
    and_then (validate_da_duplicate_commits (duplicate_commit_ids sets)) (\<lambda>_.
    and_then (validate_da_set_completeness sets) (\<lambda>_.
    and_then (validate_da_batch_count (da_commits sets)) (\<lambda>_.
    validate_da_chunk_count_bounds (da_commits sets)))))"

definition da_payload_commitment :: "(bytes \<Rightarrow> bytes32) \<Rightarrow> DaCommitSet \<Rightarrow> (u16, Tx) btree_map \<Rightarrow> bytes32 res" where
  "da_payload_commitment H commit m = map_ok H
    (try_fold (\<lambda>concat_bytes i. and_then (da_chunk_tx_for_index m i) (\<lambda>tx. Ok (concat_bytes @ da_payload tx)))
      [] (chunk_range (ds_chunk_count commit)))"

text \<open>The counter of commitment outputs is a \<open>u32\<close> over at most 1024 outputs.\<close>

definition da_commitment_step :: "nat \<times> bytes32 \<Rightarrow> TxOutput \<Rightarrow> (nat \<times> bytes32) res" where
  "da_commitment_step = (\<lambda>(outs, got) out.
    if out_covenant_type out \<noteq> COV_TYPE_DA_COMMIT then Ok (outs, got)
    else if length (out_covenant_data out) \<noteq> 32
    then Err BlockErrDaPayloadCommitInvalid ''DA commitment output has invalid length''
    else Ok (outs + 1, out_covenant_data out))"

definition da_commit_output_commitment :: "Tx \<Rightarrow> bytes32 res" where
  "da_commit_output_commitment tx =
    and_then (try_fold da_commitment_step (0, replicate 32 0) (outputs tx)) (\<lambda>(outs, got).
    if outs \<noteq> 1 then Err BlockErrDaPayloadCommitInvalid ''DA commitment output missing or duplicated'' else Ok got)"

definition validate_da_payload_commitments :: "(bytes \<Rightarrow> bytes32) \<Rightarrow> DaCommitMap \<Rightarrow> DaChunkMap \<Rightarrow> unit res" where
  "validate_da_payload_commitments H commits chunks = try_for_each (\<lambda>(da_id, _).
    and_then (da_commit_for_id commits da_id) (\<lambda>commit.
    and_then (da_chunk_set_for_id chunks da_id) (\<lambda>m.
    and_then (da_payload_commitment H commit m) (\<lambda>payload_commitment.
    and_then (da_commit_output_commitment (ds_tx commit)) (\<lambda>got_commitment.
    if payload_commitment \<noteq> got_commitment
    then Err BlockErrDaPayloadCommitInvalid ''payload commitment mismatch'' else Ok ()))))) commits"

definition validate_da_set_integrity :: "(bytes \<Rightarrow> bytes32) \<Rightarrow> Tx list \<Rightarrow> unit res" where
  "validate_da_set_integrity H txs =
    and_then (validate_da_chunk_hashes H txs) (\<lambda>_.
    and_then (collect_da_commits_and_chunks txs) (\<lambda>sets.
    and_then (validate_da_set_structure sets) (\<lambda>_.
    validate_da_payload_commitments H (da_commits sets) (da_chunks sets))))"

section \<open>The reference\<close>

definition commit_txs :: "bytes32 \<Rightarrow> Tx list \<Rightarrow> Tx list" where
  "commit_txs da_id = filter (\<lambda>tx. tx_kind tx = 1 \<and> map_option dc_da_id (da_commit_core tx) = Some da_id)"

definition chunk_txs :: "bytes32 \<Rightarrow> u16 \<Rightarrow> Tx list \<Rightarrow> Tx list" where
  "chunk_txs da_id i = filter (\<lambda>tx. tx_kind tx = 2 \<and> map_option dk_da_id (da_chunk_core tx) = Some da_id \<and>
     map_option chunk_index (da_chunk_core tx) = Some i)"

definition chunk_ids :: "Tx list \<Rightarrow> bytes32 set" where
  "chunk_ids txs = {da_id. \<exists>i. chunk_txs da_id i txs \<noteq> []}"

definition commit_ids :: "Tx list \<Rightarrow> bytes32 set" where
  "commit_ids txs = {da_id. commit_txs da_id txs \<noteq> []}"

text \<open>The only commitment output of a transaction.\<close>

definition commitment_of :: "Tx \<Rightarrow> bytes32 \<Rightarrow> bool" where
  "commitment_of tx c \<longleftrightarrow> length c = 32 \<and>
    map out_covenant_data (filter (\<lambda>out. out_covenant_type out = COV_TYPE_DA_COMMIT) (outputs tx)) = [c]"

text \<open>The identifier has one commit, all its chunks exactly once, and the right commitment.\<close>

definition da_set_ok :: "(bytes \<Rightarrow> bytes32) \<Rightarrow> Tx list \<Rightarrow> bytes32 \<Rightarrow> bool" where
  "da_set_ok H txs da_id \<longleftrightarrow> (\<exists>tx core chunks. commit_txs da_id txs = [tx] \<and> da_commit_core tx = Some core \<and>
    1 \<le> unat (chunk_count core) \<and> unat (chunk_count core) \<le> 61 \<and> length chunks = unat (chunk_count core) \<and>
    (\<forall>i. chunk_txs da_id i txs = (if unat i < length chunks then [chunks ! unat i] else [])) \<and>
    commitment_of tx (H (concat (map da_payload chunks))))"

definition da_sets_complete :: "(bytes \<Rightarrow> bytes32) \<Rightarrow> Tx list \<Rightarrow> bool" where
  "da_sets_complete H txs \<longleftrightarrow>
    list_all (\<lambda>tx. tx_kind tx = 1 \<longrightarrow> da_commit_core tx \<noteq> None) txs \<and>
    list_all (\<lambda>tx. tx_kind tx = 2 \<longrightarrow> (\<exists>core. da_chunk_core tx = Some core \<and> H (da_payload tx) = chunk_hash core)) txs \<and>
    chunk_ids txs \<subseteq> commit_ids txs \<and> card (commit_ids txs) \<le> 128 \<and>
    (\<forall>da_id \<in> commit_ids txs. da_set_ok H txs da_id)"

section \<open>What the maps hold\<close>

definition chunk_sets :: "DaSetStructure \<Rightarrow> bytes32 \<Rightarrow> (u16, Tx) btree_map" where
  "chunk_sets sets da_id = get_or_default [] (da_chunks sets) da_id"

definition collected :: "Tx list \<Rightarrow> DaSetStructure \<Rightarrow> bool" where
  "collected txs sets \<longleftrightarrow>
    list_all (\<lambda>tx. (tx_kind tx = 1 \<longrightarrow> da_commit_core tx \<noteq> None) \<and> (tx_kind tx = 2 \<longrightarrow> da_chunk_core tx \<noteq> None)) txs \<and>
    bt_inv (da_commits sets) \<and> bt_inv (da_chunks sets) \<and> bt_inv (duplicate_chunk_indexes sets) \<and>
    (\<forall>da_id. bt_get (da_commits sets) da_id = (case commit_txs da_id txs of [] \<Rightarrow> None
      | tx # _ \<Rightarrow> Some \<lparr>ds_tx = tx, ds_chunk_count = chunk_count (the (da_commit_core tx))\<rparr>)) \<and>
    duplicate_commit_ids sets = {da_id. 1 < length (commit_txs da_id txs)} \<and>
    (\<forall>da_id. bt_inv (chunk_sets sets da_id) \<and> (bt_get (da_chunks sets) da_id = None \<longleftrightarrow> chunk_sets sets da_id = [])) \<and>
    (\<forall>da_id i. bt_get (chunk_sets sets da_id) i = (case chunk_txs da_id i txs of [] \<Rightarrow> None | tx # _ \<Rightarrow> Some tx)) \<and>
    (\<forall>da_id. get_or_default {} (duplicate_chunk_indexes sets) da_id = {i. 1 < length (chunk_txs da_id i txs)})"

lemma collectedD:
  assumes "collected txs sets"
  shows "bt_get (da_commits sets) da_id = (case commit_txs da_id txs of [] \<Rightarrow> None
      | tx # _ \<Rightarrow> Some \<lparr>ds_tx = tx, ds_chunk_count = chunk_count (the (da_commit_core tx))\<rparr>)"
    and "bt_get (chunk_sets sets da_id) i = (case chunk_txs da_id i txs of [] \<Rightarrow> None | tx # _ \<Rightarrow> Some tx)"
  using assms by (simp_all add: collected_def)

lemma bt_insert_not_Nil [simp]: "bt_insert k v m \<noteq> []"
  by (cases "(k, v, m)" rule: bt_insert.cases) auto

lemma get_or_default_insert:
  "bt_inv m \<Longrightarrow> get_or_default d (bt_insert k v m) k' = (if k' = k then v else get_or_default d m k')"
  by (simp add: get_or_default_def bt_get_insert)

lemma collected_Nil: "collected [] DaSetStructure_default"
  by (simp add: collected_def DaSetStructure_default_def commit_txs_def chunk_txs_def chunk_sets_def get_or_default_def)

lemma collected_commit:
  assumes a: "collected txs sets" "tx_kind tx = 1" "da_commit_core tx = Some core" "add_da_commit sets tx = Ok sets'"
  shows "collected (txs @ [tx]) sets'"
proof -
  have k: "chunk_txs da_id i (txs @ [tx]) = chunk_txs da_id i txs" for da_id i
    using a(2) by (simp add: chunk_txs_def)
  have c: "commit_txs da_id (txs @ [tx]) = commit_txs da_id txs @ (if da_id = dc_da_id core then [tx] else [])" for da_id
    using a(2,3) by (auto simp: commit_txs_def)
  show ?thesis
  proof (cases "bt_get (da_commits sets) (dc_da_id core)")
    case None
    then have "commit_txs (dc_da_id core) txs = []" using a(1) by (auto simp: collected_def split: list.splits)
    moreover have "sets' = sets\<lparr>da_commits := bt_insert (dc_da_id core) \<lparr>ds_tx = tx, ds_chunk_count = chunk_count core\<rparr> (da_commits sets)\<rparr>"
      using a(3,4) None by (simp add: add_da_commit_def)
    ultimately show ?thesis
      using a(1) a(2,3) by (auto simp: collected_def c k chunk_sets_def bt_inv_insert bt_get_insert)
  next
    case (Some d)
    then have "commit_txs (dc_da_id core) txs \<noteq> []" using a(1) by (auto simp: collected_def)
    moreover have "sets' = sets\<lparr>duplicate_commit_ids := insert (dc_da_id core) (duplicate_commit_ids sets)\<rparr>"
      using a(3,4) Some by (simp add: add_da_commit_def)
    ultimately show ?thesis
      using a(1) a(2,3)
      by (auto simp: collected_def c k chunk_sets_def split: list.split)
  qed
qed

lemma collected_chunk:
  assumes a: "collected txs sets" "tx_kind tx = 2" "da_chunk_core tx = Some core" "add_da_chunk sets tx = Ok sets'"
  shows "collected (txs @ [tx]) sets'"
proof -
  have c: "commit_txs da_id (txs @ [tx]) = commit_txs da_id txs" for da_id
    using a(2) by (simp add: commit_txs_def)
  have k: "chunk_txs da_id i (txs @ [tx]) =
      chunk_txs da_id i txs @ (if da_id = dk_da_id core \<and> i = chunk_index core then [tx] else [])" for da_id i
    using a(2,3) by (auto simp: chunk_txs_def)
  let ?m = "chunk_sets sets (dk_da_id core)"
  show ?thesis
  proof (cases "bt_get ?m (chunk_index core)")
    case None
    then have "chunk_txs (dk_da_id core) (chunk_index core) txs = []"
      using a(1) by (auto simp: collected_def split: list.splits)
    moreover have s: "sets' = sets\<lparr>da_chunks := bt_insert (dk_da_id core) (bt_insert (chunk_index core) tx ?m) (da_chunks sets)\<rparr>"
      using a(3,4) None by (simp add: add_da_chunk_def chunk_sets_def)
    moreover have "chunk_sets sets' da_id = (if da_id = dk_da_id core then bt_insert (chunk_index core) tx ?m else chunk_sets sets da_id)" for da_id
      using a(1) by (simp add: s chunk_sets_def [of "sets\<lparr>da_chunks := _\<rparr>"] get_or_default_insert collected_def)
        (simp add: chunk_sets_def)
    ultimately show ?thesis
      using a(1) a(2,3) by (auto simp: collected_def c k bt_inv_insert bt_get_insert)
  next
    case (Some d)
    then have "chunk_txs (dk_da_id core) (chunk_index core) txs \<noteq> []" using a(1) by (auto simp: collected_def)
    moreover have s: "sets' = sets\<lparr>duplicate_chunk_indexes := bt_insert (dk_da_id core)
       (insert (chunk_index core) (get_or_default {} (duplicate_chunk_indexes sets) (dk_da_id core)))
       (duplicate_chunk_indexes sets)\<rparr>"
      using a(3,4) Some by (simp add: add_da_chunk_def chunk_sets_def)
    moreover have "chunk_sets sets' da_id = chunk_sets sets da_id" for da_id by (simp add: s chunk_sets_def)
    ultimately show ?thesis
      using a(1) a(2,3)
      by (auto simp: collected_def c k bt_inv_insert get_or_default_insert split: list.split)
  qed
qed

lemma collected_step:
  assumes "collected txs sets" and "add_da_tx sets tx = Ok sets'"
  shows "collected (txs @ [tx]) sets'"
proof -
  consider (commit) core where "tx_kind tx = 1" "da_commit_core tx = Some core" "add_da_commit sets tx = Ok sets'"
    | (chunk) core where "tx_kind tx = 2" "da_chunk_core tx = Some core" "add_da_chunk sets tx = Ok sets'"
    | (other) "tx_kind tx \<noteq> 1" "tx_kind tx \<noteq> 2" "sets' = sets"
    using assms(2) by (auto simp: add_da_tx_def add_da_commit_def add_da_chunk_def split: if_splits option.splits)
  then show ?thesis
  proof cases
    case commit
    then show ?thesis using collected_commit [OF assms(1)] by blast
  next
    case chunk
    then show ?thesis using collected_chunk [OF assms(1)] by blast
  next
    case other
    then have "commit_txs da_id (txs @ [tx]) = commit_txs da_id txs" "chunk_txs da_id i (txs @ [tx]) = chunk_txs da_id i txs" for da_id i
      by (simp_all add: commit_txs_def chunk_txs_def)
    then show ?thesis using assms(1) other by (simp add: collected_def)
  qed
qed

lemma collect_Ok: "collect_da_commits_and_chunks txs = Ok sets \<Longrightarrow> collected txs sets"
  unfolding collect_da_commits_and_chunks_def
  by (erule try_fold_prefix_invariant [where P = collected]) (simp_all add: collected_Nil collected_step)

lemma collect_total:
  assumes "list_all (\<lambda>tx. (tx_kind tx = 1 \<longrightarrow> da_commit_core tx \<noteq> None) \<and> (tx_kind tx = 2 \<longrightarrow> da_chunk_core tx \<noteq> None)) txs"
  shows "\<exists>sets. collect_da_commits_and_chunks txs = Ok sets"
proof -
  have "\<exists>sets'. try_fold add_da_tx sets txs = Ok sets'" for sets
    using assms
    by (induction txs arbitrary: sets)
      (auto simp: add_da_tx_def add_da_commit_def add_da_chunk_def Let_def split: option.splits)
  then show ?thesis by (simp add: collect_da_commits_and_chunks_def)
qed

section \<open>The checks decide the reference\<close>

lemma bt_get_None: "bt_get m k = None \<longleftrightarrow> k \<notin> fst ` set m"
  by (simp add: bt_get_def map_of_eq_None_iff)

lemma bt_keys: "{k. bt_get m k \<noteq> None} = fst ` set m"
  unfolding bt_get_def dom_map_of_conv_image_fst [symmetric] dom_def ..

lemma bt_length: "bt_inv m \<Longrightarrow> length m = card (fst ` set m)"
  using bt.entries_distinct [of m] by (metis distinct_card length_map set_map)

lemma chunk_range_set: "set (chunk_range n) = {i. unat i < unat n}"
proof -
  have "i \<in> of_nat ` {0..<unat n}" if "unat i < unat n" for i :: u16
    using that by (intro image_eqI [of _ _ "unat i"]) simp_all
  moreover have "unat (of_nat j :: u16) < unat n" if "j < unat n" for j
    using that unsigned_less [of n, where 'a = nat] by (simp add: unat_of_nat)
  ultimately show ?thesis by (auto simp: chunk_range_def)
qed

lemma card_chunk_range: "card {i :: u16. unat i < unat n} = unat n" for n :: u16
proof -
  have "inj_on (of_nat :: nat \<Rightarrow> u16) {0..<unat n}"
    using unsigned_less [of n, where 'a = nat] by (intro inj_onI) (auto simp: word_unat_eq_iff unat_of_nat)
  then have "distinct (chunk_range n)" by (simp add: chunk_range_def distinct_map)
  then have "card (set (chunk_range n)) = length (chunk_range n)" by (rule distinct_card)
  then show ?thesis unfolding chunk_range_set by (simp add: chunk_range_def)
qed

lemma chunk_set_get:
  assumes "collected txs sets"
  shows "bt_get (da_chunks sets) da_id = (if chunk_sets sets da_id = [] then None else Some (chunk_sets sets da_id))"
proof -
  have "bt_get (da_chunks sets) da_id = None \<longleftrightarrow> chunk_sets sets da_id = []"
    using assms by (simp add: collected_def)
  then show ?thesis by (cases "bt_get (da_chunks sets) da_id") (simp_all add: chunk_sets_def get_or_default_def)
qed

lemma no_duplicate_chunk_iff:
  assumes "collected txs sets"
  shows "validate_da_duplicate_chunk_indexes (duplicate_chunk_indexes sets) da_id = Ok () \<longleftrightarrow>
    (\<forall>i. length (chunk_txs da_id i txs) \<le> 1)"
proof -
  have "get_or_default {} (duplicate_chunk_indexes sets) da_id = {i. 1 < length (chunk_txs da_id i txs)}"
    using assms by (simp add: collected_def)
  moreover have "validate_da_duplicate_chunk_indexes (duplicate_chunk_indexes sets) da_id = Ok () \<longleftrightarrow>
      get_or_default {} (duplicate_chunk_indexes sets) da_id = {}"
    by (auto simp: validate_da_duplicate_chunk_indexes_def get_or_default_def split: option.split)
  ultimately show ?thesis by (auto simp: not_less)
qed

text \<open>When the keys of the collected map are exactly the indexes below the count, its values are the list of chunks.\<close>

lemma chunk_list:
  assumes c: "collected txs sets" and one: "\<forall>i. length (chunk_txs da_id i txs) \<le> 1"
    and keys: "{i. unat i < unat n} = {i. bt_get (chunk_sets sets da_id) i \<noteq> None}"
  shows "\<exists>chunks. length chunks = unat n \<and> (\<forall>i. chunk_txs da_id i txs = (if unat i < length chunks then [chunks ! unat i] else []))"
proof -
  let ?m = "chunk_sets sets da_id"
  let ?ch = "map (\<lambda>j. the (bt_get ?m (of_nat j))) [0..<unat n]"
  have get: "bt_get ?m i = (case chunk_txs da_id i txs of [] \<Rightarrow> None | tx # _ \<Rightarrow> Some tx)" for i
    using c by (simp add: collected_def)
  have "chunk_txs da_id i txs = (if unat i < length ?ch then [?ch ! unat i] else [])" for i
  proof (cases "unat i < unat n")
    case True
    then obtain t where t: "bt_get ?m i = Some t" using keys by blast
    then have "chunk_txs da_id i txs = [t]" using spec [OF one, of i] get [of i] by (cases "chunk_txs da_id i txs") auto
    then show ?thesis using True t by simp
  next
    case False
    then have "bt_get ?m i = None" using keys by blast
    then show ?thesis using get [of i] False by (simp split: list.splits)
  qed
  then show ?thesis by (intro exI [of _ ?ch] conjI) simp_all
qed

lemma chunk_set_iff:
  assumes c: "collected txs sets"
  shows "(validate_da_duplicate_chunk_indexes (duplicate_chunk_indexes sets) da_id = Ok () \<and>
      validate_da_chunk_set_completeness (da_chunks sets) da_id n = Ok () \<and>
      (\<exists>m. da_chunk_set_for_id (da_chunks sets) da_id = Ok m \<and> validate_da_chunk_indexes m n = Ok ())) \<longleftrightarrow>
    1 \<le> unat n \<and> (\<exists>chunks. length chunks = unat n \<and>
      (\<forall>i. chunk_txs da_id i txs = (if unat i < length chunks then [chunks ! unat i] else [])))" (is "?l \<longleftrightarrow> ?r")
proof -
  let ?m = "chunk_sets sets da_id"
  have get: "bt_get ?m i = (case chunk_txs da_id i txs of [] \<Rightarrow> None | tx # _ \<Rightarrow> Some tx)" for i
    using c by (simp add: collected_def)
  have len: "length ?m = card {i. bt_get ?m i \<noteq> None}"
  proof -
    have "bt_inv ?m" using c by (simp add: collected_def)
    then show ?thesis unfolding bt_keys by (rule bt_length)
  qed
  have m: "bt_get (da_chunks sets) da_id = (if ?m = [] then None else Some ?m)"
    by (rule chunk_set_get [OF c])
  have l: "?l \<longleftrightarrow> (\<forall>i. length (chunk_txs da_id i txs) \<le> 1) \<and> ?m \<noteq> [] \<and> length ?m = unat n \<and>
      {i. unat i < unat n} \<subseteq> {i. bt_get ?m i \<noteq> None}"
    unfolding no_duplicate_chunk_iff [OF c]
    by (auto simp: validate_da_chunk_set_completeness_def m da_chunk_set_for_id_def validate_da_chunk_indexes_def
        da_chunk_tx_for_index_def chunk_range_set split: if_splits)
  show ?thesis
  proof
    assume ?l
    then have a: "\<forall>i. length (chunk_txs da_id i txs) \<le> 1" "?m \<noteq> []" "length ?m = unat n"
        "{i. unat i < unat n} \<subseteq> {i. bt_get ?m i \<noteq> None}" unfolding l by blast+
    have keys: "{i. unat i < unat n} = {i. bt_get ?m i \<noteq> None}"
      by (rule card_subset_eq) (use a(3,4) len card_chunk_range [of n] in simp_all)
    have "1 \<le> unat n" using a(2,3) by (cases ?m) auto
    then show ?r using chunk_list [OF c a(1) keys] by (rule conjI)
  next
    assume ?r
    then obtain chunks where r: "1 \<le> unat n" "length chunks = unat n"
        "\<And>i. chunk_txs da_id i txs = (if unat i < length chunks then [chunks ! unat i] else [])" by blast
    then have "{i. bt_get ?m i \<noteq> None} = {i. unat i < unat n}" by (simp add: get)
    moreover from this have "length ?m = unat n" using len card_chunk_range [of n] by simp
    ultimately show ?l unfolding l using r by auto
  qed
qed

lemma payload_commitment_eq:
  assumes "length chunks = unat (ds_chunk_count commit)" and "\<And>i. unat i < length chunks \<Longrightarrow> bt_get m i = Some (chunks ! unat i)"
  shows "da_payload_commitment H commit m = Ok (H (concat (map da_payload chunks)))"
proof -
  have "try_fold (\<lambda>b i. and_then (da_chunk_tx_for_index m i) (\<lambda>tx. Ok (b @ da_payload tx))) acc (map of_nat [k..<length chunks]) =
      Ok (acc @ concat (map da_payload (drop k chunks)))" if "k \<le> length chunks" for acc k
    using that
  proof (induction "length chunks - k" arbitrary: k acc)
    case 0
    then show ?case by simp
  next
    case (Suc d)
    then have k: "k < length chunks" by simp
    then have "k < 2 ^ 16" using assms(1) unsigned_less [of "ds_chunk_count commit", where 'a = nat] by simp
    then have "bt_get m (of_nat k) = Some (chunks ! k)" using assms(2) [of "of_nat k"] k by (simp add: unat_of_nat)
    then show ?case using Suc(1) [of "Suc k"] Suc(2) k
      by (simp add: upt_conv_Cons da_chunk_tx_for_index_def Cons_nth_drop_Suc [symmetric])
  qed
  from this [of 0 "[]"] show ?thesis by (simp add: da_payload_commitment_def chunk_range_def assms(1))
qed

lemma commitment_iff: "da_commit_output_commitment tx = Ok c \<longleftrightarrow> commitment_of tx c"
proof -
  let ?ds = "\<lambda>outs. map out_covenant_data (filter (\<lambda>out. out_covenant_type out = COV_TYPE_DA_COMMIT) outs)"
  have "try_fold da_commitment_step (k, g) outs = Ok r \<longleftrightarrow> list_all (\<lambda>d. length d = 32) (?ds outs) \<and>
      r = (k + length (?ds outs), last (g # ?ds outs))" for k g r outs
    by (induction outs arbitrary: k g) (auto simp: da_commitment_step_def)
  then show ?thesis
    by (cases "?ds (outputs tx)")
      (auto simp: da_commit_output_commitment_def commitment_of_def split: if_splits)
qed

lemma commit_ids_keys:
  assumes "collected txs sets"
  shows "commit_ids txs = fst ` set (da_commits sets)"
proof -
  have "da_id \<in> commit_ids txs \<longleftrightarrow> bt_get (da_commits sets) da_id \<noteq> None" for da_id
    by (simp add: collectedD [OF assms] commit_ids_def split: list.split)
  then show ?thesis unfolding bt_keys [symmetric] by blast
qed

lemma chunk_ids_keys:
  assumes "collected txs sets"
  shows "chunk_ids txs = fst ` set (da_chunks sets)"
proof -
  have "da_id \<in> chunk_ids txs \<longleftrightarrow> bt_get (da_chunks sets) da_id \<noteq> None" for da_id
  proof -
    have "bt_get (chunk_sets sets da_id) i \<noteq> None \<longleftrightarrow> chunk_txs da_id i txs \<noteq> []" for i
      by (simp add: collectedD [OF assms] split: list.split)
    then have "da_id \<in> chunk_ids txs \<longleftrightarrow> chunk_sets sets da_id \<noteq> []"
      using bt_keys [of "chunk_sets sets da_id"] by (fastforce simp: chunk_ids_def neq_Nil_conv)
    then show ?thesis unfolding chunk_set_get [OF assms] by simp
  qed
  then show ?thesis unfolding bt_keys [symmetric] by blast
qed

lemma commit_entry:
  assumes "collected txs sets" and "commit_txs da_id txs = [tx]"
  shows "\<exists>core. da_commit_core tx = Some core \<and>
    bt_get (da_commits sets) da_id = Some \<lparr>ds_tx = tx, ds_chunk_count = chunk_count core\<rparr>"
proof -
  have "tx \<in> set (commit_txs da_id txs)" using assms(2) by simp
  then obtain core where "da_commit_core tx = Some core" by (auto simp: commit_txs_def)
  then show ?thesis by (simp add: collectedD [OF assms(1)] assms(2))
qed

lemma chunk_count_bounds: "validate_da_chunk_count n = Ok () \<longleftrightarrow> 1 \<le> unat n \<and> unat n \<le> 61"
proof -
  have "unat (ucast n :: u64) = unat n" using unsigned_less [of n, where 'a = nat] by (simp add: unat_ucast)
  moreover have "unat MAX_DA_CHUNK_COUNT = 61" by (simp add: const_defs)
  moreover have "n = 0 \<longleftrightarrow> unat n = 0" by (simp add: word_unat_eq_iff)
  ultimately show ?thesis by (simp add: validate_da_chunk_count_def word_less_nat_alt) arith
qed

text \<open>One identifier.\<close>

lemma da_set_ok_iff:
  assumes c: "collected txs sets" and one: "commit_txs da_id txs = [tx]"
    and e: "bt_get (da_commits sets) da_id = Some commit"
  shows "da_set_ok H txs da_id \<longleftrightarrow>
    (validate_da_duplicate_chunk_indexes (duplicate_chunk_indexes sets) da_id = Ok () \<and>
     validate_da_chunk_set_completeness (da_chunks sets) da_id (ds_chunk_count commit) = Ok () \<and>
     (\<exists>m. da_chunk_set_for_id (da_chunks sets) da_id = Ok m \<and> validate_da_chunk_indexes m (ds_chunk_count commit) = Ok ())) \<and>
    validate_da_chunk_count (ds_chunk_count commit) = Ok () \<and>
    (\<exists>m p. da_chunk_set_for_id (da_chunks sets) da_id = Ok m \<and> da_payload_commitment H commit m = Ok p \<and>
      da_commit_output_commitment (ds_tx commit) = Ok p)"
proof -
  obtain core where core: "da_commit_core tx = Some core" "ds_tx commit = tx" "ds_chunk_count commit = chunk_count core"
    using commit_entry [OF c one] e by auto
  have get: "bt_get (chunk_sets sets da_id) i = (case chunk_txs da_id i txs of [] \<Rightarrow> None | tx # _ \<Rightarrow> Some tx)" for i
    by (rule collectedD [OF c])
  have pay: "(\<exists>m p. da_chunk_set_for_id (da_chunks sets) da_id = Ok m \<and> da_payload_commitment H commit m = Ok p \<and>
      da_commit_output_commitment (ds_tx commit) = Ok p) \<longleftrightarrow> commitment_of tx (H (concat (map da_payload chunks)))"
    if "1 \<le> unat (chunk_count core)" "length chunks = unat (chunk_count core)"
      "\<forall>i. chunk_txs da_id i txs = (if unat i < length chunks then [chunks ! unat i] else [])" for chunks
  proof -
    have g: "bt_get (chunk_sets sets da_id) i = Some (chunks ! unat i)" if "unat i < length chunks" for i
      using get [of i] that \<open>\<forall>i. chunk_txs da_id i txs = _ i\<close> by simp
    have "bt_get (chunk_sets sets da_id) 0 \<noteq> None" using g [of 0] that(1,2) by simp
    then have "bt_get (da_chunks sets) da_id = Some (chunk_sets sets da_id)"
      unfolding chunk_set_get [OF c] by auto
    moreover have "da_payload_commitment H commit (chunk_sets sets da_id) = Ok (H (concat (map da_payload chunks)))"
      by (rule payload_commitment_eq) (use that(2) core(3) g in simp_all)
    ultimately show ?thesis by (auto simp: da_chunk_set_for_id_def commitment_iff core(2))
  qed
  show ?thesis
    unfolding chunk_set_iff [OF c] chunk_count_bounds core(3)
    using one core(1) pay by (auto simp: da_set_ok_def)
qed

lemma da_commits_each:
  assumes c: "collected txs sets" and d: "\<forall>da_id \<in> commit_ids txs. \<exists>tx. commit_txs da_id txs = [tx]"
  shows "validate_da_set_completeness sets = Ok () \<and> validate_da_chunk_count_bounds (da_commits sets) = Ok () \<and>
      validate_da_payload_commitments H (da_commits sets) (da_chunks sets) = Ok () \<longleftrightarrow>
      (\<forall>da_id \<in> commit_ids txs. da_set_ok H txs da_id)"
proof -
  have inv: "bt_inv (da_commits sets)" using c by (simp add: collected_def)
  note ids = commit_ids_keys [OF c]
  have *: "da_set_ok H txs da_id \<longleftrightarrow>
      (validate_da_duplicate_chunk_indexes (duplicate_chunk_indexes sets) da_id = Ok () \<and>
       validate_da_chunk_set_completeness (da_chunks sets) da_id (ds_chunk_count commit) = Ok () \<and>
       (\<exists>m. da_chunk_set_for_id (da_chunks sets) da_id = Ok m \<and> validate_da_chunk_indexes m (ds_chunk_count commit) = Ok ())) \<and>
      validate_da_chunk_count (ds_chunk_count commit) = Ok () \<and>
      (\<exists>m p. da_chunk_set_for_id (da_chunks sets) da_id = Ok m \<and> da_payload_commitment H commit m = Ok p \<and>
        da_commit_output_commitment (ds_tx commit) = Ok p)"
    if "(da_id, commit) \<in> set (da_commits sets)" for da_id commit
  proof -
    have "bt_get (da_commits sets) da_id = Some commit" using that inv by (simp add: bt_entries_get)
    moreover have "da_id \<in> commit_ids txs"
      unfolding ids by (rule image_eqI [OF _ that]) simp
    then obtain tx where "commit_txs da_id txs = [tx]" using d by blast
    ultimately show ?thesis using da_set_ok_iff [OF c] by blast
  qed
  have get: "bt_get (da_commits sets) (fst x) = Some (snd x)" if "x \<in> set (da_commits sets)" for x
    using that bt_entries_get [OF inv, of "fst x" "snd x"] by simp
  have "validate_da_payload_commitments H (da_commits sets) (da_chunks sets) = Ok () \<longleftrightarrow>
      (\<forall>x \<in> set (da_commits sets). \<exists>m p. da_chunk_set_for_id (da_chunks sets) (fst x) = Ok m \<and>
        da_payload_commitment H (snd x) m = Ok p \<and> da_commit_output_commitment (ds_tx (snd x)) = Ok p)"
    unfolding validate_da_payload_commitments_def try_for_each_Inr case_prod_beta
    by (rule ball_cong [OF refl]) (auto simp: da_commit_for_id_def get)
  moreover have "(\<forall>da_id \<in> commit_ids txs. da_set_ok H txs da_id) \<longleftrightarrow>
      (\<forall>x \<in> set (da_commits sets). da_set_ok H txs (fst x))"
    unfolding ids by simp
  ultimately show ?thesis
    using * [of "fst x" "snd x" for x]
    by (simp add: validate_da_set_completeness_def validate_da_chunk_count_bounds_def case_prod_beta
        ball_conj_distrib)
qed

lemma da_set_complete_iff:
  "validate_da_set_integrity H txs = Ok () \<longleftrightarrow> da_sets_complete H txs"
proof (cases "list_all (\<lambda>tx. tx_kind tx = 1 \<longrightarrow> da_commit_core tx \<noteq> None) txs \<and>
    list_all (\<lambda>tx. tx_kind tx = 2 \<longrightarrow> (\<exists>core. da_chunk_core tx = Some core \<and> H (da_payload tx) = chunk_hash core)) txs")
  case True
  then obtain sets where sets: "collect_da_commits_and_chunks txs = Ok sets"
    using collect_total [of txs] by (fastforce simp: list_all_iff)
  note c = collect_Ok [OF sets]
  have h: "validate_da_chunk_hashes H txs = Ok ()"
    using True by (auto simp: validate_da_chunk_hashes_def list_all_iff)
  have ids: "commit_ids txs = fst ` set (da_commits sets)" "chunk_ids txs = fst ` set (da_chunks sets)"
    by (rule commit_ids_keys [OF c], rule chunk_ids_keys [OF c])
  have orphans: "validate_da_chunk_orphans (da_commits sets) (da_chunks sets) = Ok () \<longleftrightarrow> chunk_ids txs \<subseteq> commit_ids txs"
    unfolding ids by (force simp: validate_da_chunk_orphans_def bt_get_None split: prod.splits)
  have inv: "bt_inv (da_commits sets)" using c by (simp add: collected_def)
  have batch: "validate_da_batch_count (da_commits sets) = Ok () \<longleftrightarrow> card (commit_ids txs) \<le> 128"
    unfolding ids using inv by (simp add: validate_da_batch_count_def bt_length const_defs not_less)
  have dup: "validate_da_duplicate_commits (duplicate_commit_ids sets) = Ok () \<longleftrightarrow>
      (\<forall>da_id \<in> commit_ids txs. \<exists>tx. commit_txs da_id txs = [tx])"
    using c by (auto simp: validate_da_duplicate_commits_def collected_def commit_ids_def not_less le_Suc_eq length_Suc_conv)
  have one: "da_id \<in> commit_ids txs \<Longrightarrow> da_set_ok H txs da_id \<Longrightarrow> \<exists>tx. commit_txs da_id txs = [tx]" for da_id
    by (auto simp: da_set_ok_def)
  have "validate_da_set_integrity H txs = Ok () \<longleftrightarrow> chunk_ids txs \<subseteq> commit_ids txs \<and>
      (\<forall>da_id \<in> commit_ids txs. \<exists>tx. commit_txs da_id txs = [tx]) \<and> card (commit_ids txs) \<le> 128 \<and>
      validate_da_set_completeness sets = Ok () \<and> validate_da_chunk_count_bounds (da_commits sets) = Ok () \<and>
      validate_da_payload_commitments H (da_commits sets) (da_chunks sets) = Ok ()"
    using h sets orphans dup batch by (auto simp: validate_da_set_integrity_def validate_da_set_structure_def)
  also have "\<dots> \<longleftrightarrow> da_sets_complete H txs"
    using True da_commits_each [OF c, of H] one by (auto simp: da_sets_complete_def)
  finally show ?thesis .
next
  case False
  have "validate_da_set_integrity H txs \<noteq> Ok ()"
  proof
    assume "validate_da_set_integrity H txs = Ok ()"
    then obtain sets where "validate_da_chunk_hashes H txs = Ok ()" "collected txs sets"
      using collect_Ok by (auto simp: validate_da_set_integrity_def simp del: try_for_each_Inr)
    then show False using False
      by (fastforce simp: validate_da_chunk_hashes_def collected_def list_all_iff split: if_splits)
  qed
  then show ?thesis using False by (auto simp: da_sets_complete_def)
qed

text \<open>
  C15: the block's data-availability sets are accepted exactly when the block carries
  them completely: every commit has a core, every chunk a core with the hash of its
  payload, every chunk belongs to a committed identifier, at most 128 identifiers are
  committed, and for each there is exactly one commit, with 1 to 61 chunks announced,
  exactly one chunk for each index announced and none beyond, and exactly one
  commitment output, which is the hash of the payloads in the order of their indexes.
\<close>

theorem da_set_integrity_iff:
  "validate_da_set_integrity H txs = Ok () \<longleftrightarrow> da_sets_complete H txs"
  by (rule da_set_complete_iff)

end
