(* ===== verification/Block_Basic.thy ===== *)
theory Block_Basic
  imports Weight Da_Set Merkle Pow Subsidy Covenants
begin

text \<open>
  Blocks: the parser, the header rules, the coinbase rules, the resource limits and the
  order of the checks of \<^verbatim>\<open>block_basic.rs\<close> and its modules. The hash and the big
  integers of external crates are the parameters \<open>H\<close> and \<open>L\<close>. A \<open>HashSet\<close> of nonces is
  the state of the loop over the transactions.
\<close>

section \<open>Parsing\<close>

record ParsedBlock =
  pb_header :: BlockHeader
  pb_header_bytes :: bytes
  pb_tx_count :: u64
  pb_txs :: "Tx list"
  pb_txids :: "bytes32 list"
  pb_wtxids :: "bytes32 list"

definition parse_next_block_tx ::
  "(bytes \<Rightarrow> bytes32) \<Rightarrow> bytes \<Rightarrow> Reader \<Rightarrow> ((Tx \<times> bytes32 \<times> bytes32) \<times> Reader) res" where
  "parse_next_block_tx H block_bytes r =
    (let rem = drop (BLOCK_HEADER_BYTES + offset r) block_bytes in
     if rem = [] then Err BlockErrParse ''unexpected EOF in tx list''
     else and_then (parse_tx H rem) (\<lambda>(tx, txid, wtxid, consumed).
     if consumed = 0 then Err BlockErrParse ''zero-length tx parse''
     else map_err (\<lambda>_. TxError_new BlockErrParse ''unexpected EOF in tx list'')
       (map_ok (\<lambda>(_, r). ((tx, txid, wtxid), r)) (read_bytes r consumed))))"

definition parse_block_bytes :: "(bytes \<Rightarrow> bytes32) \<Rightarrow> bytes \<Rightarrow> ParsedBlock res" where
  "parse_block_bytes H block_bytes =
    (if length block_bytes < BLOCK_HEADER_BYTES + 1 then Err BlockErrParse ''block too short''
     else let header_bytes = take BLOCK_HEADER_BYTES block_bytes in
     and_then (map_err (\<lambda>_. TxError_new BlockErrParse ''invalid block header'') (parse_block_header_bytes header_bytes)) (\<lambda>header.
     let r = Reader_new (drop BLOCK_HEADER_BYTES block_bytes) in
     and_then (map_err (\<lambda>_. TxError_new BlockErrParse ''invalid tx_count'') (read_compact_size r)) (\<lambda>((n, _), r).
     if n = 0 then Err BlockErrCoinbaseInvalid ''empty block tx list''
     else and_then (parse_many (unat n) (parse_next_block_tx H block_bytes) r) (\<lambda>(xs, r).
     if BLOCK_HEADER_BYTES + offset r \<noteq> length block_bytes then Err BlockErrParse ''trailing bytes after tx list''
     else Ok \<lparr>pb_header = header, pb_header_bytes = header_bytes, pb_tx_count = n, pb_txs = map fst xs,
       pb_txids = map (fst \<circ> snd) xs, pb_wtxids = map (snd \<circ> snd) xs\<rparr>))))"

section \<open>Headers and time\<close>

definition median_time_past :: "u64 \<Rightarrow> u64 list option \<Rightarrow> u64 option res" where
  "median_time_past block_height prev_timestamps =
    (if block_height = 0 then Ok None
     else case prev_timestamps of
       None \<Rightarrow> Ok None
     | Some prev \<Rightarrow>
       if prev = [] then Ok None
       else let k = unat (min block_height 11) in
       if length prev < k then Err BlockErrParse ''insufficient prev_timestamps context''
       else let window = sort (take k prev) in Ok (Some (window ! ((length window - 1) div 2))))"

definition validate_timestamp_rules :: "u64 \<Rightarrow> u64 \<Rightarrow> u64 list option \<Rightarrow> unit res" where
  "validate_timestamp_rules header_timestamp block_height prev_timestamps =
    and_then (median_time_past block_height prev_timestamps) (\<lambda>m. case m of
      None \<Rightarrow> Ok ()
    | Some median \<Rightarrow>
      if header_timestamp \<le> median then Err BlockErrTimestampOld ''timestamp <= MTP median''
      else let upper_bound = saturating_add median MAX_FUTURE_DRIFT in
      if header_timestamp > upper_bound then Err BlockErrTimestampFuture ''timestamp exceeds future drift''
      else Ok ())"

definition validate_header_commitments ::
  "BigUintLib \<Rightarrow> (bytes \<Rightarrow> bytes32) \<Rightarrow> ParsedBlock \<Rightarrow> bytes32 option \<Rightarrow> bytes32 option \<Rightarrow> unit res" where
  "validate_header_commitments L H pb expected_prev_hash expected_target =
    and_then (pow_check L H (pb_header_bytes pb) (target (pb_header pb))) (\<lambda>_.
    if (case expected_target of None \<Rightarrow> False | Some tgt \<Rightarrow> target (pb_header pb) \<noteq> tgt)
    then Err BlockErrTargetInvalid ''target mismatch''
    else if (case expected_prev_hash of None \<Rightarrow> False | Some prev \<Rightarrow> prev_block_hash (pb_header pb) \<noteq> prev)
    then Err BlockErrLinkageInvalid ''prev_block_hash mismatch''
    else and_then (map_err (\<lambda>_. TxError_new BlockErrMerkleInvalid ''failed to compute merkle'')
      (merkle_root_txids H (pb_txids pb))) (\<lambda>root.
    if root \<noteq> merkle_root (pb_header pb) then Err BlockErrMerkleInvalid ''merkle_root mismatch'' else Ok ()))"

section \<open>Coinbase\<close>

definition has_coinbase_tx_shape :: "Tx \<Rightarrow> bool" where
  "has_coinbase_tx_shape tx \<longleftrightarrow> tx_kind tx = 0x00 \<and> tx_nonce tx = 0 \<and> length (inputs tx) = 1 \<and>
    witness tx = [] \<and> da_payload tx = []"

definition has_coinbase_input_shape :: "TxInput \<Rightarrow> bool" where
  "has_coinbase_input_shape i \<longleftrightarrow> prev_txid i = replicate 32 0 \<and> prev_vout i = - 1 \<and> script_sig i = [] \<and> sequence i = - 1"

definition is_coinbase_tx :: "Tx \<Rightarrow> bool" where
  "is_coinbase_tx tx = (if \<not> has_coinbase_tx_shape tx then False else has_coinbase_input_shape (inputs tx ! 0))"

text \<open>\<open>first().ok_or_else(...)\<close>.\<close>

definition first_or :: "TxError \<Rightarrow> 'a list \<Rightarrow> 'a res" where
  "first_or e xs = (case xs of [] \<Rightarrow> Inl e | x # _ \<Rightarrow> Ok x)"

definition missing_coinbase :: TxError where
  "missing_coinbase = TxError_new BlockErrCoinbaseInvalid ''missing coinbase''"

definition validate_coinbase_structure :: "ParsedBlock \<Rightarrow> u64 \<Rightarrow> unit res" where
  "validate_coinbase_structure pb block_height =
    and_then (first_or missing_coinbase (pb_txs pb)) (\<lambda>coinbase.
    if \<not> is_coinbase_tx coinbase then Err BlockErrCoinbaseInvalid ''first tx is not canonical coinbase''
    else if outputs coinbase = [] then Err BlockErrCoinbaseInvalid ''coinbase must have at least one output''
    else if unat block_height \<ge> 2 ^ 32 then Err BlockErrCoinbaseInvalid ''height out of range''
    else if locktime coinbase \<noteq> ucast block_height
    then Err BlockErrCoinbaseInvalid ''coinbase locktime must equal block height''
    else Ok ())"

definition sum_coinbase_outputs :: "Tx \<Rightarrow> u128 res" where
  "sum_coinbase_outputs coinbase = try_fold (\<lambda>sum out.
    ok_or (TxError_new BlockErrParse ''u128 overflow'') (checked_add sum (ucast (out_value out)))) 0 (outputs coinbase)"

definition coinbase_value_limit :: "u64 \<Rightarrow> u128 \<Rightarrow> u128 \<Rightarrow> u128 res" where
  "coinbase_value_limit block_height already_generated sum_fees =
    ok_or (TxError_new BlockErrParse ''u128 overflow'')
      (checked_add (ucast (block_subsidy block_height already_generated)) sum_fees)"

definition validate_coinbase_value_bound :: "ParsedBlock \<Rightarrow> u64 \<Rightarrow> u128 \<Rightarrow> u128 \<Rightarrow> unit res" where
  "validate_coinbase_value_bound pb block_height already_generated sum_fees =
    (if block_height = 0 then Ok ()
     else case pb_txs pb of
       [] \<Rightarrow> Inl missing_coinbase
     | coinbase # _ \<Rightarrow>
       and_then (sum_coinbase_outputs coinbase) (\<lambda>sum_coinbase.
       and_then (coinbase_value_limit block_height already_generated sum_fees) (\<lambda>limit.
       if sum_coinbase > limit then Err BlockErrSubsidyExceeded ''coinbase outputs exceed subsidy+fees bound''
       else Ok ())))"

definition validate_coinbase_apply_outputs :: "TxOutput list \<Rightarrow> unit res" where
  "validate_coinbase_apply_outputs = try_for_each (\<lambda>out.
    if out_covenant_type out = COV_TYPE_VAULT
    then Err BlockErrCoinbaseInvalid ''coinbase must not create CORE_VAULT outputs'' else Ok ())"

definition is_witness_commitment_match :: "TxOutput \<Rightarrow> bytes32 \<Rightarrow> bool" where
  "is_witness_commitment_match out expected \<longleftrightarrow> out_covenant_type out = COV_TYPE_ANCHOR \<and>
    length (out_covenant_data out) = 32 \<and> out_covenant_data out = expected"

definition validate_coinbase_witness_commitment :: "(bytes \<Rightarrow> bytes32) \<Rightarrow> ParsedBlock \<Rightarrow> unit res" where
  "validate_coinbase_witness_commitment H pb =
    and_then (first_or missing_coinbase (pb_txs pb)) (\<lambda>coinbase.
    if pb_wtxids pb = [] then Inl missing_coinbase
    else and_then (map_err (\<lambda>_. TxError_new BlockErrWitnessCommitment ''failed to compute witness merkle root'')
      (witness_merkle_root_wtxids H (pb_wtxids pb))) (\<lambda>wroot.
    let expected = witness_commitment_hash H wroot;
        n = length (take 2 (filter (\<lambda>out. is_witness_commitment_match out expected) (outputs coinbase))) in
    if n \<noteq> 1 then Err BlockErrWitnessCommitment ''coinbase witness commitment missing or duplicated'' else Ok ()))"

definition validate_stored_block_commitments :: "(bytes \<Rightarrow> bytes32) \<Rightarrow> ParsedBlock \<Rightarrow> unit res" where
  "validate_stored_block_commitments H pb =
    and_then (first_or missing_coinbase (pb_txs pb)) (\<lambda>coinbase.
    if \<not> is_coinbase_tx coinbase then Err BlockErrCoinbaseInvalid ''first tx is not canonical coinbase''
    else and_then (map_err (\<lambda>_. TxError_new BlockErrMerkleInvalid ''failed to compute merkle root'')
      (merkle_root_txids H (pb_txids pb))) (\<lambda>root.
    if root \<noteq> merkle_root (pb_header pb) then Err BlockErrMerkleInvalid ''merkle_root mismatch''
    else validate_coinbase_witness_commitment H pb))"

section \<open>Resources\<close>

record BlockTxStats =
  bts_sum_weight :: u64
  bts_sum_da :: u64
  bts_sum_anchor :: u64

definition add_block_resource_stat :: "u64 \<Rightarrow> u64 \<Rightarrow> string \<Rightarrow> u64 res" where
  "add_block_resource_stat current delta msg = ok_or (TxError_new TxErrParse msg) (checked_add current delta)"

definition add_tx_stats :: "BlockTxStats \<Rightarrow> Tx \<Rightarrow> BlockTxStats res" where
  "add_tx_stats stats tx =
    and_then (tx_weight_and_stats tx) (\<lambda>(w, da, anchor_bytes).
    and_then (add_block_resource_stat (bts_sum_weight stats) w ''sum_weight overflow'') (\<lambda>sw.
    and_then (add_block_resource_stat (bts_sum_da stats) da ''sum_da overflow'') (\<lambda>sd.
    and_then (add_block_resource_stat (bts_sum_anchor stats) anchor_bytes ''sum_anchor overflow'') (\<lambda>sa.
    Ok \<lparr>bts_sum_weight = sw, bts_sum_da = sd, bts_sum_anchor = sa\<rparr>))))"

definition accumulate_block_resource_stats :: "ParsedBlock \<Rightarrow> BlockTxStats res" where
  "accumulate_block_resource_stats pb =
    try_fold add_tx_stats \<lparr>bts_sum_weight = 0, bts_sum_da = 0, bts_sum_anchor = 0\<rparr> (pb_txs pb)"

definition validate_block_resource_limits :: "BlockTxStats \<Rightarrow> unit res" where
  "validate_block_resource_limits stats =
    (if bts_sum_weight stats > MAX_BLOCK_WEIGHT then Err BlockErrWeightExceeded ''block weight exceeded''
     else if bts_sum_da stats > MAX_DA_BYTES_PER_BLOCK then Err BlockErrWeightExceeded ''DA bytes exceeded''
     else if bts_sum_anchor stats > MAX_ANCHOR_BYTES_PER_BLOCK then Err BlockErrAnchorBytesExceeded ''anchor bytes exceeded''
     else Ok ())"

section \<open>Transactions of a block\<close>

definition validate_non_coinbase_nonce_and_input_count :: "Tx \<Rightarrow> unit res" where
  "validate_non_coinbase_nonce_and_input_count tx =
    (if tx_nonce tx = 0 \<and> inputs tx = [] then Err TxErrTxNonceInvalid ''tx_nonce must be >= 1 for non-coinbase''
     else if inputs tx = [] then Err TxErrParse ''non-coinbase must have at least one input''
     else Ok ())"

definition validate_non_coinbase_block_tx :: "Tx \<Rightarrow> u64 set \<Rightarrow> u64 set res" where
  "validate_non_coinbase_block_tx tx seen_nonces =
    (if is_coinbase_tx tx then Err BlockErrCoinbaseInvalid ''coinbase-like tx found at index > 0''
     else and_then (validate_non_coinbase_nonce_and_input_count tx) (\<lambda>_.
     if tx_nonce tx \<in> seen_nonces then Err TxErrNonceReplay ''duplicate tx_nonce in block''
     else Ok (insert (tx_nonce tx) seen_nonces)))"

definition validate_coinbase_block_tx_semantics :: "ParsedBlock \<Rightarrow> u64 \<Rightarrow> RotationProvider option \<Rightarrow> unit res" where
  "validate_coinbase_block_tx_semantics pb block_height rotation =
    and_then (validate_coinbase_structure pb block_height) (\<lambda>_.
    and_then (first_or missing_coinbase (pb_txs pb)) (\<lambda>coinbase.
    validate_tx_covenants_genesis coinbase block_height rotation))"

definition validate_block_tx_semantics :: "ParsedBlock \<Rightarrow> u64 \<Rightarrow> RotationProvider option \<Rightarrow> unit res" where
  "validate_block_tx_semantics pb block_height rotation =
    and_then (validate_coinbase_block_tx_semantics pb block_height rotation) (\<lambda>_.
    and_then (try_fold (\<lambda>seen tx.
      and_then (validate_non_coinbase_block_tx tx seen) (\<lambda>seen.
      and_then (validate_tx_covenants_genesis tx block_height rotation) (\<lambda>_. Ok seen)))
      {} (drop 1 (pb_txs pb))) (\<lambda>_. Ok ()))"

section \<open>The order of the checks\<close>

record BlockBasicSummary =
  bbs_tx_count :: u64
  bbs_sum_weight :: u64
  bbs_sum_da :: u64
  bbs_block_hash :: bytes32

definition validate_parsed_block_preflight ::
  "BigUintLib \<Rightarrow> (bytes \<Rightarrow> bytes32) \<Rightarrow> ParsedBlock \<Rightarrow> bytes32 option \<Rightarrow> bytes32 option \<Rightarrow> u64 \<Rightarrow> u64 list option \<Rightarrow>
   BlockTxStats res" where
  "validate_parsed_block_preflight L H pb expected_prev_hash expected_target block_height prev_timestamps =
    and_then (validate_header_commitments L H pb expected_prev_hash expected_target) (\<lambda>_.
    and_then (validate_coinbase_witness_commitment H pb) (\<lambda>_.
    and_then (validate_timestamp_rules (timestamp (pb_header pb)) block_height prev_timestamps) (\<lambda>_.
    and_then (accumulate_block_resource_stats pb) (\<lambda>stats.
    and_then (validate_block_resource_limits stats) (\<lambda>_.
    and_then (validate_da_set_integrity H (pb_txs pb)) (\<lambda>_. Ok stats))))))"

definition validate_parsed_block_basic_checks ::
  "BigUintLib \<Rightarrow> (bytes \<Rightarrow> bytes32) \<Rightarrow> ParsedBlock \<Rightarrow> bytes32 option \<Rightarrow> bytes32 option \<Rightarrow> u64 \<Rightarrow> u64 list option \<Rightarrow>
   RotationProvider option \<Rightarrow> BlockTxStats res" where
  "validate_parsed_block_basic_checks L H pb expected_prev_hash expected_target block_height prev_timestamps rotation =
    and_then (validate_parsed_block_preflight L H pb expected_prev_hash expected_target block_height prev_timestamps) (\<lambda>stats.
    and_then (validate_block_tx_semantics pb block_height rotation) (\<lambda>_. Ok stats))"

definition validate_parsed_block_basic_with_context_at_height ::
  "BigUintLib \<Rightarrow> (bytes \<Rightarrow> bytes32) \<Rightarrow> ParsedBlock \<Rightarrow> bytes32 option \<Rightarrow> bytes32 option \<Rightarrow> u64 \<Rightarrow> u64 list option \<Rightarrow>
   RotationProvider option \<Rightarrow> BlockBasicSummary res" where
  "validate_parsed_block_basic_with_context_at_height L H pb expected_prev_hash expected_target block_height prev_timestamps rotation =
    and_then (validate_parsed_block_basic_checks L H pb expected_prev_hash expected_target block_height prev_timestamps rotation) (\<lambda>stats.
    and_then (map_err (\<lambda>_. TxError_new BlockErrParse ''failed to hash block header'') (block_hash H (pb_header_bytes pb))) (\<lambda>h.
    Ok \<lparr>bbs_tx_count = pb_tx_count pb, bbs_sum_weight = bts_sum_weight stats, bbs_sum_da = bts_sum_da stats, bbs_block_hash = h\<rparr>))"

definition validate_connect_preflight ::
  "BigUintLib \<Rightarrow> (bytes \<Rightarrow> bytes32) \<Rightarrow> ParsedBlock \<Rightarrow> bytes32 option \<Rightarrow> bytes32 option \<Rightarrow> u64 \<Rightarrow> u64 list option \<Rightarrow> unit res" where
  "validate_connect_preflight L H pb expected_prev_hash expected_target block_height prev_timestamps =
    and_then (validate_parsed_block_preflight L H pb expected_prev_hash expected_target block_height prev_timestamps) (\<lambda>_.
    validate_coinbase_structure pb block_height)"

definition validate_block_basic_with_context_at_height_and_rotation ::
  "BigUintLib \<Rightarrow> (bytes \<Rightarrow> bytes32) \<Rightarrow> bytes \<Rightarrow> bytes32 option \<Rightarrow> bytes32 option \<Rightarrow> u64 \<Rightarrow> u64 list option \<Rightarrow>
   RotationProvider option \<Rightarrow> BlockBasicSummary res" where
  "validate_block_basic_with_context_at_height_and_rotation L H block_bytes expected_prev_hash expected_target
      block_height prev_timestamps rotation =
    and_then (parse_block_bytes H block_bytes) (\<lambda>pb.
    validate_parsed_block_basic_with_context_at_height L H pb expected_prev_hash expected_target block_height
      prev_timestamps rotation)"

definition validate_block_basic_with_context_at_height ::
  "BigUintLib \<Rightarrow> (bytes \<Rightarrow> bytes32) \<Rightarrow> bytes \<Rightarrow> bytes32 option \<Rightarrow> bytes32 option \<Rightarrow> u64 \<Rightarrow> u64 list option \<Rightarrow>
   BlockBasicSummary res" where
  "validate_block_basic_with_context_at_height L H block_bytes expected_prev_hash expected_target block_height prev_timestamps =
    validate_block_basic_with_context_at_height_and_rotation L H block_bytes expected_prev_hash expected_target
      block_height prev_timestamps None"

definition validate_block_basic_at_height ::
  "BigUintLib \<Rightarrow> (bytes \<Rightarrow> bytes32) \<Rightarrow> bytes \<Rightarrow> bytes32 option \<Rightarrow> bytes32 option \<Rightarrow> u64 \<Rightarrow> BlockBasicSummary res" where
  "validate_block_basic_at_height L H block_bytes expected_prev_hash expected_target block_height =
    validate_block_basic_with_context_at_height L H block_bytes expected_prev_hash expected_target block_height None"

definition validate_block_basic ::
  "BigUintLib \<Rightarrow> (bytes \<Rightarrow> bytes32) \<Rightarrow> bytes \<Rightarrow> bytes32 option \<Rightarrow> bytes32 option \<Rightarrow> BlockBasicSummary res" where
  "validate_block_basic L H block_bytes expected_prev_hash expected_target =
    validate_block_basic_at_height L H block_bytes expected_prev_hash expected_target 0"

definition validate_block_basic_with_context_and_fees_at_height_and_rotation ::
  "BigUintLib \<Rightarrow> (bytes \<Rightarrow> bytes32) \<Rightarrow> bytes \<Rightarrow> bytes32 option \<Rightarrow> bytes32 option \<Rightarrow> u64 \<Rightarrow> u64 list option \<Rightarrow>
   u128 \<Rightarrow> u128 \<Rightarrow> RotationProvider option \<Rightarrow> BlockBasicSummary res" where
  "validate_block_basic_with_context_and_fees_at_height_and_rotation L H block_bytes expected_prev_hash
      expected_target block_height prev_timestamps already_generated sum_fees rotation =
    and_then (parse_block_bytes H block_bytes) (\<lambda>pb.
    and_then (validate_parsed_block_basic_with_context_at_height L H pb expected_prev_hash expected_target block_height
      prev_timestamps rotation) (\<lambda>s.
    and_then (validate_coinbase_value_bound pb block_height already_generated sum_fees) (\<lambda>_. Ok s)))"

section \<open>What the parser accepts\<close>

definition tx_encoding :: "Tx \<Rightarrow> bytes" where
  "tx_encoding tx = marshal_core tx @ marshal_tail tx"

definition ids_of :: "(bytes \<Rightarrow> bytes32) \<Rightarrow> Tx \<times> bytes32 \<times> bytes32 \<Rightarrow> bool" where
  "ids_of H = (\<lambda>(tx, txid, wtxid). wf_tx tx \<and> txid = H (marshal_core tx) \<and> wtxid = H (tx_encoding tx))"

text \<open>The next transaction, read from the reader's own buffer.\<close>

definition next_tx :: "(bytes \<Rightarrow> bytes32) \<Rightarrow> Reader \<Rightarrow> ((Tx \<times> bytes32 \<times> bytes32) \<times> Reader) res" where
  "next_tx H r = parse_next_block_tx H (replicate BLOCK_HEADER_BYTES 0 @ rd_b r) r"

lemma parse_tx_iff:
  "parse_tx H b = Ok (tx, txid, wtxid, n) \<longleftrightarrow>
    ids_of H (tx, txid, wtxid) \<and> n = length (tx_encoding tx) \<and> (\<exists>tl. b = tx_encoding tx @ tl) \<and> n \<le> usize_max"
proof
  assume "parse_tx H b = Ok (tx, txid, wtxid, n)"
  then show "ids_of H (tx, txid, wtxid) \<and> n = length (tx_encoding tx) \<and> (\<exists>tl. b = tx_encoding tx @ tl) \<and> n \<le> usize_max"
    by (auto simp: parse_tx_def parse_tx_without_hashes_iff Let_def slice_def ids_of_def tx_encoding_def)
next
  assume r: "ids_of H (tx, txid, wtxid) \<and> n = length (tx_encoding tx) \<and> (\<exists>tl. b = tx_encoding tx @ tl) \<and> n \<le> usize_max"
  then obtain tl where tl: "b = tx_encoding tx @ tl" by blast
  have "parse_tx_without_hashes b = Ok (tx, length (marshal_core tx), n)"
    using r by (auto simp: parse_tx_without_hashes_iff ids_of_def tx_encoding_def)
  then show "parse_tx H b = Ok (tx, txid, wtxid, n)"
    using r tl by (simp add: parse_tx_def Let_def slice_def ids_of_def tx_encoding_def)
qed

lemma tx_encoding_not_Nil: "tx_encoding tx \<noteq> []"
  by (simp add: tx_encoding_def marshal_core_def)

lemma next_tx_iff: "(next_tx H r = Inr (x, r')) = (ids_of H x \<and> reads r (tx_encoding (fst x)) r')"
proof -
  obtain tx txid wtxid where x: "x = (tx, txid, wtxid)" by (metis surj_pair)
  have d: "drop (BLOCK_HEADER_BYTES + offset r) (replicate BLOCK_HEADER_BYTES 0 @ rd_b r) = drop (rd_off r) (rd_b r)"
    by (simp add: offset_def)
  have "(next_tx H r = Inr (x, r')) = (ids_of H x \<and> (\<exists>tl. drop (rd_off r) (rd_b r) = tx_encoding tx @ tl) \<and>
      (\<exists>v. length v = length (tx_encoding tx) \<and> reads r v r'))"
  proof -
    have "(next_tx H r = Inr (x, r')) = (\<exists>n. parse_tx H (drop (rd_off r) (rd_b r)) = Ok (tx, txid, wtxid, n) \<and> n \<noteq> 0 \<and>
        drop (rd_off r) (rd_b r) \<noteq> [] \<and> (\<exists>v. read_bytes r n = Ok (v, r')))"
      unfolding next_tx_def parse_next_block_tx_def d Let_def x by auto
    also have "\<dots> = (ids_of H x \<and> (\<exists>tl. drop (rd_off r) (rd_b r) = tx_encoding tx @ tl) \<and>
      (\<exists>v. length v = length (tx_encoding tx) \<and> reads r v r'))"
      unfolding parse_tx_iff read_bytes_iff x
      using tx_encoding_not_Nil [of tx] by (auto simp: reads_def)
    finally show ?thesis .
  qed
  also have "\<dots> = (ids_of H x \<and> reads r (tx_encoding tx) r')"
    by (auto simp: reads_def append_eq_conv_conj) (metis append_take_drop_id)+
  finally show ?thesis by (simp add: x)
qed

interpretation block_tx: codec "next_tx H" "\<lambda>x. tx_encoding (fst x)" "ids_of H"
  by unfold_locales (rule next_tx_iff)

lemma parse_many_next_tx:
  assumes "rd_b r = drop BLOCK_HEADER_BYTES b" and "BLOCK_HEADER_BYTES \<le> length b"
  shows "parse_many n (parse_next_block_tx H b) r = parse_many n (next_tx H) r"
  using assms(1)
proof (induction n arbitrary: r)
  case (Suc n)
  have eq: "parse_next_block_tx H b r = next_tx H r"
    using Suc.prems by (simp add: next_tx_def parse_next_block_tx_def add.commute)
  show ?case
  proof (cases "next_tx H r")
    case (Inr y)
    obtain x r' where y: "y = (x, r')" by (rule prod.exhaust)
    then have "rd_b r' = rd_b r" using Inr by (auto simp: next_tx_iff reads_def)
    then show ?thesis using Suc.IH [of r'] Suc.prems eq Inr y by simp
  qed (simp add: eq)
qed simp

definition wf_parsed_block :: "(bytes \<Rightarrow> bytes32) \<Rightarrow> ParsedBlock \<Rightarrow> bool" where
  "wf_parsed_block H pb \<longleftrightarrow>
    length (prev_block_hash (pb_header pb)) = 32 \<and> length (merkle_root (pb_header pb)) = 32 \<and>
    length (target (pb_header pb)) = 32 \<and> pb_header_bytes pb = header_bytes_of (pb_header pb) \<and>
    pb_txs pb \<noteq> [] \<and> length (pb_txs pb) < 2 ^ 64 \<and> pb_tx_count pb = len64 (pb_txs pb) \<and> list_all wf_tx (pb_txs pb) \<and>
    pb_txids pb = map (\<lambda>tx. H (marshal_core tx)) (pb_txs pb) \<and>
    pb_wtxids pb = map (\<lambda>tx. H (marshal_core tx @ marshal_tail tx)) (pb_txs pb)"

definition block_encoding :: "ParsedBlock \<Rightarrow> bytes" where
  "block_encoding pb = header_bytes_of (pb_header pb) @ encode_compact_size (len64 (pb_txs pb)) @
    concat (map (\<lambda>tx. marshal_core tx @ marshal_tail tx) (pb_txs pb))"

lemma parsed_txs_iff:
  "list_all (ids_of H) xs \<longleftrightarrow> list_all wf_tx (map fst xs) \<and> map (fst \<circ> snd) xs = map (\<lambda>tx. H (marshal_core tx)) (map fst xs) \<and>
    map (snd \<circ> snd) xs = map (\<lambda>tx. H (tx_encoding tx)) (map fst xs)"
  by (induction xs) (auto simp: ids_of_def)

lemma whole_input:
  "(\<exists>r1 r2. reads (Reader_new c) x r1 \<and> reads r1 y r2 \<and> offset r2 = length c) \<longleftrightarrow> c = x @ y \<and> length c \<le> usize_max"
proof -
  have "(\<exists>r1 r2. reads (Reader_new c) x r1 \<and> reads r1 y r2 \<and> offset r2 = length c) \<longleftrightarrow>
      (\<exists>r2. reads (Reader_new c) (x @ y) r2 \<and> offset r2 = length c)"
    unfolding reads_append by blast
  also have "\<dots> \<longleftrightarrow> c = x @ y \<and> length c \<le> usize_max"
    by (auto simp: reads_Reader_new offset_def)
  finally show ?thesis .
qed

lemma parse_txs_iff:
  assumes "116 \<le> length b" and r1: "reads (Reader_new (drop 116 b)) c r1"
  shows "parse_many n (parse_next_block_tx H b) r1 = Ok (xs, r2) \<longleftrightarrow>
    length xs = n \<and> list_all (ids_of H) xs \<and> reads r1 (concat (map tx_encoding (map fst xs))) r2"
proof -
  have "rd_b r1 = drop 116 b" using r1 by (auto simp: reads_def Reader_new_def)
  then have "parse_many n (parse_next_block_tx H b) r1 = parse_many n (next_tx H) r1"
    using parse_many_next_tx [of r1 b] assms(1) by (simp add: BLOCK_HEADER_BYTES_def)
  then show ?thesis
    using block_tx.many_iff [OF reads_valid [OF r1], of n H xs r2] by (simp add: comp_def)
qed

lemma parse_block_sound:
  assumes "parse_block_bytes H b = Ok pb"
  shows "wf_parsed_block H pb \<and> b = block_encoding pb \<and> length b \<le> usize_max + 116"
proof -
  from assms obtain m xs r1 r2 where p: "117 \<le> length b" "parse_block_header_bytes (take 116 b) = Ok (pb_header pb)"
      "pb_header_bytes pb = take 116 b" "pb_tx_count pb \<noteq> 0"
      "read_compact_size (Reader_new (drop 116 b)) = Ok ((pb_tx_count pb, m), r1)"
      "parse_many (unat (pb_tx_count pb)) (parse_next_block_tx H b) r1 = Ok (xs, r2)" "116 + offset r2 = length b"
      "pb_txs pb = map fst xs" "pb_txids pb = map (fst \<circ> snd) xs" "pb_wtxids pb = map (snd \<circ> snd) xs"
    by (auto simp: parse_block_bytes_def BLOCK_HEADER_BYTES_def Let_def not_less)
  have h: "length (prev_block_hash (pb_header pb)) = 32" "length (merkle_root (pb_header pb)) = 32"
      "length (target (pb_header pb)) = 32" "take 116 b = header_bytes_of (pb_header pb)"
    using p(2) by (simp_all add: parse_block_header_roundtrip)
  have r1: "reads (Reader_new (drop 116 b)) (encode_compact_size (pb_tx_count pb)) r1" using p(5) by (simp add: wire_simps)
  have t: "length xs = unat (pb_tx_count pb)" "list_all (ids_of H) xs"
      "reads r1 (concat (map tx_encoding (pb_txs pb))) r2"
    using p(1,6) parse_txs_iff [OF _ r1] by (auto simp: p(8))
  have n: "pb_tx_count pb = len64 (pb_txs pb)" "length (pb_txs pb) < 2 ^ 64"
    using t(1) length_eq_unat [of "pb_txs pb" "pb_tx_count pb"] by (simp_all add: p(8))
  have "offset r2 = length (drop 116 b)" using p(7) by simp
  then have d: "drop 116 b = encode_compact_size (pb_tx_count pb) @ concat (map tx_encoding (pb_txs pb))"
      "length (drop 116 b) \<le> usize_max"
    using whole_input [of "drop 116 b"] r1 t(3) by blast+
  have "b = block_encoding pb"
    using append_take_drop_id [of 116 b] d(1) h(4) n(1) by (simp add: block_encoding_def tx_encoding_def [abs_def])
  moreover have "wf_parsed_block H pb"
    using h p(3,4,9,10) n t(2) by (auto simp: wf_parsed_block_def parsed_txs_iff p(8) tx_encoding_def)
  ultimately show ?thesis using d(2) by simp
qed

lemma parse_block_complete:
  assumes w: "wf_parsed_block H pb" and b: "b = block_encoding pb" and u: "length b \<le> usize_max + 116"
  shows "parse_block_bytes H b = Ok pb"
proof -
  let ?xs = "zip (pb_txs pb) (zip (pb_txids pb) (pb_wtxids pb))"
  have l: "length (header_bytes_of (pb_header pb)) = 116" using w by (simp add: wf_parsed_block_def header_bytes_of_def)
  then have d: "take 116 b = header_bytes_of (pb_header pb)"
      "drop 116 b = encode_compact_size (pb_tx_count pb) @ concat (map tx_encoding (pb_txs pb))"
    using w by (simp_all add: b block_encoding_def wf_parsed_block_def tx_encoding_def [abs_def])
  have x: "map fst ?xs = pb_txs pb" "map (fst \<circ> snd) ?xs = pb_txids pb" "map (snd \<circ> snd) ?xs = pb_wtxids pb"
    using w by (simp_all add: wf_parsed_block_def flip: map_map)
  have "list_all (ids_of H) ?xs" unfolding parsed_txs_iff x using w by (simp add: wf_parsed_block_def tx_encoding_def)
  moreover have n: "length ?xs = unat (pb_tx_count pb)" "pb_tx_count pb \<noteq> 0"
    using w by (simp_all add: wf_parsed_block_def unat_of_nat len64_eq_0)
  moreover have b116: "116 \<le> length b" using l by (simp add: b block_encoding_def)
  moreover obtain r1 r2 where r: "reads (Reader_new (drop 116 b)) (encode_compact_size (pb_tx_count pb)) r1"
      "reads r1 (concat (map tx_encoding (map fst ?xs))) r2" "offset r2 = length (drop 116 b)"
    using whole_input [of "drop 116 b"] d(2) u unfolding x by (metis diff_le_mono le_add_diff_inverse2 length_drop diff_add_inverse2)
  ultimately have "parse_many (unat (pb_tx_count pb)) (parse_next_block_tx H b) r1 = Ok (?xs, r2)"
    using parse_txs_iff [OF b116 r(1)] by blast
  moreover have "parse_block_header_bytes (take 116 b) = Ok (pb_header pb)"
    using w d(1) by (simp add: parse_block_header_roundtrip wf_parsed_block_def)
  moreover have "\<exists>m. read_compact_size (Reader_new (drop 116 b)) = Ok ((pb_tx_count pb, m), r1)"
    using r(1) by (simp add: wire_simps)
  moreover have "117 \<le> length b"
    using arg_cong [OF d(2), of length] b116 by (simp add: length_encode_compact_size split: if_splits)
  ultimately show ?thesis
    using n(2) r(3) b116 x w d(1)
    by (cases pb) (auto simp: parse_block_bytes_def BLOCK_HEADER_BYTES_def Let_def wf_parsed_block_def)
qed

text \<open>
  C11: the block parser accepts a byte string exactly when it is the encoding of a block:
  116 header bytes, the number of transactions, at least one, and the encodings of that
  many well-formed transactions with nothing after them. The identifiers it
  returns are the hashes of the core and of the whole of each transaction. So parsing
  loses nothing and a block has one encoding.
\<close>

theorem parse_block_canonical:
  "parse_block_bytes H b = Ok pb \<longleftrightarrow> wf_parsed_block H pb \<and> b = block_encoding pb \<and> length b \<le> usize_max + 116"
  using parse_block_sound parse_block_complete by blast

section \<open>The rules of an accepted block\<close>

definition tx_weight_of :: "Tx \<Rightarrow> nat" where
  "tx_weight_of tx = 4 * length (marshal_core tx) + length (marshal_tail tx) + (\<Sum>w\<leftarrow>witness tx. legacy_cost w)"

text \<open>The middle of the last eleven timestamps, or of as many as the height has.\<close>

definition median_of :: "u64 \<Rightarrow> u64 list \<Rightarrow> u64" where
  "median_of height prev = (let k = min (unat height) 11 in sort (take k prev) ! ((k - 1) div 2))"

definition time_ok :: "u64 \<Rightarrow> u64 \<Rightarrow> u64 list option \<Rightarrow> bool" where
  "time_ok ts height prev_timestamps \<longleftrightarrow> (case prev_timestamps of
     None \<Rightarrow> True
   | Some prev \<Rightarrow> height = 0 \<or> prev = [] \<or> (min (unat height) 11 \<le> length prev \<and>
       median_of height prev < ts \<and> unat ts \<le> unat (median_of height prev) + 7200))"

lemma time_ok_iff: "validate_timestamp_rules ts height prev = Ok () \<longleftrightarrow> time_ok ts height prev"
proof -
  have k: "unat (min height 11) = min (unat height) 11" by (simp add: min_def word_le_nat_alt)
  have s: "unat (saturating_add m MAX_FUTURE_DRIFT) = min (unat m + 7200) (2 ^ 64 - 1)" for m
    by (simp add: unat_saturating_add const_defs)
  have u: "(ts \<le> saturating_add m MAX_FUTURE_DRIFT) = (unat ts \<le> unat m + 7200)" for m
    using unsigned_less [of ts, where 'a = nat] by (simp add: word_le_nat_alt s)
  have l: "length (take (min (unat height) 11) p) = min (unat height) 11" if "min (unat height) 11 \<le> length p" for p :: "u64 list"
    using that by simp
  show ?thesis
    by (cases prev)
      (auto simp: validate_timestamp_rules_def median_time_past_def time_ok_def median_of_def Let_def k l not_less not_le u)
qed

lemma add_tx_stats_iff:
  assumes "wf_tx tx"
  shows "add_tx_stats st tx = Ok st' \<longleftrightarrow>
    unat (bts_sum_weight st') = unat (bts_sum_weight st) + tx_weight_of tx \<and>
    unat (bts_sum_da st') = unat (bts_sum_da st) + da_bytes_of tx \<and>
    unat (bts_sum_anchor st') = unat (bts_sum_anchor st) + anchor_bytes_of (outputs tx)"
proof -
  have core: "wf_core tx" using assms by (simp add: wf_tx_def)
  have w: "tx_weight_of tx < 2 ^ 64"
    using marshal_core_bound [OF core] marshal_tail_bound [OF assms] legacy_cost_bound [OF assms] by (simp add: tx_weight_of_def)
  have "anchor_bytes_of (outputs tx) \<le> length (marshal_core tx)"
    using anchor_bytes_le [of "outputs tx"] by (simp add: marshal_core_def)
  then have a: "anchor_bytes_of (outputs tx) < 2 ^ 64" using marshal_core_bound [OF core] by simp
  have "da_bytes_of tx \<le> length (marshal_tail tx)" by (simp add: da_bytes_of_def marshal_tail_def)
  then have d: "da_bytes_of tx < 2 ^ 64" using marshal_tail_bound [OF assms] by simp
  have "tx_weight_and_stats tx = Ok (of_nat (tx_weight_of tx), of_nat (da_bytes_of tx), of_nat (anchor_bytes_of (outputs tx)))"
    unfolding tx_weight_of_def by (rule tx_weight_and_stats_eq [OF assms])
  then show ?thesis
    using w a d by (cases st') (auto simp: add_tx_stats_def add_block_resource_stat_def checked_add_Some unat_of_nat)
qed

lemma accumulate_fold:
  assumes "list_all wf_tx txs"
  shows "try_fold add_tx_stats st txs = Ok st' \<longleftrightarrow>
    unat (bts_sum_weight st') = unat (bts_sum_weight st) + (\<Sum>tx\<leftarrow>txs. tx_weight_of tx) \<and>
    unat (bts_sum_da st') = unat (bts_sum_da st) + (\<Sum>tx\<leftarrow>txs. da_bytes_of tx) \<and>
    unat (bts_sum_anchor st') = unat (bts_sum_anchor st) + (\<Sum>tx\<leftarrow>txs. anchor_bytes_of (outputs tx))"
  using assms
proof (induction txs arbitrary: st)
  case Nil
  then show ?case by (cases st; cases st') (auto simp: word_unat_eq_iff)
next
  case (Cons tx txs)
  let ?m = "\<lparr>bts_sum_weight = bts_sum_weight st + of_nat (tx_weight_of tx), bts_sum_da = bts_sum_da st + of_nat (da_bytes_of tx),
    bts_sum_anchor = bts_sum_anchor st + of_nat (anchor_bytes_of (outputs tx))\<rparr>"
  have step: "add_tx_stats st tx = Ok ?m"
    if "unat (bts_sum_weight st) + tx_weight_of tx \<le> unat a" "unat (bts_sum_da st) + da_bytes_of tx \<le> unat b"
      "unat (bts_sum_anchor st) + anchor_bytes_of (outputs tx) \<le> unat c" for a b c :: u64
    using that unsigned_less [of a, where 'a = nat] unsigned_less [of b, where 'a = nat] unsigned_less [of c, where 'a = nat] Cons.prems
    by (simp add: add_tx_stats_iff unat_word_ariths unat_of_nat)
  show ?case (is "?l \<longleftrightarrow> ?r")
  proof
    assume ?l
    then obtain m where "add_tx_stats st tx = Ok m" "try_fold add_tx_stats m txs = Ok st'" by auto
    then show ?r using Cons by (simp add: add_tx_stats_iff)
  next
    assume r: ?r
    then have m: "add_tx_stats st tx = Ok ?m" using step [of "bts_sum_weight st'" "bts_sum_da st'" "bts_sum_anchor st'"] by simp
    then have "try_fold add_tx_stats ?m txs = Ok st'" using Cons r by (simp add: add_tx_stats_iff [of tx st ?m])
    then show ?l using m by simp
  qed
qed

text \<open>The commitment to the witnesses of a block; the coinbase counts as zero.\<close>

definition witness_commitment :: "(bytes \<Rightarrow> bytes32) \<Rightarrow> bytes32 list \<Rightarrow> bytes32" where
  "witness_commitment H wtxids = H (ascii ''RUBIN-WITNESS/'' @ mth H 2 3 (replicate 32 0 # tl wtxids))"

definition commits_to :: "bytes32 \<Rightarrow> Tx \<Rightarrow> bool" where
  "commits_to c coinbase \<longleftrightarrow>
    length (filter (\<lambda>out. out_covenant_type out = COV_TYPE_ANCHOR \<and> out_covenant_data out = c) (outputs coinbase)) = 1"

text \<open>The first transaction is the coinbase of this height, and no other one is a coinbase.\<close>

definition coinbase_rules :: "u64 \<Rightarrow> Tx list \<Rightarrow> bool" where
  "coinbase_rules height txs \<longleftrightarrow> (\<exists>coinbase rest. txs = coinbase # rest \<and>
    is_coinbase_tx coinbase \<and> outputs coinbase \<noteq> [] \<and> unat (locktime coinbase) = unat height)"

definition rest_rules :: "Tx list \<Rightarrow> bool" where
  "rest_rules rest \<longleftrightarrow> list_all (\<lambda>tx. \<not> is_coinbase_tx tx \<and> inputs tx \<noteq> []) rest \<and> distinct (map tx_nonce rest)"

definition header_rules :: "(bytes \<Rightarrow> bytes32) \<Rightarrow> ParsedBlock \<Rightarrow> bytes32 option \<Rightarrow> bytes32 option \<Rightarrow> bool" where
  "header_rules H pb prev tgt \<longleftrightarrow>
    be_nat (H (pb_header_bytes pb)) < be_nat (target (pb_header pb)) \<and>
    (tgt = None \<or> tgt = Some (target (pb_header pb))) \<and> (prev = None \<or> prev = Some (prev_block_hash (pb_header pb))) \<and>
    merkle_root (pb_header pb) = mth H 0 1 (pb_txids pb)"

definition resource_rules :: "Tx list \<Rightarrow> bool" where
  "resource_rules txs \<longleftrightarrow> (\<Sum>tx\<leftarrow>txs. tx_weight_of tx) \<le> 68000000 \<and> (\<Sum>tx\<leftarrow>txs. da_bytes_of tx) \<le> 32000000 \<and>
    (\<Sum>tx\<leftarrow>txs. anchor_bytes_of (outputs tx)) \<le> 131072"

definition preflight_rules ::
  "(bytes \<Rightarrow> bytes32) \<Rightarrow> ParsedBlock \<Rightarrow> bytes32 option \<Rightarrow> bytes32 option \<Rightarrow> u64 \<Rightarrow> u64 list option \<Rightarrow> bool" where
  "preflight_rules H pb prev tgt height prev_timestamps \<longleftrightarrow> header_rules H pb prev tgt \<and>
    commits_to (witness_commitment H (pb_wtxids pb)) (hd (pb_txs pb)) \<and>
    time_ok (timestamp (pb_header pb)) height prev_timestamps \<and> resource_rules (pb_txs pb) \<and> da_sets_complete H (pb_txs pb)"

lemma header_rules_iff:
  assumes "biguint_spec L" and "\<And>x. length (H x) = 32" and "wf_parsed_block H pb"
  shows "validate_header_commitments L H pb prev tgt = Ok () \<longleftrightarrow> header_rules H pb prev tgt"
proof -
  have p: "pow_check L H (pb_header_bytes pb) (target (pb_header pb)) = Ok () \<longleftrightarrow>
      be_nat (H (pb_header_bytes pb)) < be_nat (target (pb_header pb))"
    using pow_check_ok [OF assms(1,2), of "target (pb_header pb)"] assms(3)
    by (simp add: wf_parsed_block_def header_bytes_of_def)
  have "pb_txids pb \<noteq> []" using assms(3) by (auto simp: wf_parsed_block_def)
  then have "merkle_root_txids H (pb_txids pb) = Ok (mth H 0 1 (pb_txids pb))"
    by (simp add: merkle_root_txids_def merkle_root_tagged_def merkle_levels_mth)
  then show ?thesis
    using p by (auto simp: validate_header_commitments_def header_rules_def split: option.splits)
qed

lemma commitment_rule_iff:
  assumes "\<And>x. length (H x) = 32" and "wf_parsed_block H pb"
  shows "validate_coinbase_witness_commitment H pb = Ok () \<longleftrightarrow> commits_to (witness_commitment H (pb_wtxids pb)) (hd (pb_txs pb))"
proof -
  obtain cb rest where txs: "pb_txs pb = cb # rest" using assms(2) by (cases "pb_txs pb") (auto simp: wf_parsed_block_def)
  obtain w ws where wtx: "pb_wtxids pb = w # ws" using assms(2) txs by (auto simp: wf_parsed_block_def)
  have "witness_merkle_root_wtxids H (pb_wtxids pb) = Ok (mth H 2 3 (replicate 32 0 # tl (pb_wtxids pb)))"
    using merkle_levels_mth [of "replicate 32 0 # ws" H 3 2]
    by (simp add: wtx witness_merkle_root_wtxids_def merkle_root_tagged_def)
  moreover have "is_witness_commitment_match out (witness_commitment H (pb_wtxids pb)) \<longleftrightarrow>
      out_covenant_type out = COV_TYPE_ANCHOR \<and> out_covenant_data out = witness_commitment H (pb_wtxids pb)" for out
    using assms(1) by (auto simp: is_witness_commitment_match_def witness_commitment_def)
  moreover have "length (take 2 xs) = 1 \<longleftrightarrow> length xs = 1" for xs :: "TxOutput list" by (auto simp: min_def)
  moreover have "witness_commitment_hash H (mth H 2 3 (replicate 32 0 # tl (pb_wtxids pb))) = witness_commitment H (pb_wtxids pb)"
    by (simp add: witness_commitment_hash_def witness_commitment_def)
  moreover have "pb_wtxids pb \<noteq> []" by (simp add: wtx)
  ultimately show ?thesis
    by (simp add: validate_coinbase_witness_commitment_def txs first_or_def Let_def commits_to_def)
qed

lemma coinbase_rules_iff: "validate_coinbase_structure pb height = Ok () \<longleftrightarrow> coinbase_rules height (pb_txs pb)"
proof (cases "pb_txs pb")
  case (Cons cb rest)
  have "unat height < 2 ^ 32 \<and> locktime cb = ucast height \<longleftrightarrow> unat (locktime cb) = unat height"
    using unsigned_less [of "locktime cb", where 'a = nat] by (auto simp: word_unat_eq_iff unat_ucast)
  then show ?thesis
    by (auto simp: Cons validate_coinbase_structure_def coinbase_rules_def first_or_def not_le)
qed (simp add: validate_coinbase_structure_def coinbase_rules_def first_or_def missing_coinbase_def)

lemma non_coinbase_iff:
  "validate_non_coinbase_block_tx tx seen = Ok seen' \<longleftrightarrow>
    \<not> is_coinbase_tx tx \<and> inputs tx \<noteq> [] \<and> tx_nonce tx \<notin> seen \<and> seen' = insert (tx_nonce tx) seen"
  by (auto simp: validate_non_coinbase_block_tx_def validate_non_coinbase_nonce_and_input_count_def)

lemma preflight_iff:
  assumes "biguint_spec L" and "\<And>x. length (H x) = 32" and "wf_parsed_block H pb"
  shows "validate_parsed_block_preflight L H pb prev tgt height prev_timestamps = Ok stats \<longleftrightarrow>
    preflight_rules H pb prev tgt height prev_timestamps \<and>
    unat (bts_sum_weight stats) = (\<Sum>tx\<leftarrow>pb_txs pb. tx_weight_of tx) \<and>
    unat (bts_sum_da stats) = (\<Sum>tx\<leftarrow>pb_txs pb. da_bytes_of tx) \<and>
    unat (bts_sum_anchor stats) = (\<Sum>tx\<leftarrow>pb_txs pb. anchor_bytes_of (outputs tx))"
proof -
  have "list_all wf_tx (pb_txs pb)" using assms(3) by (simp add: wf_parsed_block_def)
  then have acc: "accumulate_block_resource_stats pb = Ok stats \<longleftrightarrow>
      unat (bts_sum_weight stats) = (\<Sum>tx\<leftarrow>pb_txs pb. tx_weight_of tx) \<and>
      unat (bts_sum_da stats) = (\<Sum>tx\<leftarrow>pb_txs pb. da_bytes_of tx) \<and>
      unat (bts_sum_anchor stats) = (\<Sum>tx\<leftarrow>pb_txs pb. anchor_bytes_of (outputs tx))"
    by (simp add: accumulate_block_resource_stats_def accumulate_fold)
  have lim: "validate_block_resource_limits stats = Ok () \<longleftrightarrow> resource_rules (pb_txs pb)"
    if "accumulate_block_resource_stats pb = Ok stats"
    using that unfolding acc
    by (simp add: validate_block_resource_limits_def resource_rules_def word_less_nat_alt not_less)
  have "validate_parsed_block_preflight L H pb prev tgt height prev_timestamps = Ok stats \<longleftrightarrow>
      header_rules H pb prev tgt \<and> commits_to (witness_commitment H (pb_wtxids pb)) (hd (pb_txs pb)) \<and>
      time_ok (timestamp (pb_header pb)) height prev_timestamps \<and> accumulate_block_resource_stats pb = Ok stats \<and>
      resource_rules (pb_txs pb) \<and> da_sets_complete H (pb_txs pb)"
    using header_rules_iff [OF assms] commitment_rule_iff [OF assms(2,3)] lim
    by (auto simp: validate_parsed_block_preflight_def time_ok_iff da_set_complete_iff)
  then show ?thesis unfolding acc preflight_rules_def by blast
qed

lemma semantics_iff:
  "validate_block_tx_semantics pb height rotation = Ok () \<longleftrightarrow> coinbase_rules height (pb_txs pb) \<and>
    rest_rules (tl (pb_txs pb)) \<and> list_all (\<lambda>tx. validate_tx_covenants_genesis tx height rotation = Ok ()) (pb_txs pb)"
proof (cases "pb_txs pb")
  case (Cons cb rest)
  let ?step = "\<lambda>seen tx. and_then (validate_non_coinbase_block_tx tx seen) (\<lambda>seen.
      and_then (validate_tx_covenants_genesis tx height rotation) (\<lambda>_. Ok seen))"
  have "(\<exists>seen'. try_fold ?step seen txs = Ok seen') \<longleftrightarrow>
      rest_rules txs \<and> tx_nonce ` set txs \<inter> seen = {} \<and> list_all (\<lambda>tx. validate_tx_covenants_genesis tx height rotation = Ok ()) txs"
    for seen and txs :: "Tx list"
    by (induction txs arbitrary: seen) (auto simp: rest_rules_def non_coinbase_iff)
  from this [of "{}" rest] show ?thesis
    using Cons
    by (auto simp: validate_block_tx_semantics_def validate_coinbase_block_tx_semantics_def coinbase_rules_iff first_or_def)
qed (simp add: validate_block_tx_semantics_def validate_coinbase_block_tx_semantics_def coinbase_rules_iff coinbase_rules_def)

text \<open>
  C9: a block passes the basic validation exactly when it parses and obeys the rules of
  the protocol, whatever the order of the checks. Its hash is below its target, the
  target and the parent are the expected ones, the header commits to the list of
  transactions and the coinbase exactly once to their witnesses; its time is above
  the median of the previous eleven and at most two hours ahead of it; weight, payload
  and anchor bytes, as exact sums, are within their limits; the data-availability sets
  are complete; the first transaction is the coinbase of that height, no other is, every
  other has an input and its own nonce; and every output obeys the creation rules.
  The summary reports the exact sums and the hash.
\<close>

theorem block_accepted_iff:
  assumes "biguint_spec L" and "\<And>x. length (H x) = 32"
  shows "validate_block_basic_with_context_at_height_and_rotation L H b prev tgt height prev_timestamps rotation = Ok s \<longleftrightarrow>
    (\<exists>pb. parse_block_bytes H b = Ok pb \<and> preflight_rules H pb prev tgt height prev_timestamps \<and>
      coinbase_rules height (pb_txs pb) \<and> rest_rules (tl (pb_txs pb)) \<and>
      list_all (\<lambda>tx. validate_tx_covenants_genesis tx height rotation = Ok ()) (pb_txs pb) \<and>
      bbs_tx_count s = len64 (pb_txs pb) \<and> unat (bbs_sum_weight s) = (\<Sum>tx\<leftarrow>pb_txs pb. tx_weight_of tx) \<and>
      unat (bbs_sum_da s) = (\<Sum>tx\<leftarrow>pb_txs pb. da_bytes_of tx) \<and> bbs_block_hash s = H (pb_header_bytes pb))"
proof -
  have hash: "block_hash H (pb_header_bytes pb) = Ok (H (pb_header_bytes pb))" if "wf_parsed_block H pb" for pb
    using that by (simp add: wf_parsed_block_def header_bytes_of_def block_hash_def BLOCK_HEADER_BYTES_def)
  have step: "validate_parsed_block_basic_with_context_at_height L H pb prev tgt height prev_timestamps rotation = Ok s \<longleftrightarrow>
      preflight_rules H pb prev tgt height prev_timestamps \<and>
      coinbase_rules height (pb_txs pb) \<and> rest_rules (tl (pb_txs pb)) \<and>
      list_all (\<lambda>tx. validate_tx_covenants_genesis tx height rotation = Ok ()) (pb_txs pb) \<and>
      bbs_tx_count s = len64 (pb_txs pb) \<and> unat (bbs_sum_weight s) = (\<Sum>tx\<leftarrow>pb_txs pb. tx_weight_of tx) \<and>
      unat (bbs_sum_da s) = (\<Sum>tx\<leftarrow>pb_txs pb. da_bytes_of tx) \<and> bbs_block_hash s = H (pb_header_bytes pb)"
    if w: "wf_parsed_block H pb" for pb
  proof -
    let ?anchor = "\<Sum>tx\<leftarrow>pb_txs pb. anchor_bytes_of (outputs tx)"
    have "preflight_rules H pb prev tgt height prev_timestamps \<Longrightarrow> \<exists>a :: u64. unat a = ?anchor"
      by (rule exI [of _ "of_nat ?anchor"]) (simp add: preflight_rules_def resource_rules_def unat_of_nat)
    moreover have "pb_tx_count pb = len64 (pb_txs pb)" using w by (simp add: wf_parsed_block_def)
    ultimately show ?thesis
      unfolding validate_parsed_block_basic_with_context_at_height_def validate_parsed_block_basic_checks_def
      using preflight_iff [OF assms w, of prev tgt height prev_timestamps]
        preflight_iff [OF assms w, of prev tgt height prev_timestamps
          "\<lparr>bts_sum_weight = bbs_sum_weight s, bts_sum_da = bbs_sum_da s, bts_sum_anchor = a\<rparr>" for a]
      by (cases s) (fastforce simp: hash [OF w] semantics_iff)
  qed
  show ?thesis
    unfolding validate_block_basic_with_context_at_height_and_rotation_def
    using step parse_block_sound by auto
qed

text \<open>A block of height 7 whose coinbase pays 5 to a key and carries the witness commitment.\<close>

definition zero_hash :: "bytes \<Rightarrow> bytes32" where
  "zero_hash x = replicate 32 0"

definition demo_coinbase :: Tx where
  "demo_coinbase = \<lparr>version = 1, tx_kind = 0, tx_nonce = 0,
    inputs = [\<lparr>prev_txid = replicate 32 0, prev_vout = - 1, script_sig = [], sequence = - 1\<rparr>],
    outputs = [\<lparr>out_value = 5, out_covenant_type = COV_TYPE_P2PK, out_covenant_data = 1 # replicate 32 2\<rparr>,
      \<lparr>out_value = 0, out_covenant_type = COV_TYPE_ANCHOR, out_covenant_data = replicate 32 0\<rparr>],
    locktime = 7, da_commit_core = None, da_chunk_core = None, witness = [], da_payload = []\<rparr>"

definition demo_block :: ParsedBlock where
  "demo_block = (let h = \<lparr>hdr_version = 1, prev_block_hash = replicate 32 3, merkle_root = replicate 32 0,
      timestamp = 9, target = replicate 32 1, nonce = 0\<rparr> in
    \<lparr>pb_header = h, pb_header_bytes = header_bytes_of h, pb_tx_count = 1, pb_txs = [demo_coinbase],
     pb_txids = [replicate 32 0], pb_wtxids = [replicate 32 0]\<rparr>)"

lemma demo_coinbase_wf: "wf_tx demo_coinbase"
  by (simp add: demo_coinbase_def wf_tx_def wf_core_def wf_input_def wf_output_def wf_witnesses_def wf_payload_def)

lemma demo_coinbase_sizes:
  "tx_weight_of demo_coinbase = 590" "da_bytes_of demo_coinbase = 0" "anchor_bytes_of (outputs demo_coinbase) = 32"
  by (simp_all add: tx_weight_of_def marshal_core_def marshal_tail_def demo_coinbase_def marshal_input_def marshal_output_def
      length_encode_compact_size da_bytes_of_def anchor_bytes_of_def is_anchor_counted_output_def)

lemma demo_block_parses: "parse_block_bytes zero_hash (block_encoding demo_block) = Ok demo_block"
proof (rule parse_block_complete)
  show "wf_parsed_block zero_hash demo_block"
    using demo_coinbase_wf by (simp add: wf_parsed_block_def demo_block_def Let_def zero_hash_def)
  have "length (marshal_core demo_coinbase) \<le> 70000000" "length (marshal_tail demo_coinbase) \<le> 700000"
    using marshal_core_bound [of demo_coinbase] marshal_tail_bound [OF demo_coinbase_wf] demo_coinbase_wf by (simp_all add: wf_tx_def)
  then show "length (block_encoding demo_block) \<le> usize_max + 116"
    by (simp add: block_encoding_def demo_block_def Let_def header_bytes_of_def length_encode_compact_size usize_max_def)
qed simp

lemma demo_block_preflight:
  "preflight_rules zero_hash demo_block (Some (replicate 32 3)) (Some (replicate 32 1)) 7 (Some [8, 1, 2, 3, 4, 5, 6])"
proof -
  have "be_nat (replicate 32 0) < be_nat (replicate 32 1)"
    by (subst bytes_less_be_nat [symmetric]) (simp_all add: numeral_eq_Suc)
  moreover have "mth zero_hash 0 1 [x] = replicate 32 0" for x by (simp add: mth.simps zero_hash_def)
  moreover have "witness_commitment zero_hash w = replicate 32 0" for w by (simp add: witness_commitment_def zero_hash_def)
  moreover have "time_ok 9 7 (Some [8, 1, 2, 3, 4, 5, 6])"
    by (simp add: time_ok_def median_of_def Let_def word_less_nat_alt word_le_nat_alt)
  moreover have "da_sets_complete zero_hash [demo_coinbase]"
    by (simp add: da_sets_complete_def chunk_ids_def commit_ids_def commit_txs_def chunk_txs_def demo_coinbase_def)
  ultimately show ?thesis
    by (simp add: preflight_rules_def header_rules_def resource_rules_def demo_coinbase_sizes demo_block_def Let_def zero_hash_def)
      (simp add: commits_to_def demo_coinbase_def)
qed

theorem block_accepted_iff_witness:
  "\<exists>s. validate_block_basic_with_context_at_height_and_rotation be_lib zero_hash (block_encoding demo_block)
      (Some (replicate 32 3)) (Some (replicate 32 1)) 7 (Some [8, 1, 2, 3, 4, 5, 6]) None = Ok s \<and> unat (bbs_sum_weight s) = 590"
proof -
  have len: "length (zero_hash x) = 32" for x by (simp add: zero_hash_def)
  have txs: "pb_txs demo_block = [demo_coinbase]" by (simp add: demo_block_def Let_def)
  have g: "validate_tx_covenants_genesis demo_coinbase 7 None = Ok ()"
    by (auto simp: validate_tx_covenants_genesis_def demo_coinbase_def genesis_output_step_def validate_p2pk_anchor_def
        validate_simplicity_output_group_cap_def word_less_nat_alt MAX_P2PK_COVENANT_DATA_def SUITE_ID_ML_DSA_87_def)
  have c: "coinbase_rules 7 [demo_coinbase]" "rest_rules []"
    by (simp_all add: coinbase_rules_def rest_rules_def demo_coinbase_def is_coinbase_tx_def has_coinbase_tx_shape_def
        has_coinbase_input_shape_def)
  let ?s = "\<lparr>bbs_tx_count = 1, bbs_sum_weight = 590, bbs_sum_da = 0, bbs_block_hash = zero_hash (pb_header_bytes demo_block)\<rparr>"
  have "validate_block_basic_with_context_at_height_and_rotation be_lib zero_hash (block_encoding demo_block)
      (Some (replicate 32 3)) (Some (replicate 32 1)) 7 (Some [8, 1, 2, 3, 4, 5, 6]) None = Ok ?s"
    unfolding block_accepted_iff [OF be_lib_spec len]
    by (rule exI [of _ demo_block]) (use demo_block_parses demo_block_preflight c g in \<open>simp add: txs demo_coinbase_sizes\<close>)
  then show ?thesis by (rule exI [where x = ?s, OF conjI]) simp
qed

end
