(* ===== verification/Connect.thy ===== *)
theory Connect
  imports Block_Basic Utxo
begin

text \<open>
  Connecting a block to an in-memory chain state (\<^verbatim>\<open>connect_block_inmem.rs\<close> and the
  coinbase part of \<^verbatim>\<open>block_basic/orchestration.rs\<close>): the sequential path and the path
  that queues the signatures of the whole block and checks them on a worker pool at
  the end. The state is returned beside the result; \<open>None\<close> is the panic of a flush.
\<close>

section \<open>State and context\<close>

record InMemoryChainState =
  cs_utxos :: utxo_set
  cs_already_generated :: u128

record ConnectBlockBasicSummary =
  cb_sum_fees :: u128
  cb_already_generated :: u128
  cb_already_generated_n1 :: u128
  cb_utxo_count :: u64
  cb_post_state_digest :: bytes32
  cb_sig_task_count :: u64
  cb_worker_panics :: u64

record ConnectBlockContext =
  cc_expected_prev_hash :: "bytes32 option"
  cc_expected_target :: "bytes32 option"
  cc_block_height :: u64
  cc_prev_timestamps :: "u64 list option"
  cc_chain_id :: bytes32
  cc_rotation :: "RotationProvider option"
  cc_registry :: "SuiteRegistry option"

record PreparedConnectBlock =
  pc_pb :: ParsedBlock
  pc_block_height :: u64
  pc_already_generated :: u128
  pc_block_mtp :: u64

section \<open>The digest of the state\<close>

definition UTXO_SET_HASH_DST :: bytes where
  "UTXO_SET_HASH_DST = ascii ''RUBINv1-utxo-set-hash/''"

definition utxo_key :: "Outpoint \<Rightarrow> bytes" where
  "utxo_key op = op_txid op @ to_le32 (op_vout op)"

definition utxo_entry_bytes :: "UtxoEntry \<Rightarrow> bytes" where
  "utxo_entry_bytes entry = to_le64 (ue_value entry) @ to_le16 (ue_covenant_type entry) @
    encode_compact_size (len64 (ue_covenant_data entry)) @ ue_covenant_data entry @
    to_le64 (creation_height entry) @ [if created_by_coinbase entry then 1 else 0]"

definition utxo_set_bytes :: "utxo_set \<Rightarrow> bytes" where
  "utxo_set_bytes utxos =
    (let items = map (\<lambda>op. (utxo_key op, the (utxos op))) (sorted_key_list_of_set utxo_key (dom utxos)) in
     UTXO_SET_HASH_DST @ to_le64 (len64 items) @ concat (map (\<lambda>(key, entry). key @ utxo_entry_bytes entry) items))"

definition utxo_set_hash :: "(bytes \<Rightarrow> bytes32) \<Rightarrow> utxo_set \<Rightarrow> bytes32" where
  "utxo_set_hash H utxos = H (utxo_set_bytes utxos)"

section \<open>The coinbase\<close>

definition coinbase_and_txid :: "ParsedBlock \<Rightarrow> (Tx \<times> bytes32) res" where
  "coinbase_and_txid pb =
    and_then (first_or missing_coinbase (pb_txs pb)) (\<lambda>coinbase.
    and_then (first_or (TxError_new BlockErrParse ''missing coinbase txid'') (pb_txids pb)) (\<lambda>txid.
    Ok (coinbase, txid)))"

text \<open>The body of the loop over the coinbase outputs: the program roots seen and the local set.\<close>

definition apply_coinbase_output ::
  "u8 \<Rightarrow> bytes32 \<Rightarrow> u64 \<Rightarrow> RotationProvider \<Rightarrow> bytes32 list \<times> utxo_set \<Rightarrow> nat \<times> TxOutput \<Rightarrow> (bytes32 list \<times> utxo_set) res" where
  "apply_coinbase_output kind coinbase_txid block_height rp = (\<lambda>(cmrs, work_utxos) (index, out).
    and_then (validate_coinbase_apply_outputs [out]) (\<lambda>_.
    and_then (validate_tx_output_covenant_genesis kind out block_height rp) (\<lambda>cmr.
    let cmrs = (case cmr of Some program_cmr \<Rightarrow> cmrs @ [program_cmr] | None \<Rightarrow> cmrs) in
    if out_covenant_type out = COV_TYPE_ANCHOR \<or> out_covenant_type out = COV_TYPE_DA_COMMIT then Ok (cmrs, work_utxos)
    else if index \<ge> 2 ^ 32 then Err BlockErrParse ''coinbase output index exceeds u32''
    else Ok (cmrs, work_utxos(\<lparr>op_txid = coinbase_txid, op_vout = of_nat index\<rparr> \<mapsto>
      \<lparr>ue_value = out_value out, ue_covenant_type = out_covenant_type out, ue_covenant_data = out_covenant_data out,
       creation_height = block_height, created_by_coinbase = True\<rparr>)))))"

definition apply_coinbase_outputs :: "ParsedBlock \<Rightarrow> utxo_set \<Rightarrow> u64 \<Rightarrow> RotationProvider option \<Rightarrow> utxo_set res" where
  "apply_coinbase_outputs pb work_utxos block_height rotation =
    and_then (coinbase_and_txid pb) (\<lambda>(coinbase, coinbase_txid).
    let rp = rotation_or_default rotation in
    and_then (try_fold (apply_coinbase_output (tx_kind coinbase) coinbase_txid block_height rp)
      ([], work_utxos) (List.enumerate 0 (outputs coinbase))) (\<lambda>(cmrs, work_utxos).
    and_then (validate_simplicity_output_group_cap cmrs) (\<lambda>_. Ok work_utxos)))"

section \<open>Preparing and finishing\<close>

definition prepare_connect_block ::
  "BigUintLib \<Rightarrow> (bytes \<Rightarrow> bytes32) \<Rightarrow> bytes \<Rightarrow> u128 \<Rightarrow> ConnectBlockContext \<Rightarrow> PreparedConnectBlock res" where
  "prepare_connect_block L H block_bytes already_generated ctx =
    and_then (parse_block_bytes H block_bytes) (\<lambda>pb.
    and_then (validate_connect_preflight L H pb (cc_expected_prev_hash ctx) (cc_expected_target ctx)
      (cc_block_height ctx) (cc_prev_timestamps ctx)) (\<lambda>_.
    if pb_txs pb = [] \<or> length (pb_txids pb) \<noteq> length (pb_txs pb) then Err BlockErrParse ''invalid parsed block''
    else and_then (median_time_past (cc_block_height ctx) (cc_prev_timestamps ctx)) (\<lambda>m.
    Ok \<lparr>pc_pb = pb, pc_block_height = cc_block_height ctx, pc_already_generated = already_generated,
      pc_block_mtp = (case m of Some mtp \<Rightarrow> mtp | None \<Rightarrow> timestamp (pb_header pb))\<rparr>)))"

definition add_block_fee :: "u128 \<Rightarrow> u128 \<Rightarrow> u128 res" where
  "add_block_fee sum_fees tx_fee = ok_or (TxError_new BlockErrParse ''sum_fees overflow'') (checked_add sum_fees tx_fee)"

definition already_generated_after_block :: "u64 \<Rightarrow> u128 \<Rightarrow> u128 res" where
  "already_generated_after_block block_height already_generated =
    (if block_height \<noteq> 0
     then ok_or (TxError_new BlockErrParse ''already_generated overflow'')
       (checked_add already_generated (ucast (block_subsidy block_height already_generated)))
     else Ok already_generated)"

definition finalize_connected_block ::
  "(bytes \<Rightarrow> bytes32) \<Rightarrow> PreparedConnectBlock \<Rightarrow> utxo_set \<Rightarrow> u128 \<Rightarrow> u64 \<Rightarrow> (InMemoryChainState, ConnectBlockBasicSummary) st" where
  "finalize_connected_block H prepared work_utxos sum_fees sig_task_count state =
    (case and_then (validate_coinbase_value_bound (pc_pb prepared) (pc_block_height prepared) (pc_already_generated prepared) sum_fees)
       (\<lambda>_. already_generated_after_block (pc_block_height prepared) (pc_already_generated prepared)) of
       Inl e \<Rightarrow> (Inl e, state)
     | Inr n1 \<Rightarrow>
       let state = state\<lparr>cs_utxos := work_utxos\<rparr>;
           state = (if pc_block_height prepared \<noteq> 0 then state\<lparr>cs_already_generated := n1\<rparr> else state) in
       (Ok \<lparr>cb_sum_fees = sum_fees, cb_already_generated = pc_already_generated prepared, cb_already_generated_n1 = n1,
          cb_utxo_count = of_nat (card (dom (cs_utxos state))), cb_post_state_digest = utxo_set_hash H (cs_utxos state),
          cb_sig_task_count = sig_task_count, cb_worker_panics = 0\<rparr>, state))"

section \<open>The sequential path\<close>

text \<open>The body of the loop: the set so far (\<open>None\<close> before the first transaction), the fees and the nonces.\<close>

definition apply_block_tx ::
  "OpenSSL \<Rightarrow> (bytes \<Rightarrow> bytes32) \<Rightarrow> ParsedBlock \<Rightarrow> utxo_set \<Rightarrow> u64 \<Rightarrow> u64 \<Rightarrow> bytes32 \<Rightarrow> RotationProvider option \<Rightarrow>
   SuiteRegistry option \<Rightarrow> utxo_set option \<times> u128 \<times> u64 set \<Rightarrow> Tx \<times> bytes32 \<Rightarrow> (utxo_set option \<times> u128 \<times> u64 set) res" where
  "apply_block_tx ssl H pb state_utxos block_height block_mtp chain_id rotation registry =
    (\<lambda>(work_utxos, sum_fees, seen_nonces) (tx, txid).
    and_then (validate_non_coinbase_block_tx tx seen_nonces) (\<lambda>seen_nonces.
    let base_utxos = (case work_utxos of Some w \<Rightarrow> w | None \<Rightarrow> state_utxos) in
    and_then (apply_with_suite_context ssl H tx txid base_utxos block_height (timestamp (pb_header pb)) block_mtp chain_id
      rotation registry) (\<lambda>(next_utxos, summary).
    and_then (add_block_fee sum_fees (fee summary)) (\<lambda>sum_fees.
    Ok (Some next_utxos, sum_fees, seen_nonces)))))"

definition apply_non_coinbase_txs_sequential ::
  "OpenSSL \<Rightarrow> (bytes \<Rightarrow> bytes32) \<Rightarrow> ParsedBlock \<Rightarrow> utxo_set \<Rightarrow> u64 \<Rightarrow> u64 \<Rightarrow> bytes32 \<Rightarrow> RotationProvider option \<Rightarrow>
   SuiteRegistry option \<Rightarrow> (utxo_set \<times> u128) res" where
  "apply_non_coinbase_txs_sequential ssl H pb state_utxos block_height block_mtp chain_id rotation registry =
    and_then (try_fold (apply_block_tx ssl H pb state_utxos block_height block_mtp chain_id rotation registry)
      (None, 0, {}) (drop 1 (zip (pb_txs pb) (pb_txids pb)))) (\<lambda>(work_utxos, sum_fees, _).
    Ok (case work_utxos of Some w \<Rightarrow> w | None \<Rightarrow> state_utxos, sum_fees))"

definition apply_coinbase_then_non_coinbase_txs_sequential ::
  "OpenSSL \<Rightarrow> (bytes \<Rightarrow> bytes32) \<Rightarrow> ParsedBlock \<Rightarrow> utxo_set \<Rightarrow> u64 \<Rightarrow> u64 \<Rightarrow> bytes32 \<Rightarrow> RotationProvider option \<Rightarrow>
   SuiteRegistry option \<Rightarrow> (utxo_set \<times> u128) res" where
  "apply_coinbase_then_non_coinbase_txs_sequential ssl H pb state_utxos block_height block_mtp chain_id rotation registry =
    and_then (apply_coinbase_outputs pb state_utxos block_height rotation) (\<lambda>work_utxos.
    apply_non_coinbase_txs_sequential ssl H pb work_utxos block_height block_mtp chain_id rotation registry)"

definition connect_block_basic_in_memory_with_context ::
  "BigUintLib \<Rightarrow> OpenSSL \<Rightarrow> (bytes \<Rightarrow> bytes32) \<Rightarrow> bytes \<Rightarrow> ConnectBlockContext \<Rightarrow>
   (InMemoryChainState, ConnectBlockBasicSummary) st" where
  "connect_block_basic_in_memory_with_context L ssl H block_bytes ctx state =
    (case and_then (prepare_connect_block L H block_bytes (cs_already_generated state) ctx) (\<lambda>prepared.
       and_then (apply_coinbase_then_non_coinbase_txs_sequential ssl H (pc_pb prepared) (cs_utxos state)
         (pc_block_height prepared) (pc_block_mtp prepared) (cc_chain_id ctx) (cc_rotation ctx) (cc_registry ctx))
         (\<lambda>(work_utxos, sum_fees). Ok (prepared, work_utxos, sum_fees))) of
       Inl e \<Rightarrow> (Inl e, state)
     | Inr (prepared, work_utxos, sum_fees) \<Rightarrow> finalize_connected_block H prepared work_utxos sum_fees 0 state)"

section \<open>The parallel path\<close>

fun collect_queued_txs ::
  "OpenSSL \<Rightarrow> (bytes \<Rightarrow> bytes32) \<Rightarrow> PreparedConnectBlock \<Rightarrow> ConnectBlockContext \<Rightarrow> (Tx \<times> bytes32) list \<Rightarrow>
   utxo_set \<Rightarrow> u128 \<Rightarrow> u64 set \<Rightarrow> SigCheckQueue \<Rightarrow> (utxo_set \<times> u128) res \<times> SigCheckQueue" where
  "collect_queued_txs ssl H prepared ctx [] work_utxos sum_fees seen_nonces q = (Ok (work_utxos, sum_fees), q)"
| "collect_queued_txs ssl H prepared ctx ((tx, txid) # rest) work_utxos sum_fees seen_nonces q =
    (case validate_non_coinbase_block_tx tx seen_nonces of
       Inl e \<Rightarrow> (Inl e, q)
     | Inr seen_nonces \<Rightarrow>
       (case apply_queued_sigchecks ssl H tx txid work_utxos (pc_block_height prepared)
          (timestamp (pb_header (pc_pb prepared))) (pc_block_mtp prepared) (cc_chain_id ctx) (cc_rotation ctx) (cc_registry ctx) q of
          (Inl e, q) \<Rightarrow> (Inl e, q)
        | (Inr (next_utxos, summary), q) \<Rightarrow>
          (case add_block_fee sum_fees (fee summary) of
             Inl e \<Rightarrow> (Inl e, q)
           | Inr sum_fees \<Rightarrow> collect_queued_txs ssl H prepared ctx rest next_utxos sum_fees seen_nonces q)))"

definition collect_queued_non_coinbase_txs ::
  "OpenSSL \<Rightarrow> (bytes \<Rightarrow> bytes32) \<Rightarrow> PreparedConnectBlock \<Rightarrow> utxo_set \<Rightarrow> ConnectBlockContext \<Rightarrow> SigCheckQueue \<Rightarrow>
   (utxo_set \<times> u128) res \<times> SigCheckQueue" where
  "collect_queued_non_coinbase_txs ssl H prepared state_utxos ctx q =
    collect_queued_txs ssl H prepared ctx (drop 1 (zip (pb_txs (pc_pb prepared)) (pb_txids (pc_pb prepared))))
      state_utxos 0 {} q"

definition apply_non_coinbase_txs_parallel ::
  "nat \<Rightarrow> nat list \<Rightarrow> OpenSSL \<Rightarrow> (bytes \<Rightarrow> bytes32) \<Rightarrow> PreparedConnectBlock \<Rightarrow> utxo_set \<Rightarrow> ConnectBlockContext \<Rightarrow> nat \<Rightarrow>
   (utxo_set \<times> u128 \<times> u64) res option" where
  "apply_non_coinbase_txs_parallel par sched ssl H prepared state_utxos ctx workers =
    (let q = (case cc_registry ctx of
           Some registry \<Rightarrow> with_registry (SigCheckQueue_new par workers) registry
         | None \<Rightarrow> SigCheckQueue_new par workers);
         entry_mark = queue_mark q in
     case collect_queued_non_coinbase_txs ssl H prepared state_utxos ctx q of
       (Inl e, q) \<Rightarrow> let q = rollback_to q entry_mark in Some (Inl e)
     | (Inr (work_utxos, sum_fees), q) \<Rightarrow>
       let sig_task_count = of_nat (queue_len q) in
       (case fst (queue_flush par sched ssl H q) of
          Panicked \<Rightarrow> None
        | Returned r \<Rightarrow> Some (and_then r (\<lambda>_. Ok (work_utxos, sum_fees, sig_task_count)))))"

definition connect_block_parallel_sig_verify_with_context ::
  "nat \<Rightarrow> nat list \<Rightarrow> BigUintLib \<Rightarrow> OpenSSL \<Rightarrow> (bytes \<Rightarrow> bytes32) \<Rightarrow> bytes \<Rightarrow> ConnectBlockContext \<Rightarrow> nat \<Rightarrow>
   InMemoryChainState \<Rightarrow> (ConnectBlockBasicSummary res \<times> InMemoryChainState) option" where
  "connect_block_parallel_sig_verify_with_context par sched L ssl H block_bytes ctx workers state =
    (case and_then (prepare_connect_block L H block_bytes (cs_already_generated state) ctx) (\<lambda>prepared.
       and_then (apply_coinbase_outputs (pc_pb prepared) (cs_utxos state) (pc_block_height prepared) (cc_rotation ctx)) (\<lambda>work_utxos.
       Ok (prepared, work_utxos))) of
       Inl e \<Rightarrow> Some (Inl e, state)
     | Inr (prepared, work_utxos) \<Rightarrow>
       (case apply_non_coinbase_txs_parallel par sched ssl H prepared work_utxos ctx workers of
          None \<Rightarrow> None
        | Some (Inl e) \<Rightarrow> Some (Inl e, state)
        | Some (Inr (work_utxos, sum_fees, sig_task_count)) \<Rightarrow>
          Some (finalize_connected_block H prepared work_utxos sum_fees sig_task_count state)))"

section \<open>Entry points\<close>

definition connect_context ::
  "bytes32 option \<Rightarrow> bytes32 option \<Rightarrow> u64 \<Rightarrow> u64 list option \<Rightarrow> bytes32 \<Rightarrow> RotationProvider option \<Rightarrow> SuiteRegistry option \<Rightarrow>
   ConnectBlockContext" where
  "connect_context prev tgt height prev_timestamps chain_id rotation registry =
    \<lparr>cc_expected_prev_hash = prev, cc_expected_target = tgt, cc_block_height = height, cc_prev_timestamps = prev_timestamps,
     cc_chain_id = chain_id, cc_rotation = rotation, cc_registry = registry\<rparr>"

definition connect_block_basic_in_memory_at_height_with_suite_context ::
  "BigUintLib \<Rightarrow> OpenSSL \<Rightarrow> (bytes \<Rightarrow> bytes32) \<Rightarrow> bytes \<Rightarrow> bytes32 option \<Rightarrow> bytes32 option \<Rightarrow> u64 \<Rightarrow> u64 list option \<Rightarrow>
   bytes32 \<Rightarrow> RotationProvider option \<Rightarrow> SuiteRegistry option \<Rightarrow> (InMemoryChainState, ConnectBlockBasicSummary) st" where
  "connect_block_basic_in_memory_at_height_with_suite_context L ssl H block_bytes prev tgt height prev_timestamps chain_id
      rotation registry =
    connect_block_basic_in_memory_with_context L ssl H block_bytes
      (connect_context prev tgt height prev_timestamps chain_id rotation registry)"

definition connect_block_basic_in_memory_at_height ::
  "BigUintLib \<Rightarrow> OpenSSL \<Rightarrow> (bytes \<Rightarrow> bytes32) \<Rightarrow> bytes \<Rightarrow> bytes32 option \<Rightarrow> bytes32 option \<Rightarrow> u64 \<Rightarrow> u64 list option \<Rightarrow>
   bytes32 \<Rightarrow> (InMemoryChainState, ConnectBlockBasicSummary) st" where
  "connect_block_basic_in_memory_at_height L ssl H block_bytes prev tgt height prev_timestamps chain_id =
    connect_block_basic_in_memory_at_height_with_suite_context L ssl H block_bytes prev tgt height prev_timestamps
      chain_id None None"

definition connect_block_parallel_sig_verify_with_suite_context ::
  "nat \<Rightarrow> nat list \<Rightarrow> BigUintLib \<Rightarrow> OpenSSL \<Rightarrow> (bytes \<Rightarrow> bytes32) \<Rightarrow> bytes \<Rightarrow> bytes32 option \<Rightarrow> bytes32 option \<Rightarrow> u64 \<Rightarrow>
   u64 list option \<Rightarrow> bytes32 \<Rightarrow> RotationProvider option \<Rightarrow> SuiteRegistry option \<Rightarrow> nat \<Rightarrow> InMemoryChainState \<Rightarrow>
   (ConnectBlockBasicSummary res \<times> InMemoryChainState) option" where
  "connect_block_parallel_sig_verify_with_suite_context par sched L ssl H block_bytes prev tgt height prev_timestamps
      chain_id rotation registry workers =
    connect_block_parallel_sig_verify_with_context par sched L ssl H block_bytes
      (connect_context prev tgt height prev_timestamps chain_id rotation registry) workers"

definition connect_block_parallel_sig_verify ::
  "nat \<Rightarrow> nat list \<Rightarrow> BigUintLib \<Rightarrow> OpenSSL \<Rightarrow> (bytes \<Rightarrow> bytes32) \<Rightarrow> bytes \<Rightarrow> bytes32 option \<Rightarrow> bytes32 option \<Rightarrow> u64 \<Rightarrow>
   u64 list option \<Rightarrow> bytes32 \<Rightarrow> nat \<Rightarrow> InMemoryChainState \<Rightarrow> (ConnectBlockBasicSummary res \<times> InMemoryChainState) option" where
  "connect_block_parallel_sig_verify par sched L ssl H block_bytes prev tgt height prev_timestamps chain_id workers =
    connect_block_parallel_sig_verify_with_suite_context par sched L ssl H block_bytes prev tgt height prev_timestamps
      chain_id None None workers"

section \<open>The transactions of a block, one after the other\<close>

fun seq_txs ::
  "OpenSSL \<Rightarrow> (bytes \<Rightarrow> bytes32) \<Rightarrow> u64 \<Rightarrow> u64 \<Rightarrow> u64 \<Rightarrow> bytes32 \<Rightarrow> RotationProvider option \<Rightarrow> SuiteRegistry option \<Rightarrow>
   (Tx \<times> bytes32) list \<Rightarrow> utxo_set \<Rightarrow> u128 \<Rightarrow> u64 set \<Rightarrow> (utxo_set \<times> u128) res" where
  "seq_txs ssl H h ts mtp chain_id rotation registry [] w fees seen = Ok (w, fees)"
| "seq_txs ssl H h ts mtp chain_id rotation registry ((tx, txid) # rest) w fees seen =
    and_then (validate_non_coinbase_block_tx tx seen) (\<lambda>seen.
    and_then (apply_with_suite_context ssl H tx txid w h ts mtp chain_id rotation registry) (\<lambda>(w, sm).
    and_then (add_block_fee fees (fee sm)) (\<lambda>fees.
    seq_txs ssl H h ts mtp chain_id rotation registry rest w fees seen)))"

lemma apply_block_tx_app:
  "apply_block_tx ssl H pb st h mtp chain_id rotation registry (w, fees, seen) (tx, txid) =
    and_then (validate_non_coinbase_block_tx tx seen) (\<lambda>seen.
    and_then (apply_with_suite_context ssl H tx txid (case w of Some w \<Rightarrow> w | None \<Rightarrow> st) h (timestamp (pb_header pb)) mtp
      chain_id rotation registry) (\<lambda>r.
    and_then (add_block_fee fees (fee (snd r))) (\<lambda>fees. Ok (Some (fst r), fees, seen))))"
  by (simp add: apply_block_tx_def Let_def split_def)

lemma sequential_loop_eq:
  "and_then (try_fold (apply_block_tx ssl H pb st h mtp chain_id rotation registry) (w, fees, seen) txs)
     (\<lambda>(w, fees, _). Ok (case w of Some w \<Rightarrow> w | None \<Rightarrow> st, fees)) =
   seq_txs ssl H h (timestamp (pb_header pb)) mtp chain_id rotation registry txs
     (case w of Some w \<Rightarrow> w | None \<Rightarrow> st) fees seen"
proof (induction txs arbitrary: w fees seen)
  case (Cons x txs)
  obtain tx txid where x: "x = (tx, txid)" by (rule prod.exhaust)
  show ?case
    unfolding x try_fold.simps seq_txs.simps
    by (simp add: apply_block_tx_app and_then_assoc Cons.IH [unfolded split_def] split_def)
qed simp

lemma sequential_eq:
  "apply_non_coinbase_txs_sequential ssl H pb w h mtp chain_id rotation registry =
    seq_txs ssl H h (timestamp (pb_header pb)) mtp chain_id rotation registry (drop 1 (zip (pb_txs pb) (pb_txids pb))) w 0 {}"
  using sequential_loop_eq [of ssl H pb w h mtp chain_id rotation registry None 0 "{}"]
  by (simp add: apply_non_coinbase_txs_sequential_def)

section \<open>The two paths agree\<close>

lemma collect_agrees:
  assumes "registry_fits (registry_or_default (cc_registry ctx)) q"
  shows "\<exists>r q'. collect_queued_txs ssl H p ctx txs w fees seen q = (r, q') \<and>
    agrees ssl (registry_or_default (cc_registry ctx)) q r q'
      (seq_txs ssl H (pc_block_height p) (timestamp (pb_header (pc_pb p))) (pc_block_mtp p) (cc_chain_id ctx)
        (cc_rotation ctx) (cc_registry ctx) txs w fees seen)"
  using assms
proof (induction txs arbitrary: w fees seen q)
  case Nil
  then show ?case by (simp add: agrees_refl)
next
  case (Cons x txs)
  let ?reg = "registry_or_default (cc_registry ctx)"
  let ?seq = "\<lambda>w fees seen. seq_txs ssl H (pc_block_height p) (timestamp (pb_header (pc_pb p))) (pc_block_mtp p)
    (cc_chain_id ctx) (cc_rotation ctx) (cc_registry ctx) txs w fees seen"
  obtain tx txid where x: "x = (tx, txid)" by (rule prod.exhaust)
  let ?now = "apply_with_suite_context ssl H tx txid w (pc_block_height p) (timestamp (pb_header (pc_pb p)))
    (pc_block_mtp p) (cc_chain_id ctx) (cc_rotation ctx) (cc_registry ctx)"
  show ?case
  proof (cases "validate_non_coinbase_block_tx tx seen")
    case (Inl e)
    then show ?thesis using Cons.prems by (simp add: x agrees_refl)
  next
    case v: (Inr seen1)
    obtain r q1 where 1: "apply_queued_sigchecks ssl H tx txid w (pc_block_height p) (timestamp (pb_header (pc_pb p)))
        (pc_block_mtp p) (cc_chain_id ctx) (cc_rotation ctx) (cc_registry ctx) q = (r, q1)" "agrees ssl ?reg q r q1 ?now"
      using apply_queued_agrees [OF Cons.prems] by blast
    show ?thesis
    proof (cases r)
      case (Inl e)
      then show ?thesis using 1 v agrees_bind_error by (auto simp: x)
    next
      case (Inr y)
      obtain w1 sm where y: "y = (w1, sm)" by (rule prod.exhaust)
      have fits: "registry_fits ?reg q1" using 1(2) by (auto simp: agrees_def queued_def)
      have "\<exists>r' q2. (case add_block_fee fees (fee sm) of Inl e \<Rightarrow> (Inl e, q1)
          | Inr fees \<Rightarrow> collect_queued_txs ssl H p ctx txs w1 fees seen1 q1) = (r', q2) \<and>
          agrees ssl ?reg q1 r' q2 (and_then (add_block_fee fees (fee sm)) (\<lambda>fees. ?seq w1 fees seen1))"
        using Cons.IH [OF fits] fits by (cases "add_block_fee fees (fee sm)") (simp_all add: agrees_refl)
      then obtain r' q2 where 2: "(case add_block_fee fees (fee sm) of Inl e \<Rightarrow> (Inl e, q1)
          | Inr fees \<Rightarrow> collect_queued_txs ssl H p ctx txs w1 fees seen1 q1) = (r', q2)"
          "agrees ssl ?reg q1 r' q2 (and_then (add_block_fee fees (fee sm)) (\<lambda>fees. ?seq w1 fees seen1))" by blast
      have "agrees ssl ?reg q r' q2 (and_then ?now (\<lambda>(w, sm). and_then (add_block_fee fees (fee sm)) (\<lambda>fees. ?seq w fees seen1)))"
        by (rule agrees_bind [OF 1(2) [unfolded Inr y]]) (simp add: 2(2))
      then show ?thesis using 1(1) 2(1) v Inr y by (simp add: x)
    qed
  qed
qed

text \<open>What the parallel application answers for the answer of the sequential one.\<close>

lemma parallel_txs_agree:
  fixes p :: PreparedConnectBlock and ctx :: ConnectBlockContext and ssl :: OpenSSL and H :: "bytes \<Rightarrow> bytes32" and w :: utxo_set
  defines "immediate \<equiv> apply_non_coinbase_txs_sequential ssl H (pc_pb p) w (pc_block_height p) (pc_block_mtp p)
    (cc_chain_id ctx) (cc_rotation ctx) (cc_registry ctx)"
  shows "\<exists>r. apply_non_coinbase_txs_parallel par sched ssl H p w ctx workers = Some r \<and> (case r of
      Inr (w', fees, n) \<Rightarrow> immediate = Ok (w', fees)
    | Inl e \<Rightarrow> e \<in> queue_errors \<or> (\<exists>e'. immediate = Inl e'))"
proof -
  let ?reg = "registry_or_default (cc_registry ctx)"
  let ?q = "case cc_registry ctx of Some registry \<Rightarrow> with_registry (SigCheckQueue_new par workers) registry
      | None \<Rightarrow> SigCheckQueue_new par workers"
  have q: "registry_fits ?reg ?q" "q_tasks ?q = []" "q_cache ?q = None"
    by (simp_all add: registry_fits_def SigCheckQueue_new_def with_registry_def registry_or_default_def split: option.split)
  obtain r q' where a: "collect_queued_non_coinbase_txs ssl H p w ctx ?q = (r, q')" "agrees ssl ?reg ?q r q' immediate"
    using collect_agrees [OF q(1)] unfolding immediate_def sequential_eq collect_queued_non_coinbase_txs_def by blast
  then obtain ts where ts: "queued ?reg ?q ts q'" "case r of
      Inr x \<Rightarrow> immediate = and_then (try_for_each (task_check ssl (Some ?reg)) ts) (\<lambda>_. Ok x)
    | Inl e \<Rightarrow> e \<in> queue_errors \<or> (\<exists>e'. immediate = Inl e')"
    unfolding agrees_def by blast
  have q': "q_tasks q' = ts" "q_cache q' = None" "ts \<noteq> [] \<Longrightarrow> q_registry q' = Some ?reg"
    using ts(1) q by (auto simp: queued_def extends_def)
  have flush: "fst (queue_flush par sched ssl H q') = Returned (try_for_each (task_check ssl (Some ?reg)) ts)"
    using flush_no_cache [OF q'(2)] q'(1,3) by (cases "ts = []") auto
  show ?thesis
  proof (cases r)
    case (Inl e)
    then show ?thesis using a(1) ts(2) by (simp add: apply_non_coinbase_txs_parallel_def Let_def)
  next
    case (Inr x)
    then show ?thesis using a(1) ts(2) flush
      by (cases x; cases "try_for_each (task_check ssl (Some ?reg)) ts")
        (auto simp: apply_non_coinbase_txs_parallel_def Let_def simp del: try_for_each_Inr)
  qed
qed

lemma finalize_task_count:
  "finalize_connected_block H p w fees n st =
    (case finalize_connected_block H p w fees 0 st of (Inr sm, st') \<Rightarrow> (Inr (sm\<lparr>cb_sig_task_count := n\<rparr>), st')
      | (Inl e, st') \<Rightarrow> (Inl e, st'))"
  by (auto simp: finalize_connected_block_def Let_def split: sum.split)

lemma finalize_error: "finalize_connected_block H p w fees n st = (Inl e, st') \<Longrightarrow> st' = st"
  by (auto simp: finalize_connected_block_def Let_def split: sum.splits)

lemma finalize_count: "finalize_connected_block H p w fees n st = (Inr sm, st') \<Longrightarrow> cb_sig_task_count sm = n"
  by (auto simp: finalize_connected_block_def Let_def split: sum.splits)

definition paths_agree ::
  "(ConnectBlockBasicSummary res \<times> InMemoryChainState) \<Rightarrow> (ConnectBlockBasicSummary res \<times> InMemoryChainState) \<Rightarrow>
   InMemoryChainState \<Rightarrow> bool" where
  "paths_agree parallel sequential st \<longleftrightarrow> (case parallel of
      (Inr sm, st') \<Rightarrow> sequential = (Inr (sm\<lparr>cb_sig_task_count := 0\<rparr>), st')
    | (Inl e, st') \<Rightarrow> st' = st \<and> (e \<in> queue_errors \<or> (\<exists>e'. sequential = (Inl e', st))))"

lemma finalize_paths_agree:
  "paths_agree (finalize_connected_block H p w fees n st) (finalize_connected_block H p w fees 0 st) st"
  unfolding finalize_task_count [of H p w fees n] paths_agree_def
  using finalize_error [of H p w fees 0] finalize_count [of H p w fees 0]
  by (cases "finalize_connected_block H p w fees 0 st") (auto split: sum.split)

lemma parallel_paths_agree:
  "\<exists>r. connect_block_parallel_sig_verify_with_context par sched L ssl H b ctx workers st = Some r \<and>
    paths_agree r (connect_block_basic_in_memory_with_context L ssl H b ctx st) st"
proof (cases "prepare_connect_block L H b (cs_already_generated st) ctx")
  case (Inl e)
  then show ?thesis
    by (simp add: connect_block_parallel_sig_verify_with_context_def connect_block_basic_in_memory_with_context_def paths_agree_def)
next
  case p: (Inr p)
  note defs = connect_block_parallel_sig_verify_with_context_def connect_block_basic_in_memory_with_context_def
    apply_coinbase_then_non_coinbase_txs_sequential_def
  show ?thesis
  proof (cases "apply_coinbase_outputs (pc_pb p) (cs_utxos st) (pc_block_height p) (cc_rotation ctx)")
    case (Inl e)
    then show ?thesis using p by (simp add: defs paths_agree_def)
  next
    case w: (Inr w)
    let ?now = "apply_non_coinbase_txs_sequential ssl H (pc_pb p) w (pc_block_height p) (pc_block_mtp p)
      (cc_chain_id ctx) (cc_rotation ctx) (cc_registry ctx)"
    obtain r where r: "apply_non_coinbase_txs_parallel par sched ssl H p w ctx workers = Some r"
        "case r of Inr (w', fees, n) \<Rightarrow> ?now = Ok (w', fees) | Inl e \<Rightarrow> e \<in> queue_errors \<or> (\<exists>e'. ?now = Inl e')"
      using parallel_txs_agree by blast
    show ?thesis
    proof (cases r)
      case (Inl e)
      then show ?thesis using p w r by (auto simp: defs paths_agree_def)
    next
      case (Inr x)
      then show ?thesis using p w r finalize_paths_agree by (cases x) (auto simp: defs)
    qed
  qed
qed

text \<open>
  C1: connecting a block with deferred, parallel signature checks does not change what is
  accepted. For any number of workers and any interleaving the parallel path returns
  an answer. When it accepts, the sequential path accepts with the same new state and
  the same summary, the count of signature tasks apart; when it refuses, the state is
  left as it was and the sequential path refuses too, unless the queue had no room for
  a check.
\<close>

theorem parallel_connect_agrees:
  "\<exists>r st'. connect_block_parallel_sig_verify_with_context par sched L ssl H b ctx workers st = Some (r, st') \<and>
    (case r of
       Inr sm \<Rightarrow> connect_block_basic_in_memory_with_context L ssl H b ctx st = (Inr (sm\<lparr>cb_sig_task_count := 0\<rparr>), st')
     | Inl e \<Rightarrow> st' = st \<and> (e \<in> queue_errors \<or>
         (\<exists>e'. connect_block_basic_in_memory_with_context L ssl H b ctx st = (Inl e', st))))"
  using parallel_paths_agree [of par sched L ssl H b ctx workers st] by (auto simp: paths_agree_def split: sum.splits)

end
