(* ===== verification/Chain_State.thy ===== *)
theory Chain_State
  imports Connect
begin

text \<open>
  The chain states that connecting blocks with \<^verbatim>\<open>connect_block_inmem.rs\<close> leads to: what
  they hold of value, of which shape their entries are, and what their digest says.
\<close>

section \<open>Value\<close>

definition total_value :: "utxo_set \<Rightarrow> nat" where
  "total_value u = (\<Sum>op\<in>dom u. entry_value (the (u op)))"

lemma total_value_upd: "finite (dom u) \<Longrightarrow> total_value (u(op \<mapsto> e)) \<le> total_value u + entry_value e"
proof -
  assume f: "finite (dom u)"
  have "total_value (u(op \<mapsto> e)) = entry_value e + (\<Sum>x\<in>dom u - {op}. entry_value (the (u x)))"
    using f by (simp add: total_value_def sum.insert_remove cong: sum.cong_simp)
  also have "\<dots> \<le> entry_value e + total_value u"
    unfolding total_value_def using f by (intro add_left_mono sum_mono2) auto
  finally show ?thesis by simp
qed

lemma total_value_remove:
  assumes "finite (dom u)" and "distinct ops" and "map u ops = map Some es"
  shows "total_value (u |` (- set ops)) + (\<Sum>e\<leftarrow>es. entry_value e) = total_value u"
proof -
  have sub: "set ops \<subseteq> dom u"
  proof
    fix op assume "op \<in> set ops"
    then have "u op \<in> set (map Some es)" unfolding assms(3) [symmetric] by simp
    then show "op \<in> dom u" by auto
  qed
  have "map entry_value es = map (\<lambda>op. entry_value (the (u op))) ops"
  proof -
    have "map (\<lambda>op. entry_value (the (u op))) ops = map (entry_value \<circ> the) (map u ops)" by simp
    also have "\<dots> = map entry_value es" by (simp add: assms(3))
    finally show ?thesis by simp
  qed
  then have "(\<Sum>e\<leftarrow>es. entry_value e) = (\<Sum>op\<in>set ops. entry_value (the (u op)))"
    using assms(2) by (simp add: sum_list_distinct_conv_sum_set)
  moreover have "total_value (u |` (- set ops)) = (\<Sum>op\<in>dom u - set ops. entry_value (the (u op)))"
    unfolding total_value_def by (rule sum.cong) (auto simp: Diff_eq)
  ultimately show ?thesis
    unfolding total_value_def using sum.subset_diff [OF sub assms(1), of "\<lambda>op. entry_value (the (u op))"] by simp
qed

lemma total_value_created:
  assumes "finite (dom u)" and "k + length outs \<le> 2 ^ 32"
  shows "finite (dom (u ++ created_from ctx k outs)) \<and>
    total_value (u ++ created_from ctx k outs) \<le> total_value u + (\<Sum>out\<leftarrow>outs. unat (out_value out))"
  using assms
proof (induction outs arbitrary: u k)
  case Nil
  have "created_from ctx k [] = Map.empty" by (rule ext) (simp add: created_from_def Let_def)
  then show ?case using Nil by simp
next
  case (Cons out outs)
  let ?op = "\<lparr>op_txid = cx_txid ctx, op_vout = of_nat k\<rparr>"
  let ?u = "if unspendable_type (out_covenant_type out) then u else u(?op \<mapsto> new_entry ctx out)"
  have "total_value ?u \<le> total_value u + unat (out_value out)"
    using total_value_upd [OF Cons.prems(1), of ?op "new_entry ctx out"] by (simp add: entry_value_def new_entry_def)
  moreover have "finite (dom ?u)" using Cons.prems(1) by simp
  moreover have "k < 2 ^ 32" using Cons.prems(2) by simp
  ultimately show ?case
    using Cons.IH [of ?u "Suc k"] Cons.prems(2) created_from_Cons [of k u ctx out outs] by simp
qed

lemma apply_tx_value:
  assumes "apply_with_suite_context ssl H tx txid u h ts mtp chain_id rotation registry = Ok (u', sm)"
    and "finite (dom u)" and "length (outputs tx) \<le> 2 ^ 32"
  shows "finite (dom u') \<and> total_value u' + unat (fee sm) \<le> total_value u"
proof -
  let ?ctx = "apply_context tx txid u h ts mtp chain_id rotation registry"
  have c: "cx_tx ?ctx = tx" "cx_utxo_set ?ctx = u" by (simp_all add: apply_context_def)
  obtain q' where "apply_impl ssl H ?ctx None = (Ok (u', sm), q')"
    using assms(1) by (metis apply_with_suite_context_def prod.collapse)
  from apply_impl_conserves [OF this] assms(3) obtain entries where
    e: "distinct (map signing_outpoint (inputs tx))" "map u (map signing_outpoint (inputs tx)) = map Some entries"
      "unat (fee sm) + (\<Sum>out\<leftarrow>outputs tx. unat (out_value out)) = (\<Sum>e\<leftarrow>entries. entry_value e)"
      "u' = u |` (- set (map signing_outpoint (inputs tx))) ++ created_from ?ctx 0 (outputs tx)"
    by (auto simp: c comp_def)
  have "finite (dom (u |` (- set (map signing_outpoint (inputs tx)))))" using assms(2) by simp
  from total_value_created [OF this, of 0 "outputs tx" ?ctx] assms(3)
    total_value_remove [OF assms(2) e(1,2)]
  show ?thesis unfolding e(4) using e(3) by simp
qed

lemma seq_txs_value:
  assumes "seq_txs ssl H h ts mtp chain_id rotation registry txs u fees seen = Ok (u', fees')"
    and "finite (dom u)" and "list_all (\<lambda>(tx, _). length (outputs tx) \<le> 2 ^ 32) txs"
  shows "finite (dom u') \<and> total_value u' + unat fees' \<le> total_value u + unat fees"
  using assms
proof (induction txs arbitrary: u fees seen)
  case (Cons x txs)
  obtain tx txid where x: "x = (tx, txid)" by (rule prod.exhaust)
  obtain seen1 u1 sm fees1 where s: "apply_with_suite_context ssl H tx txid u h ts mtp chain_id rotation registry = Ok (u1, sm)"
      "add_block_fee fees (fee sm) = Ok fees1" "seq_txs ssl H h ts mtp chain_id rotation registry txs u1 fees1 seen1 = Ok (u', fees')"
    using Cons.prems(1) x by auto
  have "unat fees1 = unat fees + unat (fee sm)" using s(2) by (simp add: add_block_fee_def checked_add_Some)
  moreover have "finite (dom u1) \<and> total_value u1 + unat (fee sm) \<le> total_value u"
    using apply_tx_value [OF s(1) Cons.prems(2)] Cons.prems(3) x by simp
  ultimately show ?case using Cons.IH [OF s(3)] Cons.prems(3) by fastforce
qed simp

lemma coinbase_outputs_value:
  assumes "apply_coinbase_outputs pb u h rotation = Ok u'" and "finite (dom u)"
  shows "finite (dom u') \<and> total_value u' \<le> total_value u + (\<Sum>out\<leftarrow>outputs (hd (pb_txs pb)). unat (out_value out))"
proof -
  obtain cb txid cmrs where f: "try_fold (apply_coinbase_output (tx_kind cb) txid h (rotation_or_default rotation))
      ([], u) (List.enumerate 0 (outputs cb)) = Ok (cmrs, u')" "hd (pb_txs pb) = cb"
    using assms(1) by (auto simp: apply_coinbase_outputs_def coinbase_and_txid_def first_or_def Let_def split: list.splits)
  have "finite (dom u') \<and> total_value u' \<le> total_value u + (\<Sum>out\<leftarrow>outs. unat (out_value out))"
    if "try_fold (apply_coinbase_output (tx_kind cb) txid h rp) (c, u) (List.enumerate k outs) = Ok (cmrs, u')" "finite (dom u)"
    for c k outs u rp
    using that
  proof (induction outs arbitrary: c u k)
    case (Cons out outs)
    obtain c1 u1 where 1: "apply_coinbase_output (tx_kind cb) txid h rp (c, u) (k, out) = Ok (c1, u1)"
        "try_fold (apply_coinbase_output (tx_kind cb) txid h rp) (c1, u1) (List.enumerate (Suc k) outs) = Ok (cmrs, u')"
      using Cons.prems(1) by auto
    let ?e = "\<lparr>ue_value = out_value out, ue_covenant_type = out_covenant_type out, ue_covenant_data = out_covenant_data out,
       creation_height = h, created_by_coinbase = True\<rparr>"
    have "u1 = u \<or> u1 = u(\<lparr>op_txid = txid, op_vout = of_nat k\<rparr> \<mapsto> ?e)"
      using 1(1) by (auto simp: apply_coinbase_output_def Let_def split: if_splits)
    then have "finite (dom u1) \<and> total_value u1 \<le> total_value u + unat (out_value out)"
      using Cons.prems(2) total_value_upd [OF Cons.prems(2), of "\<lparr>op_txid = txid, op_vout = of_nat k\<rparr>" ?e]
      by (auto simp: entry_value_def)
    then show ?case using Cons.IH [OF 1(2)] by fastforce
  qed simp
  from this [OF f(1) assms(2)] show ?thesis by (simp add: f(2))
qed

lemma connect_Ok:
  assumes "connect_block_basic_in_memory_with_context L ssl H b ctx st = (Inr sm, st')"
  obtains p w0 w fees where "prepare_connect_block L H b (cs_already_generated st) ctx = Ok p"
    and "apply_coinbase_outputs (pc_pb p) (cs_utxos st) (cc_block_height ctx) (cc_rotation ctx) = Ok w0"
    and "seq_txs ssl H (cc_block_height ctx) (timestamp (pb_header (pc_pb p))) (pc_block_mtp p) (cc_chain_id ctx)
      (cc_rotation ctx) (cc_registry ctx) (drop 1 (zip (pb_txs (pc_pb p)) (pb_txids (pc_pb p)))) w0 0 {} = Ok (w, fees)"
    and "finalize_connected_block H p w fees 0 st = (Inr sm, st')"
    and "wf_parsed_block H (pc_pb p)" and "pc_block_height p = cc_block_height ctx"
    and "pc_already_generated p = cs_already_generated st"
proof -
  obtain p w0 w fees where c: "prepare_connect_block L H b (cs_already_generated st) ctx = Ok p"
      "apply_coinbase_outputs (pc_pb p) (cs_utxos st) (pc_block_height p) (cc_rotation ctx) = Ok w0"
      "seq_txs ssl H (pc_block_height p) (timestamp (pb_header (pc_pb p))) (pc_block_mtp p) (cc_chain_id ctx)
        (cc_rotation ctx) (cc_registry ctx) (drop 1 (zip (pb_txs (pc_pb p)) (pb_txids (pc_pb p)))) w0 0 {} = Ok (w, fees)"
      "finalize_connected_block H p w fees 0 st = (Inr sm, st')"
    using assms unfolding connect_block_basic_in_memory_with_context_def apply_coinbase_then_non_coinbase_txs_sequential_def
      sequential_eq by (auto split: sum.splits)
  have "wf_parsed_block H (pc_pb p) \<and> pc_block_height p = cc_block_height ctx \<and>
      pc_already_generated p = cs_already_generated st"
    using c(1) parse_block_sound by (auto simp: prepare_connect_block_def split: if_splits)
  then show thesis using that c by metis
qed

lemma connect_error:
  "connect_block_basic_in_memory_with_context L ssl H b ctx st = (Inl e, st') \<Longrightarrow> st' = st"
  using finalize_error unfolding connect_block_basic_in_memory_with_context_def by (auto split: sum.splits)

lemma unat_wide: "unat (ucast (v :: u64) :: u128) = unat v"
  using unsigned_less [of v, where 'a = nat] by (simp add: unat_ucast)

lemma sum_coinbase_value:
  assumes "sum_coinbase_outputs tx = Ok s"
  shows "unat s = (\<Sum>out\<leftarrow>outputs tx. unat (out_value out))"
proof -
  have "unat s = unat a + (\<Sum>out\<leftarrow>outs. unat (out_value out))"
    if "try_fold (\<lambda>sum out. ok_or (TxError_new BlockErrParse ''u128 overflow'') (checked_add sum (ucast (out_value out)))) a outs = Ok s"
    for a and outs
    using that by (induction outs arbitrary: a) (auto simp: checked_add_Some unat_wide)
  from this [of 0 "outputs tx"] show ?thesis using assms by (simp add: sum_coinbase_outputs_def)
qed

lemma connect_value:
  assumes "connect_block_basic_in_memory_with_context L ssl H b ctx st = (Inr sm, st')"
    and "finite (dom (cs_utxos st))" and "cc_block_height ctx \<noteq> 0"
  shows "finite (dom (cs_utxos st')) \<and>
    total_value (cs_utxos st') + unat (cs_already_generated st) \<le> total_value (cs_utxos st) + unat (cs_already_generated st') \<and>
    unat (cs_already_generated st') =
      unat (cs_already_generated st) + unat (block_subsidy (cc_block_height ctx) (cs_already_generated st))"
proof -
  obtain p w0 w fees where c: "apply_coinbase_outputs (pc_pb p) (cs_utxos st) (cc_block_height ctx) (cc_rotation ctx) = Ok w0"
      "seq_txs ssl H (cc_block_height ctx) (timestamp (pb_header (pc_pb p))) (pc_block_mtp p) (cc_chain_id ctx)
        (cc_rotation ctx) (cc_registry ctx) (drop 1 (zip (pb_txs (pc_pb p)) (pb_txids (pc_pb p)))) w0 0 {} = Ok (w, fees)"
      "finalize_connected_block H p w fees 0 st = (Inr sm, st')" "wf_parsed_block H (pc_pb p)"
      "pc_block_height p = cc_block_height ctx" "pc_already_generated p = cs_already_generated st"
    using assms(1) by (rule connect_Ok)
  let ?subsidy = "block_subsidy (cc_block_height ctx) (cs_already_generated st)"
  let ?paid = "\<Sum>out\<leftarrow>outputs (hd (pb_txs (pc_pb p))). unat (out_value out)"
  have w0: "finite (dom w0)" "total_value w0 \<le> total_value (cs_utxos st) + ?paid"
    using coinbase_outputs_value [OF c(1) assms(2)] by simp_all
  have "list_all (\<lambda>(tx, _). length (outputs tx) \<le> 2 ^ 32) (drop 1 (zip (pb_txs (pc_pb p)) (pb_txids (pc_pb p))))"
    using c(4) by (auto simp: wf_parsed_block_def list_all_iff wf_tx_def wf_core_def dest!: in_set_dropD set_zip_leftD)
  from seq_txs_value [OF c(2) w0(1) this] have w: "finite (dom w)" "total_value w + unat fees \<le> total_value w0" by simp_all
  obtain n1 where f: "validate_coinbase_value_bound (pc_pb p) (cc_block_height ctx) (cs_already_generated st) fees = Ok ()"
      "checked_add (cs_already_generated st) (ucast ?subsidy) = Some n1"
      "cs_utxos st' = w" "cs_already_generated st' = n1"
    using c(3,5,6) assms(3) by (auto simp: finalize_connected_block_def already_generated_after_block_def Let_def split: sum.splits)
  have n1: "unat n1 = unat (cs_already_generated st) + unat ?subsidy"
    using f(2) by (simp add: checked_add_Some unat_wide)
  obtain s lim where "sum_coinbase_outputs (hd (pb_txs (pc_pb p))) = Ok s" "s \<le> lim" "checked_add (ucast ?subsidy) fees = Some lim"
    using f(1) assms(3)
    by (auto simp: validate_coinbase_value_bound_def coinbase_value_limit_def not_less split: list.splits if_splits)
  then have "?paid \<le> unat ?subsidy + unat fees"
    by (simp add: sum_coinbase_value [symmetric] checked_add_Some unat_wide word_le_nat_alt)
  then show ?thesis using w w0 n1 f(3,4) by simp
qed

section \<open>The states of a chain\<close>

text \<open>
  What a node does to its chain state: it connects a block on either path, on any
  context, and keeps the state that the call leaves behind, whatever it answered.
\<close>

inductive chain_step :: "BigUintLib \<Rightarrow> OpenSSL \<Rightarrow> (bytes \<Rightarrow> bytes32) \<Rightarrow> u64 \<Rightarrow> InMemoryChainState \<Rightarrow> InMemoryChainState \<Rightarrow> bool"
  for L ssl H where
  seq_step: "connect_block_basic_in_memory_with_context L ssl H b ctx st = (r, st') \<Longrightarrow>
    chain_step L ssl H (cc_block_height ctx) st st'"
| par_step: "connect_block_parallel_sig_verify_with_context par sched L ssl H b ctx workers st = Some (r, st') \<Longrightarrow>
    chain_step L ssl H (cc_block_height ctx) st st'"

lemma chain_step_sequential:
  assumes "chain_step L ssl H h st st'"
  shows "st' = st \<or> (\<exists>b ctx sm. cc_block_height ctx = h \<and> connect_block_basic_in_memory_with_context L ssl H b ctx st = (Inr sm, st'))"
  using assms
proof cases
  case (seq_step b ctx r)
  then show ?thesis using connect_error by (cases r) blast+
next
  case (par_step par sched b ctx workers r)
  then have "paths_agree (r, st') (connect_block_basic_in_memory_with_context L ssl H b ctx st) st"
    using parallel_paths_agree [of par sched L ssl H b ctx workers st] by simp
  then show ?thesis using par_step(1) by (cases r) (auto simp: paths_agree_def)
qed

text \<open>A property of chain states that connecting a block keeps holds ever after.\<close>

locale chain_invariant =
  fixes L :: BigUintLib and ssl :: OpenSSL and H :: "bytes \<Rightarrow> bytes32" and heights :: "u64 set"
    and I :: "InMemoryChainState \<Rightarrow> bool"
  assumes kept: "I st \<Longrightarrow> cc_block_height ctx \<in> heights \<Longrightarrow>
    connect_block_basic_in_memory_with_context L ssl H b ctx st = (Inr sm, st') \<Longrightarrow> I st'"
begin

lemma reachable:
  assumes "(\<lambda>s t. \<exists>h\<in>heights. chain_step L ssl H h s t)\<^sup>*\<^sup>* st st'" and "I st"
  shows "I st'"
  using assms by (induction rule: rtranclp_induct) (use chain_step_sequential kept in blast)+

end

interpretation emission: chain_invariant L ssl H "- {0}"
    "\<lambda>st. finite (dom (cs_utxos st)) \<and> total_value (cs_utxos st) + n \<le> m + unat (cs_already_generated st)"
  for L ssl H n m
  by unfold_locales (use connect_value in fastforce)

text \<open>
  C2: no value is created but the subsidies. Along any chain of blocks above the genesis
  block, connected on either path and whether or not each was accepted, the value of
  all unspent outputs grows by no more than the amount the state counts as generated,
  and each block either leaves the state as it is or adds to that amount exactly its
  subsidy, without wrap-around.
\<close>

theorem chain_supply:
  assumes "(\<lambda>s t. \<exists>h\<in>- {0}. chain_step L ssl H h s t)\<^sup>*\<^sup>* st st'" and "finite (dom (cs_utxos st))"
  shows "finite (dom (cs_utxos st')) \<and>
    total_value (cs_utxos st') + unat (cs_already_generated st) \<le> total_value (cs_utxos st) + unat (cs_already_generated st') \<and>
    (\<forall>h st''. chain_step L ssl H h st' st'' \<and> h \<noteq> 0 \<longrightarrow> st'' = st' \<or> unat (cs_already_generated st'') =
      unat (cs_already_generated st') + unat (block_subsidy h (cs_already_generated st')))"
proof -
  have st': "finite (dom (cs_utxos st'))" "total_value (cs_utxos st') + unat (cs_already_generated st) \<le>
      total_value (cs_utxos st) + unat (cs_already_generated st')"
    using emission.reachable [OF assms(1), of "unat (cs_already_generated st)" "total_value (cs_utxos st)"] assms(2) by simp_all
  then show ?thesis using chain_step_sequential connect_value by metis
qed

text \<open>Connecting the block of height 7 to a chain state with an output of value 9.\<close>

definition demo_cc :: ConnectBlockContext where
  "demo_cc = connect_context (Some (replicate 32 3)) (Some (replicate 32 1)) 7 (Some [8, 1, 2, 3, 4, 5, 6]) (replicate 32 0) None None"

definition demo_unspent :: UtxoEntry where
  "demo_unspent = \<lparr>ue_value = 9, ue_covenant_type = COV_TYPE_P2PK, ue_covenant_data = 1 # replicate 32 2, creation_height = 0,
    created_by_coinbase = False\<rparr>"

definition demo_chain_state :: InMemoryChainState where
  "demo_chain_state = \<lparr>cs_utxos = [\<lparr>op_txid = replicate 32 6, op_vout = 0\<rparr> \<mapsto> demo_unspent], cs_already_generated = 40\<rparr>"

definition demo_paid :: "Outpoint \<times> UtxoEntry" where
  "demo_paid = (\<lparr>op_txid = replicate 32 0, op_vout = 0\<rparr>,
    \<lparr>ue_value = 5, ue_covenant_type = COV_TYPE_P2PK, ue_covenant_data = 1 # replicate 32 2, creation_height = 7,
     created_by_coinbase = True\<rparr>)"

lemma demo_prepares:
  "\<exists>p. prepare_connect_block be_lib zero_hash (block_encoding demo_block) n demo_cc = Ok p \<and> pc_pb p = demo_block \<and>
    pc_block_height p = 7 \<and> pc_already_generated p = n"
proof -
  have len: "length (zero_hash x) = 32" for x by (simp add: zero_hash_def)
  have txs: "pb_txs demo_block = [demo_coinbase]" "length (pb_txids demo_block) = 1" by (simp_all add: demo_block_def Let_def)
  have wf: "wf_parsed_block zero_hash demo_block" using parse_block_sound [OF demo_block_parses] by blast
  let ?stats = "\<lparr>bts_sum_weight = 590, bts_sum_da = 0, bts_sum_anchor = 32\<rparr>"
  have "validate_parsed_block_preflight be_lib zero_hash demo_block (Some (replicate 32 3)) (Some (replicate 32 1)) 7
      (Some [8, 1, 2, 3, 4, 5, 6]) = Ok ?stats"
    unfolding preflight_iff [OF be_lib_spec len wf] by (simp add: demo_block_preflight txs demo_coinbase_sizes)
  moreover have "validate_coinbase_structure demo_block 7 = Ok ()"
    unfolding coinbase_rules_iff txs
    by (simp add: coinbase_rules_def demo_coinbase_def is_coinbase_tx_def has_coinbase_tx_shape_def has_coinbase_input_shape_def)
  moreover have "is_ok (median_time_past 7 (Some [8, 1, 2, 3, 4, 5, 6]))"
    by (simp add: median_time_past_def Let_def word_less_nat_alt word_le_nat_alt)
  then obtain m where "median_time_past 7 (Some [8, 1, 2, 3, 4, 5, 6]) = Ok m" by (auto simp: is_ok_iff)
  ultimately show ?thesis
    using txs by (simp add: prepare_connect_block_def demo_block_parses demo_cc_def connect_context_def validate_connect_preflight_def)
qed

lemma demo_coinbase_applies:
  "apply_coinbase_outputs demo_block u 7 None = Ok (u(fst demo_paid \<mapsto> snd demo_paid))"
proof -
  have "validate_tx_output_covenant_genesis 0 \<lparr>out_value = 5, out_covenant_type = COV_TYPE_P2PK, out_covenant_data = 1 # replicate 32 2\<rparr>
        7 (rotation_or_default None) = Ok None"
      "validate_tx_output_covenant_genesis 0 \<lparr>out_value = 0, out_covenant_type = COV_TYPE_ANCHOR, out_covenant_data = replicate 32 0\<rparr>
        7 (rotation_or_default None) = Ok None"
    by (auto simp: output_genesis_iff genesis_output_step_def Let_def validate_p2pk_anchor_def word_less_nat_alt
        MAX_P2PK_COVENANT_DATA_def SUITE_ID_ML_DSA_87_def rotation_or_default_def)
  then show ?thesis
    by (simp add: apply_coinbase_outputs_def coinbase_and_txid_def first_or_def demo_block_def Let_def demo_coinbase_def
        apply_coinbase_output_def validate_coinbase_apply_outputs_def demo_paid_def validate_simplicity_output_group_cap_def
        del: and_then_Inr)
qed

lemma demo_connects:
  "\<exists>sm. connect_block_basic_in_memory_with_context be_lib ssl zero_hash (block_encoding demo_block) demo_cc demo_chain_state =
    (Inr sm, \<lparr>cs_utxos = (cs_utxos demo_chain_state)(fst demo_paid \<mapsto> snd demo_paid),
      cs_already_generated = 4673004190\<rparr>)"
proof -
  obtain p where p: "prepare_connect_block be_lib zero_hash (block_encoding demo_block) 40 demo_cc = Ok p"
      "pc_pb p = demo_block" "pc_block_height p = 7" "pc_already_generated p = 40" using demo_prepares by blast
  have cc: "cc_rotation demo_cc = None" by (simp add: demo_cc_def connect_context_def)
  have txs: "zip (pb_txs demo_block) (pb_txids demo_block) = [(demo_coinbase, replicate 32 0)]" "pb_txs demo_block = [demo_coinbase]"
    by (simp_all add: demo_block_def Let_def)
  have "unat (block_subsidy 7 40) = 4673004150" by (simp add: block_subsidy_unat)
  then have s: "block_subsidy 7 40 = 4673004150" by (simp add: word_unat_eq_iff)
  have "validate_coinbase_value_bound demo_block 7 40 0 = Ok ()"
    by (simp add: validate_coinbase_value_bound_def txs sum_coinbase_outputs_def demo_coinbase_def checked_add_def s
        coinbase_value_limit_def word_less_nat_alt del: and_then_Inr)
  moreover have "already_generated_after_block 7 40 = Ok 4673004190"
    by (simp add: already_generated_after_block_def checked_add_def s)
  ultimately show ?thesis
    by (simp add: connect_block_basic_in_memory_with_context_def demo_chain_state_def p cc txs s
        apply_coinbase_then_non_coinbase_txs_sequential_def demo_coinbase_applies sequential_eq finalize_connected_block_def
        Let_def del: and_then_Inr)
qed

lemma demo_chain_step:
  "chain_step be_lib ssl zero_hash 7 demo_chain_state
    \<lparr>cs_utxos = (cs_utxos demo_chain_state)(fst demo_paid \<mapsto> snd demo_paid), cs_already_generated = 4673004190\<rparr>"
proof -
  have "cc_block_height demo_cc = 7" by (simp add: demo_cc_def connect_context_def)
  then show ?thesis using demo_connects [of ssl] seq_step by metis
qed

theorem chain_supply_witness:
  "\<exists>st'. (\<lambda>s t. \<exists>h\<in>- {0}. chain_step be_lib demo_ssl zero_hash h s t)\<^sup>*\<^sup>* demo_chain_state st' \<and>
    fst demo_paid \<in> dom (cs_utxos st') \<and> cs_already_generated st' = 4673004190 \<and>
    total_value (cs_utxos st') + 40 \<le> total_value (cs_utxos demo_chain_state) + 4673004190"
proof -
  let ?st' = "\<lparr>cs_utxos = (cs_utxos demo_chain_state)(fst demo_paid \<mapsto> snd demo_paid), cs_already_generated = 4673004190\<rparr>"
  have "(\<lambda>s t. \<exists>h\<in>- {0}. chain_step be_lib demo_ssl zero_hash h s t)\<^sup>*\<^sup>* demo_chain_state ?st'"
    using demo_chain_step [of demo_ssl] by (intro r_into_rtranclp bexI [of _ 7]) simp_all
  moreover have "finite (dom (cs_utxos demo_chain_state))" "cs_already_generated demo_chain_state = 40"
    by (simp_all add: demo_chain_state_def)
  ultimately show ?thesis using chain_supply by (intro exI [of _ ?st']) fastforce
qed

section \<open>Types\<close>

text \<open>The value and the covenant of an output that can be spent.\<close>

definition covenant_typed :: "u64 \<Rightarrow> u16 \<Rightarrow> bytes \<Rightarrow> bool" where
  "covenant_typed v ty data \<longleftrightarrow> v \<noteq> 0 \<and> length data \<le> 65536 \<and>
    (ty = COV_TYPE_P2PK \<and> length data = 33 \<or>
     ty = COV_TYPE_VAULT \<and> (\<exists>c. wf_vault c \<and> canonical_whitelist c \<and> data = vault_bytes c) \<or>
     ty = COV_TYPE_MULTISIG \<and> is_ok (parse_multisig_covenant_data data) \<or>
     ty = COV_TYPE_HTLC \<and> is_ok (parse_htlc_covenant_data data) \<or>
     ty = COV_TYPE_CORE_STEALTH \<and> length data = 1600 \<or>
     ty = COV_TYPE_CORE_SIMPLICITY \<and> is_ok (parse_core_simplicity_covenant_data v data))"

definition entry_typed :: "UtxoEntry \<Rightarrow> bool" where
  "entry_typed e \<longleftrightarrow> covenant_typed (ue_value e) (ue_covenant_type e) (ue_covenant_data e)"

definition utxo_typed :: "utxo_set \<Rightarrow> bool" where
  "utxo_typed u \<longleftrightarrow> (\<forall>op e. u op = Some e \<longrightarrow> length (op_txid op) = 32 \<and> entry_typed e)"

lemma len64_unat: "length data \<le> 65536 \<Longrightarrow> unat (len64 data) = length data"
  by (simp add: unat_of_nat take_bit_nat_eq_self)

lemma simplicity_value: "parse_core_simplicity_covenant_data v data = Ok x \<Longrightarrow> 0 < unat v"
  by (auto simp: parse_core_simplicity_covenant_data_def unat_gt_0 split: if_splits)

lemma created_output_typed:
  assumes "genesis_output_step kind h rp [] out = Ok c" and "wf_output out" and "\<not> unspendable_type (out_covenant_type out)"
  shows "covenant_typed (out_value out) (out_covenant_type out) (out_covenant_data out)"
proof -
  have l: "length (out_covenant_data out) \<le> 65536" using assms(2) by (simp add: wf_output_def)
  show ?thesis
    using assms(1,3) l
    by (auto simp: genesis_output_step_def Let_def validate_p2pk_anchor_def validate_vault_multisig_htlc_def validate_stealth_da_def
        validate_core_simplicity_genesis_output_def validate_core_simplicity_covenant_data_def covenant_typed_def is_ok_iff
        unspendable_type_def parse_vault_covenant_data_def parse_vault_iff parse_stealth_covenant_data_def
        word_unat_eq_iff len64_unat split: if_splits dest: simplicity_value)
qed

lemma utxo_typed_upd: "utxo_typed u \<Longrightarrow> length (op_txid op) = 32 \<Longrightarrow> entry_typed e \<Longrightarrow> utxo_typed (u(op \<mapsto> e))"
  by (simp add: utxo_typed_def)

lemma apply_tx_typed:
  assumes "apply_with_suite_context ssl H tx txid u h ts mtp chain_id rotation registry = Ok (u', sm)"
    and "utxo_typed u" and "wf_tx tx" and "length txid = 32"
  shows "utxo_typed u'"
proof -
  let ?ctx = "apply_context tx txid u h ts mtp chain_id rotation registry"
  have c: "cx_tx ?ctx = tx" "cx_utxo_set ?ctx = u" "cx_txid ?ctx = txid" by (simp_all add: apply_context_def)
  obtain q' where a: "apply_impl ssl H ?ctx None = (Ok (u', sm), q')"
    using assms(1) by (metis apply_with_suite_context_def prod.collapse)
  have "validate_apply_inputs ?ctx = Ok ()" using a by (auto simp: apply_impl_def split: sum.splits)
  then obtain rp where "validate_tx_covenants_genesis tx h (Some rp) = Ok ()"
    by (auto simp: validate_apply_inputs_def apply_context_def validate_tx_covenants_genesis_def split: if_splits option.splits)
  then have g: "\<exists>r. validate_tx_output_covenant_genesis (tx_kind tx) out h rp = Ok r" if "out \<in> set (outputs tx)" for out
    using that by (auto simp: genesis_tx_iff is_ok_iff)
  have t: "covenant_typed (out_value out) (out_covenant_type out) (out_covenant_data out)"
    if "out \<in> set (outputs tx)" "\<not> unspendable_type (out_covenant_type out)" for out
  proof -
    have "wf_output out" using assms(3) that(1) by (simp add: wf_tx_def wf_core_def list_all_iff)
    then show ?thesis using g [OF that(1)] that(2) created_output_typed by (auto simp: output_genesis_iff split: option.splits)
  qed
  have "length (outputs tx) \<le> 2 ^ 32" using assms(3) by (simp add: wf_tx_def wf_core_def)
  with apply_impl_conserves [OF a] have u': "u' = u |` (- signing_outpoint ` set (inputs tx)) ++ created_from ?ctx 0 (outputs tx)"
    by (auto simp: c)
  have "length (op_txid op) = 32 \<and> entry_typed e" if e: "created_from ?ctx 0 (outputs tx) op = Some e" for op e
    using e t assms(4) by (auto simp: created_from_def c Let_def entry_typed_def new_entry_def split: if_splits)
  then show ?thesis
    using assms(2) unfolding u' utxo_typed_def by (auto simp: map_add_Some_iff restrict_map_def split: if_splits)
qed

lemma seq_txs_typed:
  assumes "seq_txs ssl H h ts mtp chain_id rotation registry txs u fees seen = Ok (u', fees')"
    and "utxo_typed u" and "list_all (\<lambda>(tx, txid). wf_tx tx \<and> length txid = 32) txs"
  shows "utxo_typed u'"
  using assms
proof (induction txs arbitrary: u fees seen)
  case (Cons x txs)
  obtain tx txid where x: "x = (tx, txid)" by (rule prod.exhaust)
  obtain seen1 u1 sm fees1 where s: "apply_with_suite_context ssl H tx txid u h ts mtp chain_id rotation registry = Ok (u1, sm)"
      "seq_txs ssl H h ts mtp chain_id rotation registry txs u1 fees1 seen1 = Ok (u', fees')"
    using Cons.prems(1) x by auto
  have "utxo_typed u1" using apply_tx_typed [OF s(1) Cons.prems(2)] Cons.prems(3) x by simp
  then show ?case using Cons.IH [OF s(2)] Cons.prems(3) by simp
qed simp

lemma coinbase_outputs_typed:
  assumes "apply_coinbase_outputs pb u h rotation = Ok u'" and "utxo_typed u" and "wf_parsed_block H pb" and "\<And>x. length (H x) = 32"
  shows "utxo_typed u'"
proof -
  obtain cb txid cmrs where f: "try_fold (apply_coinbase_output (tx_kind cb) txid h (rotation_or_default rotation))
      ([], u) (List.enumerate 0 (outputs cb)) = Ok (cmrs, u')" "cb \<in> set (pb_txs pb)" "txid \<in> set (pb_txids pb)"
    using assms(1) by (auto simp: apply_coinbase_outputs_def coinbase_and_txid_def first_or_def Let_def split: list.splits)
  have wf: "list_all wf_output (outputs cb)" "length txid = 32"
    using f(2,3) assms(3,4) by (auto simp: wf_parsed_block_def list_all_iff wf_tx_def wf_core_def)
  have "utxo_typed u'"
    if "try_fold (apply_coinbase_output (tx_kind cb) txid h rp) (c, u) (List.enumerate k outs) = Ok (cmrs, u')"
      "utxo_typed u" "list_all wf_output outs" for c k outs u rp
    using that
  proof (induction outs arbitrary: c u k)
    case (Cons out outs)
    obtain c1 u1 where 1: "apply_coinbase_output (tx_kind cb) txid h rp (c, u) (k, out) = Ok (c1, u1)"
        "try_fold (apply_coinbase_output (tx_kind cb) txid h rp) (c1, u1) (List.enumerate (Suc k) outs) = Ok (cmrs, u')"
      using Cons.prems(1) by auto
    let ?e = "\<lparr>ue_value = out_value out, ue_covenant_type = out_covenant_type out, ue_covenant_data = out_covenant_data out,
       creation_height = h, created_by_coinbase = True\<rparr>"
    obtain r where "validate_tx_output_covenant_genesis (tx_kind cb) out h rp = Ok r"
        "u1 = u \<or> \<not> unspendable_type (out_covenant_type out) \<and> u1 = u(\<lparr>op_txid = txid, op_vout = of_nat k\<rparr> \<mapsto> ?e)"
      using 1(1) by (auto simp: apply_coinbase_output_def Let_def unspendable_type_def split: if_splits)
    moreover have "wf_output out" using Cons.prems(3) by simp
    ultimately have "u1 = u \<or> entry_typed ?e \<and> u1 = u(\<lparr>op_txid = txid, op_vout = of_nat k\<rparr> \<mapsto> ?e)"
      using created_output_typed by (auto simp: entry_typed_def output_genesis_iff split: option.splits)
    then have "utxo_typed u1" using Cons.prems(2) utxo_typed_upd wf(2) by auto
    then show ?case using Cons.IH [OF 1(2)] Cons.prems(3) by simp
  qed simp
  from this [OF f(1) assms(2) wf(1)] show ?thesis .
qed

lemma connect_typed:
  assumes "connect_block_basic_in_memory_with_context L ssl H b ctx st = (Inr sm, st')"
    and "utxo_typed (cs_utxos st)" and "\<And>x. length (H x) = 32"
  shows "utxo_typed (cs_utxos st')"
proof -
  obtain p w0 w fees where c: "apply_coinbase_outputs (pc_pb p) (cs_utxos st) (cc_block_height ctx) (cc_rotation ctx) = Ok w0"
      "seq_txs ssl H (cc_block_height ctx) (timestamp (pb_header (pc_pb p))) (pc_block_mtp p) (cc_chain_id ctx)
        (cc_rotation ctx) (cc_registry ctx) (drop 1 (zip (pb_txs (pc_pb p)) (pb_txids (pc_pb p)))) w0 0 {} = Ok (w, fees)"
      "finalize_connected_block H p w fees 0 st = (Inr sm, st')" "wf_parsed_block H (pc_pb p)"
    using assms(1) by (rule connect_Ok)
  have "list_all (\<lambda>(tx, txid). wf_tx tx \<and> length txid = 32) (drop 1 (zip (pb_txs (pc_pb p)) (pb_txids (pc_pb p))))"
  proof -
    have "wf_tx tx \<and> length txid = 32" if "(tx, txid) \<in> set (zip (pb_txs (pc_pb p)) (pb_txids (pc_pb p)))" for tx txid
      using set_zip_leftD [OF that] set_zip_rightD [OF that] c(4) assms(3) by (auto simp: wf_parsed_block_def list_all_iff)
    then show ?thesis by (auto simp: list_all_iff dest!: in_set_dropD)
  qed
  from seq_txs_typed [OF c(2) coinbase_outputs_typed [OF c(1) assms(2) c(4) assms(3)] this]
  show ?thesis using c(3) by (auto simp: finalize_connected_block_def Let_def split: sum.splits if_splits)
qed

text \<open>What a typed entry promises to the code that spends it.\<close>

lemma entry_typed_spend:
  assumes "entry_typed e"
  shows "(\<exists>n. witness_slots (ue_covenant_type e) (ue_covenant_data e) = Ok n \<and> 0 < n \<and> n \<le> 12) \<and>
    (ue_covenant_type e \<noteq> COV_TYPE_CORE_SIMPLICITY \<longrightarrow> check_spend_covenant (ue_covenant_type e) (ue_covenant_data e) = Ok ())"
proof -
  let ?ty = "ue_covenant_type e" and ?data = "ue_covenant_data e"
  have l: "length ?data \<le> 65536" using assms by (simp add: entry_typed_def covenant_typed_def)
  consider "?ty = COV_TYPE_P2PK" | c where "?ty = COV_TYPE_VAULT" "wf_vault c" "canonical_whitelist c" "?data = vault_bytes c"
    | m where "?ty = COV_TYPE_MULTISIG" "parse_multisig_covenant_data ?data = Ok m"
    | c where "?ty = COV_TYPE_HTLC" "parse_htlc_covenant_data ?data = Ok c"
    | "?ty = COV_TYPE_CORE_STEALTH" "length ?data = 1600" | "?ty = COV_TYPE_CORE_SIMPLICITY"
    using assms unfolding entry_typed_def covenant_typed_def is_ok_iff by blast
  then show ?thesis
  proof cases
    case (2 c)
    then have "33 < length ?data" "?data ! 33 = v_key_count c"
      by (auto simp: wf_vault_def vault_bytes_def nth_append)
    moreover have "parse_vault_covenant_data_for_spend ?data = Ok c"
      using 2 by (simp add: parse_vault_covenant_data_for_spend_def parse_vault_iff)
    ultimately show ?thesis using 2
      by (auto simp: witness_slots_def check_spend_covenant_def word_unat_eq_iff get_or_1_def wf_vault_def)
  next
    case (3 m)
    note w = parse_multisig_wf [OF 3(2)]
    have "1 < length ?data" "?data ! 1 = m_key_count m" using w(2) by simp_all
    then show ?thesis using 3 w(1)
      by (auto simp: witness_slots_def check_spend_covenant_def word_unat_eq_iff get_or_1_def wf_multisig_def)
  qed (auto simp: witness_slots_def check_spend_covenant_def word_unat_eq_iff parse_stealth_covenant_data_def len64_unat
      ML_KEM_1024_CT_BYTES_def)
qed

interpretation typing: chain_invariant L ssl H UNIV "\<lambda>st. (\<forall>x. length (H x) = 32) \<longrightarrow> utxo_typed (cs_utxos st)"
  for L ssl H
  by unfold_locales (use connect_typed in blast)

text \<open>
  C7: well-typed chain states stay well typed and never make spending go wrong. When every
  unspent output of a state has a positive value, a covenant type that can be spent
  and covenant data that the parser of that type decodes in canonical form, the same
  holds after any sequence of blocks, the genesis block included, connected on either
  path. For every output of such a state the number of witness items it takes is
  known, between 1 and 12, and its covenant data passes the checks of an input, the
  Simplicity covenants apart, whose spends are switched off.
\<close>

theorem chain_well_typed:
  assumes "\<And>x. length (H x) = 32" and "(\<lambda>s t. \<exists>h\<in>UNIV. chain_step L ssl H h s t)\<^sup>*\<^sup>* st st'" and "utxo_typed (cs_utxos st)"
  shows "utxo_typed (cs_utxos st') \<and>
    (\<forall>op e. cs_utxos st' op = Some e \<longrightarrow>
      (\<exists>n. witness_slots (ue_covenant_type e) (ue_covenant_data e) = Ok n \<and> 0 < n \<and> n \<le> 12) \<and>
      (ue_covenant_type e \<noteq> COV_TYPE_CORE_SIMPLICITY \<longrightarrow> check_spend_covenant (ue_covenant_type e) (ue_covenant_data e) = Ok ()))"
proof -
  have "utxo_typed (cs_utxos st')" using typing.reachable [OF assms(2)] assms(1,3) by blast
  then show ?thesis using entry_typed_spend unfolding utxo_typed_def by blast
qed

theorem chain_well_typed_witness:
  "utxo_typed (cs_utxos demo_chain_state) \<and> (\<exists>st'. (\<lambda>s t. \<exists>h\<in>UNIV. chain_step be_lib demo_ssl zero_hash h s t)\<^sup>*\<^sup>* demo_chain_state st' \<and>
    fst demo_paid \<in> dom (cs_utxos st') \<and> utxo_typed (cs_utxos st'))"
proof -
  let ?st' = "\<lparr>cs_utxos = (cs_utxos demo_chain_state)(fst demo_paid \<mapsto> snd demo_paid), cs_already_generated = 4673004190\<rparr>"
  have len: "length (zero_hash x) = 32" for x by (simp add: zero_hash_def)
  have t: "utxo_typed (cs_utxos demo_chain_state)"
    by (simp add: utxo_typed_def demo_chain_state_def entry_typed_def covenant_typed_def demo_unspent_def)
  have r: "(\<lambda>s t. \<exists>h\<in>UNIV. chain_step be_lib demo_ssl zero_hash h s t)\<^sup>*\<^sup>* demo_chain_state ?st'"
    using demo_chain_step [of demo_ssl] by (intro r_into_rtranclp bexI [of _ 7]) simp_all
  have "utxo_typed (cs_utxos ?st')" using chain_well_typed [where H = zero_hash, OF len r t] by blast
  then show ?thesis using t r by (intro conjI exI [of _ ?st']) auto
qed

section \<open>The digest of a state\<close>

lemma compact_size_prefix:
  assumes "encode_compact_size a @ x = encode_compact_size b @ y"
  shows "a = b"
proof -
  have lt: "unat c < 2 ^ 64" for c :: u64 using unsigned_less [of c, where 'a = nat] by simp
  have "hd (encode_compact_size a) = hd (encode_compact_size b)"
    using arg_cong [OF assms, of hd] by (simp add: encode_compact_size_def)
  then have "length (encode_compact_size a) = length (encode_compact_size b)"
    by (auto simp: encode_compact_size_def word_unat_eq_iff unat_ucast word_le_nat_alt word_less_nat_alt split: if_splits)
  then have "encode_compact_size a = encode_compact_size b" using assms by simp
  then show ?thesis using lt [of a] lt [of b]
    by (auto simp: encode_compact_size_def word_unat_eq_iff unat_ucast word_le_nat_alt word_less_nat_alt split: if_splits)
qed

lemma entry_bytes_prefix:
  assumes "utxo_entry_bytes e @ x = utxo_entry_bytes e' @ y"
    and "length (ue_covenant_data e) \<le> 65536" and "length (ue_covenant_data e') \<le> 65536"
  shows "e = e' \<and> x = y"
proof -
  let ?d = "ue_covenant_data e" and ?d' = "ue_covenant_data e'"
  have 1: "ue_value e = ue_value e'" "ue_covenant_type e = ue_covenant_type e'"
      "encode_compact_size (len64 ?d) @ ?d @ to_le64 (creation_height e) @ [if created_by_coinbase e then 1 else 0] @ x =
       encode_compact_size (len64 ?d') @ ?d' @ to_le64 (creation_height e') @ [if created_by_coinbase e' then 1 else 0] @ y"
    using assms(1) by (simp_all add: utxo_entry_bytes_def append_eq_append_conv)
  have "len64 ?d = len64 ?d'" using compact_size_prefix [OF 1(3)] .
  moreover from this have "length ?d = length ?d'" using assms(2,3) by (metis len64_unat)
  ultimately have "?d = ?d'" "creation_height e = creation_height e'"
      "x = y" and c: "(if created_by_coinbase e then 1 else 0 :: u8) = (if created_by_coinbase e' then 1 else 0)"
    using 1(3) by (simp_all add: append_eq_append_conv)
  moreover have "created_by_coinbase e = created_by_coinbase e'"
    using c by (cases "created_by_coinbase e"; cases "created_by_coinbase e'") simp_all
  ultimately show ?thesis using 1(1,2) by (intro conjI UtxoEntry.equality) simp_all
qed

lemma concat_prefix_inject:
  assumes "concat (map f xs) = concat (map f ys)" and "length xs = length ys"
    and "\<And>a b x y. a \<in> set xs \<Longrightarrow> b \<in> set ys \<Longrightarrow> f a @ x = f b @ y \<Longrightarrow> a = b \<and> x = y"
  shows "xs = ys"
  using assms(2,1,3)
proof (induction xs ys rule: list_induct2)
  case (Cons a xs b ys)
  have "f a @ concat (map f xs) = f b @ concat (map f ys)" using Cons.prems(1) by simp
  from Cons.prems(2) [OF _ _ this] have "a = b" "concat (map f xs) = concat (map f ys)" by simp_all
  moreover from Cons.IH [OF this(2)] have "xs = ys" using Cons.prems(2) by (meson list.set_intros(2))
  ultimately show ?case by simp
qed simp

definition utxo_items :: "utxo_set \<Rightarrow> (bytes \<times> UtxoEntry) list" where
  "utxo_items u = map (\<lambda>op. (utxo_key op, the (u op))) (sorted_key_list_of_set utxo_key (dom u))"

lemma utxo_key_inj: "inj_on utxo_key {op. length (op_txid op) = 32}"
proof (rule inj_onI)
  fix a b :: Outpoint
  assume "a \<in> {op. length (op_txid op) = 32}" "b \<in> {op. length (op_txid op) = 32}" "utxo_key a = utxo_key b"
  then show "a = b" by (cases a; cases b) (simp add: utxo_key_def append_eq_append_conv)
qed

lemma class_sorted_key_list:
  "linorder.sorted_key_list_of_set (\<le>) f = sorted_key_list_of_set f" for f :: "'b \<Rightarrow> bytes"
  unfolding sorted_key_list_of_set_def linorder.sorted_key_list_of_set_def [OF linorder_class.linorder_axioms]
    insort_key_def linorder.insort_key_def [OF linorder_class.linorder_axioms] by (rule refl)

lemma utxo_items_set:
  assumes "utxo_typed u" and "finite (dom u)"
  shows "set (utxo_items u) = {(utxo_key op, e) | op e. u op = Some e}" and "length (utxo_items u) = card (dom u)"
proof -
  let ?S = "{op :: Outpoint. length (op_txid op) = 32}"
  have f: "folding_insort_key ((\<le>) :: bytes \<Rightarrow> bytes \<Rightarrow> bool) (<) ?S utxo_key"
    by (intro folding_insort_key.intro folding_insort_key_axioms.intro utxo_key_inj) (unfold_locales)
  have S: "dom u \<subseteq> ?S" using assms(1) by (auto simp: utxo_typed_def)
  note k = folding_insort_key.set_sorted_key_list_of_set [OF f S assms(2), unfolded class_sorted_key_list]
    folding_insort_key.length_sorted_key_list_of_set [OF f S, unfolded class_sorted_key_list]
  show "set (utxo_items u) = {(utxo_key op, e) | op e. u op = Some e}"
    unfolding utxo_items_def set_map k(1) by (auto simp: image_iff)
  show "length (utxo_items u) = card (dom u)" by (simp add: utxo_items_def k(2))
qed

lemma utxo_set_bytes_inject:
  assumes "utxo_set_bytes u = utxo_set_bytes u'" and "utxo_typed u" and "utxo_typed u'"
    and "finite (dom u)" and "finite (dom u')" and "card (dom u) < 2 ^ 64" and "card (dom u') < 2 ^ 64"
  shows "u = u'"
proof -
  let ?f = "\<lambda>(key, entry). key @ utxo_entry_bytes entry"
  have b: "utxo_set_bytes w = UTXO_SET_HASH_DST @ to_le64 (len64 (utxo_items w)) @ concat (map ?f (utxo_items w))" for w
    by (simp add: utxo_set_bytes_def utxo_items_def Let_def)
  have e: "len64 (utxo_items u) = len64 (utxo_items u')" "concat (map ?f (utxo_items u)) = concat (map ?f (utxo_items u'))"
    using assms(1) unfolding b by (simp_all add: append_eq_append_conv)
  have items: "length k = 36 \<and> length (ue_covenant_data x) \<le> 65536" if "(k, x) \<in> set (utxo_items w)" "utxo_typed w" "finite (dom w)" for k x w
    using that by (auto simp: utxo_items_set utxo_typed_def utxo_key_def entry_typed_def covenant_typed_def)
  have "length (utxo_items u) = length (utxo_items u')"
  proof -
    have "unat (len64 (utxo_items w)) = length (utxo_items w)" if "card (dom w) < 2 ^ 64" "utxo_typed w" "finite (dom w)" for w
      using that by (simp add: utxo_items_set unat_of_nat take_bit_nat_eq_self)
    then show ?thesis using e(1) assms(2-) by metis
  qed
  moreover have "a = b \<and> x = y" if "a \<in> set (utxo_items u)" "b \<in> set (utxo_items u')" "?f a @ x = ?f b @ y" for a b x y
  proof -
    obtain k c k' c' where ab: "a = (k, c)" "b = (k', c')" by (metis surj_pair)
    have i: "length k = 36" "length k' = 36" "length (ue_covenant_data c) \<le> 65536" "length (ue_covenant_data c') \<le> 65536"
      using items [of k c u] items [of k' c' u'] that(1,2) ab assms(2-5) by simp_all
    then have "k = k'" "utxo_entry_bytes c @ x = utxo_entry_bytes c' @ y"
      using that(3) ab by (simp_all add: append_eq_append_conv)
    then show ?thesis using entry_bytes_prefix i(3,4) ab by blast
  qed
  ultimately have "set (utxo_items u) = set (utxo_items u')" using concat_prefix_inject [OF e(2)] by simp
  then have eq: "{(utxo_key op, e) | op e. u op = Some e} = {(utxo_key op, e) | op e. u' op = Some e}"
    using assms(2-5) by (simp add: utxo_items_set)
  have sub: "w' op = Some e" if "{(utxo_key op, e) | op e. w op = Some e} = {(utxo_key op, e) | op e. w' op = Some e}"
      "w op = Some e" "utxo_typed w" "utxo_typed w'" for w w' op e
  proof -
    have "(utxo_key op, e) \<in> {(utxo_key op, e) | op e. w' op = Some e}" unfolding that(1) [symmetric] using that(2) by blast
    then obtain op' where op': "utxo_key op = utxo_key op'" "w' op' = Some e" by blast
    moreover have "length (op_txid op) = 32" "length (op_txid op') = 32" using that(2-4) op'(2) by (simp_all add: utxo_typed_def)
    ultimately show ?thesis using inj_onD [OF utxo_key_inj, of op op'] by simp
  qed
  show ?thesis
  proof
    fix op
    show "u op = u' op"
    proof (cases "u op")
      case None
      have "u' op \<noteq> Some e" for e using sub [OF eq [symmetric] _ assms(3,2)] None by fastforce
      then show ?thesis unfolding None by (cases "u' op") auto
    next
      case (Some e)
      then show ?thesis using sub [OF eq Some assms(2,3)] by simp
    qed
  qed
qed

text \<open>
  C10: the digest a connected block reports identifies the set of unspent outputs. For
  well-typed sets of fewer than \<open>2 ^ 64\<close> outputs and a hash that does not collide on
  their two serialisations, equal digests mean the same outpoints with the same
  values, covenants, heights and coinbase marks, whatever order they were added in.
\<close>

theorem state_digest_binding:
  assumes "utxo_typed u" and "utxo_typed u'" and "finite (dom u)" and "finite (dom u')"
    and "card (dom u) < 2 ^ 64" and "card (dom u') < 2 ^ 64" and "inj_on H {utxo_set_bytes u, utxo_set_bytes u'}"
  shows "utxo_set_hash H u = utxo_set_hash H u' \<longleftrightarrow> u = u'"
proof
  assume "utxo_set_hash H u = utxo_set_hash H u'"
  then have "utxo_set_bytes u = utxo_set_bytes u'"
    unfolding utxo_set_hash_def by (rule inj_onD [OF assms(7)]) simp_all
  then show "u = u'" by (rule utxo_set_bytes_inject [OF _ assms(1-6)])
qed simp

theorem state_digest_binding_witness:
  "utxo_set_hash (\<lambda>x. x) [fst demo_paid \<mapsto> snd demo_paid] \<noteq> utxo_set_hash (\<lambda>x. x) (cs_utxos demo_chain_state)"
proof -
  have t: "utxo_typed [fst demo_paid \<mapsto> snd demo_paid]" "utxo_typed (cs_utxos demo_chain_state)"
      "dom (cs_utxos demo_chain_state) = {\<lparr>op_txid = replicate 32 6, op_vout = 0\<rparr>}"
      "fst demo_paid \<noteq> \<lparr>op_txid = replicate 32 6, op_vout = 0\<rparr>"
    by (simp_all add: utxo_typed_def demo_chain_state_def entry_typed_def covenant_typed_def demo_unspent_def demo_paid_def)
  have "[fst demo_paid \<mapsto> snd demo_paid] \<noteq> cs_utxos demo_chain_state"
    using t(3,4) by (metis dom_empty dom_fun_upd option.simps(3) singleton_insert_inj_eq')
  then show ?thesis
    by (subst state_digest_binding [OF t(1,2)]) (simp_all add: t(3))
qed

end
