(* ===== verification/Queue_Room.thy ===== *)
theory Queue_Room
  imports Utxo
begin

text \<open>
  Room in the queue of deferred checks. A check that passes carries an ML-DSA-87 key and
  signature, so it takes 7253 bytes of the queue; an operation that succeeds without
  a queue therefore succeeds with one that has room for as many checks as the
  operation has full witness items.
\<close>

definition room :: "SuiteRegistry \<Rightarrow> nat \<Rightarrow> SigCheckQueue \<Rightarrow> bool" where
  "room reg n q \<longleftrightarrow> registry_fits reg q \<and> queued_bytes q = 7253 * length (q_tasks q) \<and> length (q_tasks q) + n \<le> 9375"

definition grown :: "SuiteRegistry \<Rightarrow> nat \<Rightarrow> SigCheckQueue \<Rightarrow> SigCheckQueue \<Rightarrow> bool" where
  "grown reg n q q' \<longleftrightarrow> registry_fits reg q' \<and> queued_bytes q' = 7253 * length (q_tasks q') \<and>
    length (q_tasks q') \<le> length (q_tasks q) + n"

lemma grown_room: "grown reg n q q' \<Longrightarrow> room reg (n + k) q \<Longrightarrow> room reg k q'"
  by (simp add: grown_def room_def)

lemma grown_trans: "grown reg n q q' \<Longrightarrow> grown reg k q' q'' \<Longrightarrow> grown reg (n + k) q q''"
  by (simp add: grown_def)

lemma room_mono: "room reg n q \<Longrightarrow> k \<le> n \<Longrightarrow> room reg k q"
  by (simp add: room_def)

lemma room_grown: "room reg n q \<Longrightarrow> grown reg k q q"
  by (simp add: room_def grown_def)

context queue_state
begin

text \<open>From the state \<open>s\<close>, what \<open>m\<close> does without a queue it does with one that has room for \<open>n\<close> more checks.\<close>

definition fits_at :: "SuiteRegistry \<Rightarrow> nat \<Rightarrow> ('s, 'a) st \<Rightarrow> 's \<Rightarrow> bool" where
  "fits_at reg n m s \<longleftrightarrow> (\<forall>x s' q. m (setq None s) = (Inr x, s') \<longrightarrow> room reg n q \<longrightarrow>
    getq s' = None \<and> (\<exists>q'. m (setq (Some q) s) = (Inr x, setq (Some q') s') \<and> grown reg n q q'))"

lemma fits_atD:
  assumes "fits_at reg n m s" and "m (setq None s) = (Inr x, s')" and "room reg n q"
  obtains q' where "getq s' = None" "m (setq (Some q) s) = (Inr x, setq (Some q') s')" "grown reg n q q'"
  using assms unfolding fits_at_def by blast

lemma fits_untouched:
  assumes "\<And>q. m (setq q s) = (fst (f s), setq q (snd (f s)))"
  shows "fits_at reg n m s"
  unfolding fits_at_def
proof (intro allI impI)
  fix x s' q assume "m (setq None s) = (Inr x, s')" and q: "room reg n q"
  then have f: "fst (f s) = Inr x" "s' = setq None (snd (f s))" using assms [of None] by simp_all
  show "getq s' = None \<and> (\<exists>q'. m (setq (Some q) s) = (Inr x, setq (Some q') s') \<and> grown reg n q q')"
  proof (intro conjI exI)
    show "getq s' = None" by (simp add: f(2))
    show "m (setq (Some q) s) = (Inr x, setq (Some q) s')" unfolding assms [of "Some q"] f by simp
    show "grown reg n q q" by (rule room_grown [OF q])
  qed
qed

lemma fits_lift: "fits_at reg n (st_lift r) s"
  by (rule fits_untouched [where f = "\<lambda>s. (r, s)"]) (simp add: st_lift_def)

lemma fits_mono:
  assumes "fits_at reg k m s" and "k \<le> n"
  shows "fits_at reg n m s"
  unfolding fits_at_def
proof (intro allI impI)
  fix x s' q assume 1: "m (setq None s) = (Inr x, s')" "room reg n q"
  obtain q' where "getq s' = None" "m (setq (Some q) s) = (Inr x, setq (Some q') s')" "grown reg k q q'"
    by (rule fits_atD [OF assms(1) 1(1) room_mono [OF 1(2) assms(2)]])
  then show "getq s' = None \<and> (\<exists>q'. m (setq (Some q) s) = (Inr x, setq (Some q') s') \<and> grown reg n q q')"
    using assms(2) by (auto simp: grown_def)
qed

lemma fits_bind:
  assumes m: "fits_at reg n m s" and f: "\<And>x s'. m (setq None s) = (Inr x, s') \<Longrightarrow> fits_at reg k (f x) s'"
  shows "fits_at reg (n + k) (st_bind m f) s"
  unfolding fits_at_def
proof (intro allI impI)
  fix y s'' q assume "st_bind m f (setq None s) = (Inr y, s'')" and q: "room reg (n + k) q"
  then obtain x s' where 1: "m (setq None s) = (Inr x, s')" "f x s' = (Inr y, s'')" by (auto simp: st_simps)
  obtain q' where 2: "getq s' = None" "m (setq (Some q) s) = (Inr x, setq (Some q') s')" "grown reg n q q'"
    by (rule fits_atD [OF m 1(1) room_mono [OF q le_add1]])
  have "setq None s' = s'" using set_get [of s'] 2(1) by simp
  then have "f x (setq None s') = (Inr y, s'')" using 1(2) by simp
  then obtain q'' where 3: "getq s'' = None" "f x (setq (Some q') s') = (Inr y, setq (Some q'') s'')" "grown reg k q' q''"
    by (rule fits_atD [OF f [OF 1(1)] _ grown_room [OF 2(3) q]])
  have "st_bind m f (setq (Some q) s) = (Inr y, setq (Some q'') s'')" using 2(2) 3(2) by (simp add: st_bind_def)
  then show "getq s'' = None \<and> (\<exists>q'. st_bind m f (setq (Some q) s) = (Inr y, setq (Some q') s'') \<and> grown reg (n + k) q q')"
    using 3(1) grown_trans [OF 2(3) 3(3)] by blast
qed

lemma fits_bind_lift:
  assumes "\<And>x. r = Inr x \<Longrightarrow> fits_at reg n (f x) s"
  shows "fits_at reg n (st_bind (st_lift r) f) s"
  using fits_lift [of reg n "r" s] assms
  by (cases r) (auto simp: fits_at_def st_bind_def st_lift_def)

lemma fits_then:
  "fits_at reg n m s \<Longrightarrow> (\<And>x s'. m (setq None s) = (Inr x, s') \<Longrightarrow> fits_at reg k m' s') \<Longrightarrow> fits_at reg (n + k) (st_then m m') s"
  by (simp add: st_then_def fits_bind)

lemma fits_then_lift: "fits_at reg n m s \<Longrightarrow> fits_at reg n (st_then (st_lift r) m) s"
  by (simp add: st_then_def fits_bind_lift)

lemma fits_for_each:
  assumes "\<And>x t. x \<in> set xs \<Longrightarrow> fits_at reg (n x) (f x) t"
  shows "fits_at reg (sum_list (map n xs)) (st_for_each f xs) s"
  using assms by (induction xs arbitrary: s) (auto intro: fits_lift intro!: fits_then)

text \<open>An operation that differs only when it fails.\<close>

lemma fits_same_success:
  assumes "fits_at reg n m s" and "\<And>s x s'. m s = (Inr x, s') \<longleftrightarrow> m' s = (Inr x, s')"
  shows "fits_at reg n m' s"
  using assms(1) unfolding fits_at_def assms(2) by simp

end

section \<open>One check\<close>

definition sums_fit :: "SuiteRegistry \<Rightarrow> bool" where
  "sums_fit reg \<longleftrightarrow> (\<forall>(s, p) \<in> set reg. checked_add (pubkey_len p) (sig_len p) \<noteq> None)"

definition full :: "WitnessItem \<Rightarrow> bool" where
  "full w \<longleftrightarrow> length (pubkey w) = 2592 \<and> length (signature w) = 4628"

definition short :: "WitnessItem \<Rightarrow> bool" where
  "short w \<longleftrightarrow> length (pubkey w) < 2 ^ 64 \<and> length (signature w) < 2 ^ 64"

lemma min_payload:
  assumes "sums_fit reg" and "registry_lookup reg s = Some p" and "pubkey_len p = 2592" and "sig_len p = 4627"
  obtains v where "min_sigcheck_payload_bytes reg = Inr (Some v)" and "unat v \<le> 7219"
proof -
  let ?f = "\<lambda>min_payload (_ :: u8, params). and_then (ok_or ''SuiteRegistry payload footprint overflow''
        (checked_add (pubkey_len params) (sig_len params))) (\<lambda>payload_bytes.
      Inr (Some (case min_payload of Some current \<Rightarrow> min current payload_bytes | None \<Rightarrow> payload_bytes)))"
  have fold: "\<exists>r. try_fold ?f a xs = Inr r \<and> (\<forall>c. a = Some c \<longrightarrow> (\<exists>v. r = Some v \<and> v \<le> c)) \<and>
      ((s, p) \<in> set xs \<longrightarrow> (\<exists>v. r = Some v \<and> v \<le> 7219))"
    if "\<forall>(s, p) \<in> set xs. checked_add (pubkey_len p) (sig_len p) \<noteq> None" for a and xs :: "(u8 \<times> SuiteParams) list"
    using that
  proof (induction xs arbitrary: a)
    case (Cons x xs)
    obtain t q where x: "x = (t, q)" by (rule prod.exhaust)
    obtain b where b: "checked_add (pubkey_len q) (sig_len q) = Some b" using Cons.prems x by auto
    let ?c = "case a of Some current \<Rightarrow> min current b | None \<Rightarrow> b"
    have "\<exists>r. try_fold ?f (Some ?c) xs = Inr r \<and> (\<forall>c. Some ?c = Some c \<longrightarrow> (\<exists>v. r = Some v \<and> v \<le> c)) \<and>
        ((s, p) \<in> set xs \<longrightarrow> (\<exists>v. r = Some v \<and> v \<le> 7219))"
      by (rule Cons.IH) (use Cons.prems in \<open>simp add: list.set\<close>)
    then obtain v where v: "try_fold ?f (Some ?c) xs = Inr (Some v)" "v \<le> ?c" "(s, p) \<in> set xs \<longrightarrow> v \<le> 7219" by auto
    have "try_fold ?f a (x # xs) = Inr (Some v)" using v(1) b x by simp
    moreover have "b = 7219" if "x = (s, p)" using that b x assms(3,4) by (auto simp: checked_add_def)
    moreover have "?c \<le> b" "\<forall>c. a = Some c \<longrightarrow> ?c \<le> c" by (auto split: option.split)
    ultimately show ?case using v(2,3) by (intro exI [of _ "Some v"]) auto
  qed simp
  have mem: "(s, p) \<in> set reg" using assms(2) by (simp add: registry_lookup_def bt_get_def map_of_SomeD)
  have "\<forall>(s, p) \<in> set reg. checked_add (pubkey_len p) (sig_len p) \<noteq> None" using assms(1) by (simp add: sums_fit_def)
  from fold [OF this, of None] obtain r where r: "try_fold ?f None reg = Inr r" "(s, p) \<in> set reg \<longrightarrow> (\<exists>v. r = Some v \<and> v \<le> 7219)"
    by (elim exE conjE)
  then obtain v where "r = Some v" "v \<le> 7219" using mem by (elim impE exE conjE)
  then show ?thesis using that [of v] r(1) by (simp add: word_le_nat_alt min_sigcheck_payload_bytes_def)
qed

lemma queue_or_verify_fits:
  assumes "sums_fit reg" and "length pk < 2 ^ 64" and "length sg < 2 ^ 64"
  shows "qs.fits_at reg (if length pk = 2592 \<and> length sg = 4627 then 1 else 0) (queue_or_verify_signature ssl s pk sg d reg err) u"
  unfolding qs.fits_at_def
proof (intro allI impI)
  let ?n = "if length pk = 2592 \<and> length sg = 4627 then 1 else 0 :: nat"
  fix x s' q
  assume m: "queue_or_verify_signature ssl s pk sg d reg err None = (Inr x, s')" and q: "room reg ?n q"
  have v: "verify_sig_with_registry ssl s pk sg d (Some reg) = Ok True" and s': "s' = None"
    using m by (auto simp: queue_or_verify_signature_def check_signature_def split: if_splits)
  obtain p where p: "registry_lookup reg s = Some p" "pubkey_len p = 2592" "sig_len p = 4627" "len64 pk = 2592" "len64 sg = 4627"
    using v verify_with_registry_iff [of ssl s pk sg d reg] by blast
  have "unat (len64 pk) = length pk" "unat (len64 sg) = length sg" using assms(2,3) by (simp_all add: unat_of_nat take_bit_nat_eq_self)
  then have len: "length pk = 2592" "length sg = 4627" using p(4,5) by simp_all
  obtain v where min: "min_sigcheck_payload_bytes reg = Inr (Some v)" "unat v \<le> 7219"
    using min_payload [OF assms(1) p(1-3)] .
  define q1 where "q1 = q\<lparr>q_registry := Some reg\<rparr>"
  have e: "ensure_registry reg q = (Ok (), q1)"
    using q by (cases q) (auto simp: room_def registry_fits_def ensure_registry_def q1_def)
  have "max v CURRENT_NATIVE_QUEUE_PAYLOAD_FLOOR_BYTES = 7219"
    using min(2) by (simp add: CURRENT_NATIVE_QUEUE_PAYLOAD_FLOOR_BYTES_def const_defs max_def word_le_nat_alt)
  then have "max_sigcheck_queue_tasks (Some reg) = Ok 9375"
    by (simp add: max_sigcheck_queue_tasks_def min(1) SIGCHECK_TASK_FIXED_OVERHEAD_BYTES_def MAX_SIGCHECK_QUEUE_BYTES_def
        checked_add_def map_err_def const_defs unat_div)
  then have "fst (queue_push s pk sg d err q1) = Ok () \<and> length (q_tasks (snd (queue_push s pk sg d err q1))) = Suc (length (q_tasks q)) \<and>
      queued_bytes (snd (queue_push s pk sg d err q1)) = 7253 * Suc (length (q_tasks q)) \<and>
      q_registry (snd (queue_push s pk sg d err q1)) = Some reg"
    using q len by (simp add: queue_push_def q1_def ensure_task_budget_def room_def sigcheck_task_bytes_def
        SIGCHECK_TASK_FIXED_OVERHEAD_BYTES_def next_queued_bytes_def usize_checked_add_def usize_max_def MAX_SIGCHECK_QUEUE_BYTES_def)
  then show "s' = None \<and> (\<exists>q'. queue_or_verify_signature ssl s pk sg d reg err (Some q) = (Inr x, Some q') \<and> grown reg ?n q q')"
    using s' len e by (intro conjI exI [of _ "snd (queue_push s pk sg d err q1)"])
      (auto simp: queue_or_verify_signature_def st_then_def st_bind_def grown_def registry_fits_def prod_eq_iff split: prod.splits)
qed

section \<open>One spend\<close>

lemma on_queue_fits:
  assumes "qs.fits_at reg n m None"
  shows "sd.fits_at reg n (on_queue m) s"
  unfolding sd.fits_at_def
proof (intro allI impI)
  fix x s' q assume "on_queue m (fst s, None) = (Inr x, s')" and q: "room reg n q"
  then obtain q0 where m: "m None = (Inr x, q0)" "s' = (fst s, q0)" by (auto simp: on_queue_def split: prod.splits)
  obtain q' where "q0 = None" "m (Some q) = (Inr x, Some q')" "grown reg n q q'"
    by (rule qs.fits_atD [OF assms m(1) q])
  then show "snd s' = None \<and> (\<exists>q'. on_queue m (fst s, Some q) = (Inr x, fst s', Some q') \<and> grown reg n q q')"
    using m(2) by (auto simp: on_queue_def)
qed

lemma on_cache_fits: "sd.fits_at reg n (on_cache m) s"
  by (rule sd.fits_untouched [where f = "\<lambda>s. case m (fst s) of (r, c') \<Rightarrow> (r, (c', snd s))"])
    (simp add: on_cache_def split: prod.split)

lemma verify_witness_sig_fits:
  assumes "sums_fit reg" and "short w"
  shows "sd.fits_at reg (of_bool (full w)) (verify_witness_sig ssl H w i val chain_id reg err) s"
  unfolding verify_witness_sig_def
proof (rule sd.fits_bind_lift)
  fix x assume x: "extract_crypto_sig_and_sighash w = Inr x"
  then have sig: "fst x = butlast (signature w)" "signature w \<noteq> []"
    by (auto simp: extract_crypto_sig_and_sighash_def split: if_splits)
  then have len: "length (fst x) = length (signature w) - 1" "0 < length (signature w)" by simp_all
  have "(if length (pubkey w) = 2592 \<and> length (fst x) = 4627 then 1 else 0) = (of_bool (full w) :: nat)"
    using len by (auto simp: full_def)
  moreover have "qs.fits_at reg (if length (pubkey w) = 2592 \<and> length (fst x) = 4627 then 1 else 0)
      (queue_or_verify_signature ssl (suite_id w) (pubkey w) (fst x) d reg err) u" for d u
    using assms len by (intro queue_or_verify_fits) (auto simp: short_def)
  ultimately have q: "qs.fits_at reg (of_bool (full w)) (queue_or_verify_signature ssl (suite_id w) (pubkey w) (fst x) d reg err) u" for d u
    by simp
  have "sd.fits_at reg (0 + of_bool (full w))
      (st_bind (on_cache (sighash_v1_digest_with_cache H i val chain_id (snd x))) (\<lambda>digest.
        on_queue (queue_or_verify_signature ssl (suite_id w) (pubkey w) (fst x) digest reg err))) s"
    by (intro sd.fits_bind on_cache_fits on_queue_fits q)
  then show "sd.fits_at reg (of_bool (full w)) (case x of (crypto_sig, ty) \<Rightarrow>
      st_bind (on_cache (sighash_v1_digest_with_cache H i val chain_id ty)) (\<lambda>digest.
        on_queue (queue_or_verify_signature ssl (suite_id w) (pubkey w) crypto_sig digest reg err))) s"
    by (simp add: case_prod_beta)
qed

lemma key_and_sig_fits:
  "sums_fit reg \<Longrightarrow> short w \<Longrightarrow>
    sd.fits_at reg (of_bool (full w)) (verify_mldsa_key_and_sig_q ssl H w key i val chain_id reg e e') s"
  unfolding verify_mldsa_key_and_sig_q_def by (simp add: sd.fits_lift verify_witness_sig_fits)

lemma p2pk_fits:
  "sums_fit (registry_or_default registry) \<Longrightarrow> short w \<Longrightarrow>
    sd.fits_at (registry_or_default registry) (of_bool (full w)) (validate_p2pk_spend_q ssl H entry w i val chain_id h rotation registry) s"
  unfolding validate_p2pk_spend_q_def Let_def by (intro sd.fits_bind_lift sd.fits_then_lift key_and_sig_fits)

lemma htlc_fits:
  "sums_fit (registry_or_default registry) \<Longrightarrow> short w \<Longrightarrow>
    sd.fits_at (registry_or_default registry) (of_bool (full w)) (validate_htlc_spend_q ssl H entry p w x rotation registry) s"
  unfolding validate_htlc_spend_q_def Let_def by (intro sd.fits_bind_lift sd.fits_then_lift verify_witness_sig_fits)

lemma stealth_fits:
  "sums_fit (registry_or_default registry) \<Longrightarrow> short w \<Longrightarrow>
    sd.fits_at (registry_or_default registry) (of_bool (full w)) (validate_stealth_spend_q ssl H entry w i val chain_id h rotation registry) s"
  unfolding validate_stealth_spend_q_def Let_def by (intro sd.fits_bind_lift sd.fits_then_lift verify_witness_sig_fits)

definition full_items :: "WitnessItem list \<Rightarrow> nat" where
  "full_items ws = (\<Sum>w\<leftarrow>ws. of_bool (full w))"

lemma full_items_append [simp]: "full_items (xs @ ys) = full_items xs + full_items ys"
  by (simp add: full_items_def)

lemma full_items_simps [simp]: "full_items [] = 0" "full_items (w # ws) = of_bool (full w) + full_items ws"
  by (simp_all add: full_items_def)

lemma threshold_slots_fits:
  assumes "sums_fit reg" and "\<forall>w \<in> snd ` set kws. short w"
  shows "sd.fits_at reg (full_items (map snd kws)) (threshold_slots ssl H i val chain_id native ctx reg kws v) s"
  using assms(2)
proof (induction kws arbitrary: v s)
  case (Cons kw kws)
  obtain key w where kw: "kw = (key, w)" by (rule prod.exhaust)
  have "sd.fits_at reg (of_bool (full w)) (threshold_slot ssl H i val chain_id native ctx reg key w v) s" for v s
  proof -
    have "sd.fits_at reg (of_bool (full w) + 0) (st_then (verify_mldsa_key_and_sig_q ssl H w key i val chain_id reg e e')
        (st_ok (saturating_add v 1))) s" for e e'
      using assms(1) Cons.prems kw by (intro sd.fits_then key_and_sig_fits sd.fits_lift) auto
    then have "sd.fits_at reg (of_bool (full w)) (st_then (verify_mldsa_key_and_sig_q ssl H w key i val chain_id reg e e')
        (st_ok (saturating_add v 1))) s" for e e' by simp
    then show ?thesis unfolding threshold_slot_def
      by (simp add: sd.fits_lift sd.fits_bind_lift sd.fits_then_lift)
  qed
  moreover have "sd.fits_at reg (full_items (map snd kws)) (threshold_slots ssl H i val chain_id native ctx reg kws v) s" for v s
    using Cons by simp
  ultimately have "sd.fits_at reg (of_bool (full w) + full_items (map snd kws))
      (st_bind (threshold_slot ssl H i val chain_id native ctx reg key w v)
        (threshold_slots ssl H i val chain_id native ctx reg kws)) s" for v s by (rule sd.fits_bind)
  then show ?case by (simp only: kw threshold_slots.simps full_items_simps list.map snd_conv)
qed (simp add: sd.fits_lift)

lemma threshold_fits:
  assumes "registry_or_default registry = reg" and "sums_fit reg" and "\<forall>w \<in> set ws. short w"
  shows "sd.fits_at reg (full_items ws)
    (validate_threshold_sig_spend_q ssl H keys threshold ws i val chain_id h ctx rotation registry) s"
proof (cases "length ws = length keys")
  case False
  then show ?thesis
    by (intro sd.fits_untouched [where f = "\<lambda>s. (Err TxErrParse ''witness slot assignment mismatch'', s)"])
      (simp add: validate_threshold_sig_spend_q_def)
next
  case True
  let ?native = "native_spend_suites (rotation_or_default rotation) h"
  let ?m = "st_bind (threshold_slots ssl H i val chain_id ?native ctx reg (zip keys ws) 0)
       (\<lambda>valid. if valid < threshold
          then st_err TxErrSigInvalid (threshold_sig_error_message ctx ThresholdNotMet) else st_ok ())"
  have "\<forall>w \<in> snd ` set (zip keys ws). short w" using assms(3) by (auto dest: set_zip_rightD)
  from threshold_slots_fits [OF assms(2) this] True
  have "sd.fits_at reg (full_items ws + 0) ?m s"
    by (intro sd.fits_bind) (simp_all add: sd.fits_lift)
  then have "sd.fits_at reg (full_items ws) ?m s" by simp
  then show ?thesis
    by (rule sd.fits_same_success) (use True assms(1) in \<open>auto simp: validate_threshold_sig_spend_q_def Let_def split: sum.splits prod.splits\<close>)
qed

section \<open>One transaction\<close>

lemma on_spend_fits:
  assumes "\<And>t. sd.fits_at reg n m t"
  shows "ud.fits_at reg n (on_spend m) s"
  unfolding ud.fits_at_def
proof (intro allI impI)
  fix x s' q assume "on_spend m (s\<lparr>sig_queue := None\<rparr>) = (Inr x, s')" and q: "room reg n q"
  then obtain c q0 where m: "m (sighash_cache s, None) = (Inr x, (c, q0))" "s' = s\<lparr>sighash_cache := c, sig_queue := q0\<rparr>"
    by (auto simp: on_spend_def split: prod.splits)
  obtain q' where "q0 = None" "m (sighash_cache s, Some q) = (Inr x, (c, Some q'))" "grown reg n q q'"
    using sd.fits_atD [OF assms [of "(sighash_cache s, None)"] _ q, of x "(c, q0)"] m(1) by auto
  then show "sig_queue s' = None \<and> (\<exists>q'. on_spend m (s\<lparr>sig_queue := Some q\<rparr>) = (Inr x, s'\<lparr>sig_queue := Some q'\<rparr>) \<and> grown reg n q q')"
    using m(2) by (intro conjI exI [of _ q']) (simp_all add: on_spend_def)
qed

lemma update_fits: "(\<And>s q. f (s\<lparr>sig_queue := q\<rparr>) = (f s)\<lparr>sig_queue := q\<rparr>) \<Longrightarrow> ud.fits_at reg n (st_update f) s"
  by (rule ud.fits_untouched [where f = "st_update f"]) (simp add: st_update_def)

lemma read_fits: "(\<And>s q. f (s\<lparr>sig_queue := q\<rparr>) = f s) \<Longrightarrow> ud.fits_at reg n (\<lambda>s. (f s, s)) s"
  by (rule ud.fits_untouched [where f = "\<lambda>s. (f s, s)"]) simp

definition range_items :: "WitnessItem list \<Rightarrow> nat \<times> nat \<Rightarrow> nat" where
  "range_items ws rng = full_items (slice ws (fst rng) (snd rng))"

lemma validate_resolved_spend_fits:
  assumes "registry_or_default (cx_registry ctx) = reg" and "sums_fit reg" and "\<forall>w \<in> set (witness (cx_tx ctx)). short w"
  shows "ud.fits_at reg (if is_vault entry then 0 else range_items (witness (cx_tx ctx)) rng)
    (validate_resolved_spend ssl H ctx entry rng i) s"
  unfolding validate_resolved_spend_def
proof (rule ud.fits_bind_lift)
  fix ws assume "assigned_witness (cx_tx ctx) rng = Inr ws"
  then have ws: "ws = slice (witness (cx_tx ctx)) (fst rng) (snd rng)" by (auto simp: assigned_witness_def split: if_splits)
  then have short: "\<forall>w \<in> set ws. short w" using assms(3) by (auto simp: slice_def dest!: in_set_takeD in_set_dropD)
  note p = p2pk_fits [of "cx_registry ctx", unfolded assms(1)] htlc_fits [of "cx_registry ctx", unfolded assms(1)]
    stealth_fits [of "cx_registry ctx", unfolded assms(1)]
  have 1: "sd.fits_at reg (full_items ws) (apply_p2pk_spend ssl H ctx entry ws j) t" for j t
  proof -
    have "sd.fits_at reg (full_items [a]) (validate_p2pk_spend_q ssl H entry a x val chain_id h (cx_rotation ctx) (cx_registry ctx)) t"
      if "short a" for a x val chain_id h using p(1) [OF assms(2) that] by simp
    then show ?thesis using short unfolding apply_p2pk_spend_def by (auto simp del: full_items_simps split: list.split intro: sd.fits_lift)
  qed
  have 2: "sd.fits_at reg (full_items ws) (apply_stealth_spend ssl H ctx entry ws j) t" for j t
  proof -
    have "sd.fits_at reg (full_items [a]) (validate_stealth_spend_q ssl H entry a x val chain_id h (cx_rotation ctx) (cx_registry ctx)) t"
      if "short a" for a x val chain_id h using p(3) [OF assms(2) that] by simp
    then show ?thesis using short unfolding apply_stealth_spend_def by (auto simp del: full_items_simps split: list.split intro: sd.fits_lift)
  qed
  have 3: "sd.fits_at reg (full_items ws) (apply_htlc_spend ssl H ctx entry ws j) t" for j t
  proof -
    have "sd.fits_at reg (full_items [a, b]) (validate_htlc_spend_q ssl H entry a b x (cx_rotation ctx) (cx_registry ctx)) t"
      if "short b" for a b x using sd.fits_mono [OF p(2) [OF assms(2) that]] by simp
    then show ?thesis using short unfolding apply_htlc_spend_def by (auto simp del: full_items_simps split: list.split intro: sd.fits_lift)
  qed
  have 4: "sd.fits_at reg (full_items ws) (apply_multisig_spend ssl H ctx entry ws j) t" for j t
    unfolding apply_multisig_spend_def by (intro sd.fits_bind_lift threshold_fits assms(1,2) short)
  show "ud.fits_at reg (if is_vault entry then 0 else range_items (witness (cx_tx ctx)) rng)
    (let input_index = of_nat i; ty = ue_covenant_type entry in
    if ty = COV_TYPE_P2PK then on_spend (apply_p2pk_spend ssl H ctx entry ws input_index)
    else if ty = COV_TYPE_MULTISIG then on_spend (apply_multisig_spend ssl H ctx entry ws input_index)
    else if ty = COV_TYPE_VAULT
    then st_bind (st_lift (VaultSpendState_capture entry rng input_index)) (\<lambda>captured.
      st_update (\<lambda>s. s\<lparr>vault_spend := Some captured\<rparr>))
    else if ty = COV_TYPE_HTLC then on_spend (apply_htlc_spend ssl H ctx entry ws input_index)
    else if ty = COV_TYPE_CORE_STEALTH then on_spend (apply_stealth_spend ssl H ctx entry ws input_index)
    else st_ok ()) s"
    using on_spend_fits [OF 1] on_spend_fits [OF 2] on_spend_fits [OF 3] on_spend_fits [OF 4]
    by (simp add: Let_def range_items_def ws is_vault_def ud.fits_lift ud.fits_bind_lift update_fits word_unat_eq_iff)
qed

definition spend_items :: "WitnessItem list \<Rightarrow> UtxoEntry \<times> (nat \<times> nat) \<Rightarrow> nat" where
  "spend_items ws = (\<lambda>(entry, rng). if is_vault entry then 0 else range_items ws rng)"

lemma validate_spend_fits:
  assumes "registry_or_default (cx_registry ctx) = reg" and "sums_fit reg" and "\<forall>w \<in> set (witness (cx_tx ctx)). short w"
  shows "ud.fits_at reg (spend_items (witness (cx_tx ctx)) (fst (snd x))) (validate_spend ssl H ctx x) s"
proof -
  obtain j entry rng op where x: "x = (j, (entry, rng), op)" by (metis surj_pair)
  have "ud.fits_at reg 0 (add_input_value entry) t" for t
    by (rule ud.fits_untouched [where f = "add_input_value entry"]) (simp add: add_input_value_def Let_def split: option.split)
  then have "ud.fits_at reg ((if is_vault entry then 0 else range_items (witness (cx_tx ctx)) rng) + (0 + (0 + 0)))
      (validate_spend ssl H ctx (j, (entry, rng), op)) s"
    unfolding validate_spend_def prod.case
    by (intro ud.fits_then validate_resolved_spend_fits update_fits assms) simp_all
  then show ?thesis by (simp add: x spend_items_def)
qed

lemma validate_spends_fits:
  assumes "registry_or_default (cx_registry ctx) = reg" and "sums_fit reg" and "\<forall>w \<in> set (witness (cx_tx ctx)). short w"
  shows "ud.fits_at reg (\<Sum>x\<leftarrow>zip (resolved_inputs s) (resolved_witness_ranges s). spend_items (witness (cx_tx ctx)) x)
    (validate_spends ssl H ctx) s"
proof -
  let ?ws = "witness (cx_tx ctx)" and ?xs = "zip (resolved_inputs s) (resolved_witness_ranges s)"
  let ?l = "List.enumerate 0 (zip ?xs (resolved_outpoints s))"
  have run: "validate_spends ssl H ctx (s\<lparr>sig_queue := q\<rparr>) = st_for_each (validate_spend ssl H ctx) ?l (s\<lparr>sig_queue := q\<rparr>)" for q
    by (simp add: validate_spends_def)
  have "ud.fits_at reg (sum_list (map (\<lambda>x. spend_items ?ws (fst (snd x))) ?l)) (st_for_each (validate_spend ssl H ctx) ?l) s"
    by (rule ud.fits_for_each) (rule validate_spend_fits [OF assms])
  moreover have "sum_list (map (\<lambda>x. spend_items ?ws (fst (snd x))) ?l) \<le> (\<Sum>x\<leftarrow>?xs. spend_items ?ws x)"
  proof -
    have "map (\<lambda>x. spend_items ?ws (fst (snd x))) ?l = map (spend_items ?ws) (map fst (map snd ?l))" by (simp only: map_map comp_def)
    also have "map fst (map snd ?l) = take (length (resolved_outpoints s)) ?xs" by (simp add: min_def map_fst_zip_take)
    finally have "sum_list (map (\<lambda>x. spend_items ?ws (fst (snd x))) ?l) =
        sum_list (map (spend_items ?ws) (take (length (resolved_outpoints s)) ?xs))" by simp
    also have "\<dots> \<le> sum_list (map (spend_items ?ws) (take (length (resolved_outpoints s)) ?xs)) +
        sum_list (map (spend_items ?ws) (drop (length (resolved_outpoints s)) ?xs))" by simp
    also have "\<dots> = sum_list (map (spend_items ?ws) ?xs)" by (simp flip: sum_list_append map_append)
    finally show ?thesis .
  qed
  ultimately have "ud.fits_at reg (\<Sum>x\<leftarrow>?xs. spend_items ?ws x) (st_for_each (validate_spend ssl H ctx) ?l) s"
    by (rule ud.fits_mono)
  then show ?thesis unfolding ud.fits_at_def run .
qed

lemma vault_spend_fits:
  assumes "registry_or_default (cx_registry ctx) = reg" and "sums_fit reg" and "\<forall>w \<in> set (witness (cx_tx ctx)). short w"
    and n: "\<And>v. vault_input_count s = 1 \<Longrightarrow> vault_spend s = Some v \<Longrightarrow> range_items (witness (cx_tx ctx)) (vs_witness_range v) \<le> n"
  shows "ud.fits_at reg n (validate_vault_spend ssl H ctx) s"
proof (cases "vault_input_count s = 1 \<and> vault_spend s \<noteq> None")
  case True
  then obtain v where v: "vault_spend s = Some v" by auto
  have short: "\<forall>w \<in> set ws. short w" if "assigned_witness (cx_tx ctx) rng = Inr ws" for ws rng
    using that assms(3) by (auto simp: assigned_witness_def slice_def split: if_splits dest!: in_set_takeD in_set_dropD)
  have "sd.fits_at reg (range_items (witness (cx_tx ctx)) (vs_witness_range v)) (vault_validate_signature ssl H ctx v) t" for t
    unfolding vault_validate_signature_def
  proof (rule sd.fits_bind_lift)
    fix ws assume ws: "assigned_witness (cx_tx ctx) (vs_witness_range v) = Inr ws"
    then have "range_items (witness (cx_tx ctx)) (vs_witness_range v) = full_items ws"
      by (auto simp: assigned_witness_def range_items_def split: if_splits)
    then show "sd.fits_at reg (range_items (witness (cx_tx ctx)) (vs_witness_range v)) (validate_threshold_sig_spend_q ssl H (vs_keys v)
        (vs_threshold v) ws (vs_input_index v) (vs_input_value v) (cx_chain_id ctx) (cx_height ctx) ''CORE_VAULT''
        (cx_rotation ctx) (cx_registry ctx)) t"
      using threshold_fits [OF assms(1,2) short [OF ws]] by simp
  qed
  then have "ud.fits_at reg (0 + (0 + (0 + (range_items (witness (cx_tx ctx)) (vs_witness_range v) + 0))))
      (st_then (st_update (\<lambda>s. s\<lparr>vault_spend := None\<rparr>)) (
       st_then (\<lambda>s. (validate_owner_and_sponsor v (input_lock_ids s) (input_cov_types s), s)) (
       st_then (st_lift (validate_no_recursion (cx_tx ctx))) (
       st_then (on_spend (vault_validate_signature ssl H ctx v)) (
       st_lift (validate_destinations H v (cx_tx ctx))))))) s"
    by (intro ud.fits_then update_fits read_fits ud.fits_lift on_spend_fits) simp_all
  then have "ud.fits_at reg n (st_then (st_update (\<lambda>s. s\<lparr>vault_spend := None\<rparr>)) (
       st_then (\<lambda>s. (validate_owner_and_sponsor v (input_lock_ids s) (input_cov_types s), s)) (
       st_then (st_lift (validate_no_recursion (cx_tx ctx))) (
       st_then (on_spend (vault_validate_signature ssl H ctx v)) (
       st_lift (validate_destinations H v (cx_tx ctx))))))) s"
    by (rule ud.fits_mono) (use n [OF _ v] True in simp)
  then show ?thesis using True v unfolding ud.fits_at_def by (simp add: validate_vault_spend_def)
next
  case False
  then show ?thesis
    by (intro ud.fits_untouched [where f = "validate_vault_spend ssl H ctx"]) (auto simp: validate_vault_spend_def split: option.splits)
qed

text \<open>The ranges of the inputs do not overlap.\<close>

lemma slot_ranges_items: "(\<Sum>rng\<leftarrow>slot_ranges k entries. range_items ws rng) \<le> full_items (drop k ws)"
proof (induction entries arbitrary: k)
  case (Cons e es)
  show ?case
  proof (cases "witness_slots (ue_covenant_type e) (ue_covenant_data e)")
    case (Inr n)
    have "drop k ws = take n (drop k ws) @ drop (k + n) ws" by (metis append_take_drop_id drop_drop add.commute)
    then have "full_items (drop k ws) = range_items ws (k, k + n) + full_items (drop (k + n) ws)"
      unfolding range_items_def slice_def by (metis add_diff_cancel_left' fst_conv snd_conv full_items_append)
    then show ?thesis using Inr Cons.IH [of "k + n"] by simp
  qed simp
qed simp

definition vault_items :: "WitnessItem list \<Rightarrow> UtxoEntry \<times> (nat \<times> nat) \<Rightarrow> nat" where
  "vault_items ws = (\<lambda>(entry, rng). if is_vault entry then range_items ws rng else 0)"

lemma items_total:
  assumes "length (slot_ranges 0 entries) = length entries"
  shows "(\<Sum>x\<leftarrow>zip entries (slot_ranges 0 entries). spend_items ws x) + (\<Sum>x\<leftarrow>zip entries (slot_ranges 0 entries). vault_items ws x) \<le>
    full_items ws"
proof -
  have "(\<Sum>x\<leftarrow>xs. spend_items ws x) + (\<Sum>x\<leftarrow>xs. vault_items ws x) = (\<Sum>rng\<leftarrow>map snd xs. range_items ws rng)" for xs
    by (induction xs) (auto simp: spend_items_def vault_items_def)
  from this [of "zip entries (slot_ranges 0 entries)"] show ?thesis
    using slot_ranges_items [of ws 0 entries] assms by simp
qed

lemma resolve_inputs_fits: "ud.fits_at reg n (resolve_inputs ctx) s"
proof -
  have "ud.fits_at reg 0 (resolve_input ctx i) t" for i t
    by (rule ud.fits_untouched [where f = "resolve_input ctx i"])
      (simp add: resolve_input_def st_then_def st_bind_def st_lift_def validate_input_covenant_def
        record_resolved_input_def Let_def split: sum.split option.split)
  then have "ud.fits_at reg (sum_list (map (\<lambda>_. 0) (inputs (cx_tx ctx)))) (st_for_each (resolve_input ctx) (inputs (cx_tx ctx))) s"
    by (intro ud.fits_for_each)
  then have "ud.fits_at reg (sum_list (map (\<lambda>_. 0) (inputs (cx_tx ctx))) + 0) (resolve_inputs ctx) s"
    unfolding resolve_inputs_def
    by (rule ud.fits_then) (rule ud.fits_untouched [where f = "\<lambda>s. if witness_cursor s \<noteq> length (witness (cx_tx ctx))
        then (Err TxErrParse ''witness_count mismatch'', s) else (Ok (), s)"], simp)
  then show ?thesis by (rule ud.fits_mono) simp
qed

lemma add_outputs_fits: "ud.fits_at reg n (add_outputs ctx) s"
proof -
  have "ud.fits_at reg 0 (add_output ctx x) t" for x t
    by (rule ud.fits_untouched [where f = "add_output ctx x"]) (simp add: add_output_def Let_def split: prod.split option.split)
  then have "ud.fits_at reg (sum_list (map (\<lambda>_. 0) (List.enumerate 0 (outputs (cx_tx ctx))))) (add_outputs ctx) s"
    unfolding add_outputs_def by (intro ud.fits_for_each)
  then show ?thesis by (rule ud.fits_mono) simp
qed

lemma vault_items_le:
  assumes l: "length (slot_ranges 0 entries) = length entries" and ne: "filter is_vault entries \<noteq> []"
    and v: "vs = Some v"
    and c: "\<And>j. j < length entries \<Longrightarrow> spend_checked ssl H ctx vs j (entries ! j) (slot_ranges 0 entries ! j)"
  shows "range_items ws (vs_witness_range v) \<le> (\<Sum>x\<leftarrow>zip entries (slot_ranges 0 entries). vault_items ws x)"
proof -
  let ?xs = "zip entries (slot_ranges 0 entries)"
  from ne obtain j where j: "j < length entries" "is_vault (entries ! j)" by (auto simp: filter_empty_conv in_set_conv_nth)
  have rng: "vs_witness_range v = slot_ranges 0 entries ! j"
    using c [OF j(1)] j(2) v by (auto simp: spend_checked_def VaultSpendState_capture_def)
  have "(entries ! j, slot_ranges 0 entries ! j) \<in> set ?xs" using j(1) l by (auto simp: in_set_zip)
  then have "vault_items ws (entries ! j, slot_ranges 0 entries ! j) \<in> set (map (vault_items ws) ?xs)"
    unfolding set_map by (rule imageI)
  then have "vault_items ws (entries ! j, slot_ranges 0 entries ! j) \<le> (\<Sum>x\<leftarrow>?xs. vault_items ws x)"
    by (rule member_le_sum_list) simp
  then show ?thesis using j(2) rng by (simp add: vault_items_def)
qed

lemma apply_impl_fits:
  assumes ok: "apply_impl ssl H ctx None = (Ok (w, sm), q0)" and outs: "length (outputs (cx_tx ctx)) \<le> 2 ^ 32"
    and reg: "registry_or_default (cx_registry ctx) = reg" and sums: "sums_fit reg"
    and short: "\<forall>w \<in> set (witness (cx_tx ctx)). short w"
    and q: "room reg (full_items (witness (cx_tx ctx))) q"
  shows "\<exists>q'. apply_impl ssl H ctx (Some q) = (Ok (w, sm), Some q') \<and> grown reg (full_items (witness (cx_tx ctx))) q q'"
proof -
  let ?ws = "witness (cx_tx ctx)"
  from ok outs obtain s0 s1 s2 s3 s4 entries where
    s0: "validate_apply_inputs ctx = Ok ()" "UtxoApplyState_new ctx None = Ok s0"
    and p: "resolve_inputs ctx s0 = (Ok (), s1)" "validate_spends ssl H ctx s1 = (Ok (), s2)"
      "add_outputs ctx s2 = (Ok (), s3)" "validate_vault_creation ctx s3 = Ok ()"
      "validate_vault_spend ssl H ctx s3 = (Ok (), s4)" "finish s4 = Ok (w, sm)"
    and e: "map (\<lambda>i. cx_utxo_set ctx (signing_outpoint i)) (inputs (cx_tx ctx)) = map Some entries"
      "list_all (spendable ctx) entries" "length (filter is_vault entries) \<le> 1"
      "resolved_inputs s1 = entries" "resolved_witness_ranges s1 = slot_ranges 0 entries"
      "length (slot_ranges 0 entries) = length entries"
      "resolved_outpoints s1 = map signing_outpoint (inputs (cx_tx ctx))"
      "sighash_cache s1 = sighash_cache s0" "sig_queue s1 = sig_queue s0" "vault_spend s3 = vault_spend s2"
      "vault_input_count s3 = length (filter is_vault entries)" "sig_queue s3 = sig_queue s2"
    by (rule apply_impl_Ok) blast
  let ?xs = "zip entries (slot_ranges 0 entries)"
  let ?n1 = "\<Sum>x\<leftarrow>?xs. spend_items ?ws x" and ?n2 = "\<Sum>x\<leftarrow>?xs. vault_items ?ws x"
  have s0q: "s0\<lparr>sig_queue := None\<rparr> = s0" "UtxoApplyState_new ctx (Some q) = Ok (s0\<lparr>sig_queue := Some q\<rparr>)"
    using s0(2) by (auto simp: UtxoApplyState_new_def)
  have a1: "at_once H ctx s1" using at_once_new [OF s0(2), of H] e(8,9) by (simp add: at_once_def)
  note B = spends_checked [OF a1 p(2) e(1-7)]
  have none: "s1\<lparr>sig_queue := None\<rparr> = s1" "s2\<lparr>sig_queue := None\<rparr> = s2" "s3\<lparr>sig_queue := None\<rparr> = s3"
    using a1 B(1) e(12) by (simp_all add: at_once_def)
  have vault: "range_items ?ws (vs_witness_range v) \<le> ?n2" if "vault_input_count s3 = 1" "vault_spend s3 = Some v" for v
    by (rule vault_items_le [OF e(6) _ that(2)]) (use that(1) e(10,11) B(2) in auto)
  have "ud.fits_at reg (0 + (?n1 + (0 + (0 + (?n2 + 0))))) (apply_phases ssl H ctx) s0"
    unfolding apply_phases_def
  proof (intro ud.fits_then resolve_inputs_fits)
    fix x t assume t: "resolve_inputs ctx (s0\<lparr>sig_queue := None\<rparr>) = (Inr x, t)"
    then have t: "t = s1" using p(1) s0q(1) by simp
    show "ud.fits_at reg ?n1 (validate_spends ssl H ctx) t"
      using validate_spends_fits [OF reg sums short, of s1] e(4,5) t by simp
    fix x' t' assume "validate_spends ssl H ctx (t\<lparr>sig_queue := None\<rparr>) = (Inr x', t')"
    then have t': "t' = s2" using p(2) none(1) t by simp
    show "ud.fits_at reg 0 (add_outputs ctx) t'" by (rule add_outputs_fits)
    fix y u assume "add_outputs ctx (t'\<lparr>sig_queue := None\<rparr>) = (Inr y, u)"
    then have u: "u = s3" using p(3) none(2) t' by simp
    show "ud.fits_at reg 0 (\<lambda>s. (validate_vault_creation ctx s, s)) u" by (rule read_fits) (simp add: validate_vault_creation_def)
    fix y' u' assume "(validate_vault_creation ctx (u\<lparr>sig_queue := None\<rparr>), u\<lparr>sig_queue := None\<rparr>) = (Inr y', u')"
    then have u': "u' = s3" using none(3) u by simp
    show "ud.fits_at reg ?n2 (validate_vault_spend ssl H ctx) u'"
      unfolding u' by (rule vault_spend_fits [OF reg sums short vault])
    show "ud.fits_at reg 0 (\<lambda>s. (finish s, s)) z" for z by (rule read_fits) (simp add: finish_def)
  qed
  then have "ud.fits_at reg (full_items ?ws) (apply_phases ssl H ctx) s0"
    by (rule ud.fits_mono) (use items_total [OF e(6), of ?ws] in simp)
  moreover have "apply_phases ssl H ctx (s0\<lparr>sig_queue := None\<rparr>) = (Inr (w, sm), s4)"
    using p s0q(1) by (simp add: apply_phases_def st_then_def st_bind_def)
  ultimately obtain q' where "apply_phases ssl H ctx (s0\<lparr>sig_queue := Some q\<rparr>) = (Inr (w, sm), s4\<lparr>sig_queue := Some q'\<rparr>)"
      "grown reg (full_items ?ws) q q'"
    using q by (rule ud.fits_atD)
  then show ?thesis using s0(1) s0q(2) by (auto simp: apply_impl_def)
qed

end
