(* ===== verification/Connect_Live.thy ===== *)
theory Connect_Live
  imports Queue_Room Chain_State
begin

text \<open>
  The parallel path of \<^verbatim>\<open>connect_block_inmem.rs\<close> accepts every block the sequential path
  accepts: the limit on the weight of a block keeps the queue of deferred signature
  checks within its budgets.
\<close>

section \<open>Weight and checks\<close>

lemma full_item_size:
  assumes "full w" and "wf_witness_item w"
  shows "length (marshal_witness_item w) = 7227 \<and> 8 \<le> legacy_cost w"
  using assms
  by (auto simp: full_def marshal_witness_item_def length_encode_compact_size unat_of_nat legacy_cost_def wf_witness_item_def
      sentinel_shape_def has_expected_mldsa87_shape_def const_defs split: if_splits)

lemma items_size:
  assumes "list_all wf_witness_item ws"
  shows "7227 * full_items ws \<le> length (concat (map marshal_witness_item ws)) \<and> 8 * full_items ws \<le> (\<Sum>w\<leftarrow>ws. legacy_cost w)"
  using assms
proof (induction ws)
  case (Cons w ws)
  then show ?case using full_item_size [of w] by (cases "full w") auto
qed simp

lemma core_size:
  assumes "inputs tx \<noteq> []" and "wf_core tx"
  shows "60 \<le> length (marshal_core tx)"
proof -
  obtain i ins where i: "inputs tx = i # ins" using assms(1) by (cases "inputs tx") auto
  have "41 \<le> length (marshal_input i)"
    using assms(2) by (auto simp: i marshal_input_def wf_core_def wf_input_def length_encode_compact_size)
  then show ?thesis by (simp add: marshal_core_def i length_encode_compact_size)
qed

text \<open>The checks of a transaction take no more bytes of the queue than the transaction has weight.\<close>

lemma tx_checks_weight:
  assumes "wf_tx tx" and "inputs tx \<noteq> []"
  shows "7253 * full_items (witness tx) \<le> tx_weight_of tx"
proof -
  have w: "list_all wf_witness_item (witness tx)" "wf_core tx" using assms(1) by (simp_all add: wf_tx_def wf_witnesses_def)
  note s = items_size [OF w(1)] core_size [OF assms(2) w(2)]
  have "length (concat (map marshal_witness_item (witness tx))) \<le> 100000"
    using assms(1) by (cases "witness tx = []") (auto simp: wf_tx_def wf_witnesses_def)
  then have "7227 * full_items (witness tx) \<le> 100000" using s(1) by linarith
  then have "full_items (witness tx) \<le> 13" by simp
  moreover have "2 + length (concat (map marshal_witness_item (witness tx))) \<le> length (marshal_tail tx)"
    by (simp add: marshal_tail_def length_encode_compact_size)
  ultimately show ?thesis using s unfolding tx_weight_of_def by linarith
qed

section \<open>The queue of a block\<close>

lemma wf_tx_short: "wf_tx tx \<Longrightarrow> \<forall>w \<in> set (witness tx). short w"
  using witness_item_bound by (fastforce simp: short_def marshal_witness_item_def)

lemma apply_queued_fits:
  assumes "apply_with_suite_context ssl H tx txid u h ts mtp chain_id rotation registry = Ok (u', sm)"
    and "wf_tx tx" and "sums_fit (registry_or_default registry)" and "room (registry_or_default registry) (full_items (witness tx)) q"
  shows "\<exists>q'. apply_queued_sigchecks ssl H tx txid u h ts mtp chain_id rotation registry q = (Ok (u', sm), q') \<and>
    grown (registry_or_default registry) (full_items (witness tx)) q q'"
proof -
  let ?ctx = "apply_context tx txid u h ts mtp chain_id rotation registry"
  have c: "cx_tx ?ctx = tx" "cx_registry ?ctx = registry" by (simp_all add: apply_context_def)
  obtain q0 where a: "apply_impl ssl H ?ctx None = (Ok (u', sm), q0)"
    using assms(1) by (metis apply_with_suite_context_def prod.collapse)
  have "length (outputs (cx_tx ?ctx)) \<le> 2 ^ 32" using assms(2) by (simp add: c wf_tx_def wf_core_def)
  from apply_impl_fits [OF a this] wf_tx_short [OF assms(2)] assms(3,4) obtain q' where
    "apply_impl ssl H ?ctx (Some q) = (Ok (u', sm), Some q')" "grown (registry_or_default registry) (full_items (witness tx)) q q'"
    unfolding c by blast
  then show ?thesis by (simp add: apply_queued_sigchecks_def)
qed

lemma collect_fits:
  assumes "seq_txs ssl H (pc_block_height p) (timestamp (pb_header (pc_pb p))) (pc_block_mtp p) (cc_chain_id ctx)
      (cc_rotation ctx) (cc_registry ctx) txs w fees seen = Ok x"
    and "list_all wf_tx (map fst txs)" and "sums_fit (registry_or_default (cc_registry ctx))"
    and "room (registry_or_default (cc_registry ctx)) (\<Sum>tx\<leftarrow>map fst txs. full_items (witness tx)) q"
  shows "\<exists>q'. collect_queued_txs ssl H p ctx txs w fees seen q = (Ok x, q')"
  using assms(1,2,4)
proof (induction txs arbitrary: w fees seen q)
  case (Cons y txs)
  obtain tx txid where y: "y = (tx, txid)" by (rule prod.exhaust)
  obtain seen1 w1 sm fees1 where s: "validate_non_coinbase_block_tx tx seen = Ok seen1"
      "apply_with_suite_context ssl H tx txid w (pc_block_height p) (timestamp (pb_header (pc_pb p))) (pc_block_mtp p) (cc_chain_id ctx)
        (cc_rotation ctx) (cc_registry ctx) = Ok (w1, sm)" "add_block_fee fees (fee sm) = Ok fees1"
      "seq_txs ssl H (pc_block_height p) (timestamp (pb_header (pc_pb p))) (pc_block_mtp p) (cc_chain_id ctx)
        (cc_rotation ctx) (cc_registry ctx) txs w1 fees1 seen1 = Ok x"
    using Cons.prems(1) y by auto
  let ?reg = "registry_or_default (cc_registry ctx)"
  have wf: "wf_tx tx" "list_all wf_tx (map fst txs)" using Cons.prems(2) y by simp_all
  have r: "room ?reg (full_items (witness tx) + (\<Sum>tx\<leftarrow>map fst txs. full_items (witness tx))) q"
    using Cons.prems(3) y by simp
  obtain q1 where q1: "apply_queued_sigchecks ssl H tx txid w (pc_block_height p) (timestamp (pb_header (pc_pb p))) (pc_block_mtp p)
      (cc_chain_id ctx) (cc_rotation ctx) (cc_registry ctx) q = (Ok (w1, sm), q1)" "grown ?reg (full_items (witness tx)) q q1"
    using apply_queued_fits [OF s(2) wf(1) assms(3) room_mono [OF r le_add1]] by blast
  from Cons.IH [OF s(4) wf(2) grown_room [OF q1(2) r]] show ?case using s(1,3) q1(1) by (simp add: y)
qed simp

lemma seq_txs_inputs:
  "seq_txs ssl H h ts mtp chain_id rotation registry txs w fees seen = Ok x \<Longrightarrow> \<forall>tx \<in> set (map fst txs). inputs tx \<noteq> []"
proof (induction txs arbitrary: w fees seen)
  case (Cons y txs)
  then show ?case by (cases y) (auto simp: non_coinbase_iff)
qed simp

lemma block_checks_fit:
  assumes "\<forall>tx \<in> set txs. wf_tx tx \<and> inputs tx \<noteq> []" and "(\<Sum>tx\<leftarrow>txs. tx_weight_of tx) \<le> 68000000"
  shows "(\<Sum>tx\<leftarrow>txs. full_items (witness tx)) \<le> 9375"
proof -
  have "7253 * (\<Sum>tx\<leftarrow>txs. full_items (witness tx)) = (\<Sum>tx\<leftarrow>txs. 7253 * full_items (witness tx))" by (simp add: sum_list_const_mult)
  also have "\<dots> \<le> (\<Sum>tx\<leftarrow>txs. tx_weight_of tx)" using assms(1) by (intro sum_list_mono) (simp add: tx_checks_weight)
  finally show ?thesis using assms(2) by simp
qed

lemma parallel_txs_live:
  assumes seq: "apply_non_coinbase_txs_sequential ssl H (pc_pb p) w (pc_block_height p) (pc_block_mtp p)
      (cc_chain_id ctx) (cc_rotation ctx) (cc_registry ctx) = Ok (w', fees)"
    and wf: "list_all wf_tx (pb_txs (pc_pb p))" and weight: "(\<Sum>tx\<leftarrow>pb_txs (pc_pb p). tx_weight_of tx) \<le> 68000000"
    and sums: "sums_fit (registry_or_default (cc_registry ctx))"
  shows "\<exists>n. apply_non_coinbase_txs_parallel par sched ssl H p w ctx workers = Some (Ok (w', fees, n))"
proof -
  let ?reg = "registry_or_default (cc_registry ctx)" and ?txs = "drop 1 (zip (pb_txs (pc_pb p)) (pb_txids (pc_pb p)))"
  let ?q = "case cc_registry ctx of Some registry \<Rightarrow> with_registry (SigCheckQueue_new par workers) registry
      | None \<Rightarrow> SigCheckQueue_new par workers"
  have q: "registry_fits ?reg ?q" "q_tasks ?q = []" "q_cache ?q = None" "queued_bytes ?q = 0"
    by (simp_all add: registry_fits_def SigCheckQueue_new_def with_registry_def registry_or_default_def split: option.split)
  note seq = seq [unfolded sequential_eq]
  obtain ys zs where l: "pb_txs (pc_pb p) = ys @ map fst ?txs @ zs"
  proof -
    have "map fst ?txs = drop 1 (take (length (pb_txids (pc_pb p))) (pb_txs (pc_pb p)))" by (simp add: map_fst_zip_take drop_map min_def flip: drop_map)
    then have "pb_txs (pc_pb p) = take 1 (take (length (pb_txids (pc_pb p))) (pb_txs (pc_pb p))) @ map fst ?txs @
        drop (length (pb_txids (pc_pb p))) (pb_txs (pc_pb p))"
      by (metis append.assoc append_take_drop_id)
    then show thesis by (rule that)
  qed
  have "list_all wf_tx (ys @ map fst ?txs @ zs)" "(\<Sum>tx\<leftarrow>ys @ map fst ?txs @ zs. tx_weight_of tx) \<le> 68000000"
    unfolding l [symmetric] by (rule wf, rule weight)
  then have wf': "list_all wf_tx (map fst ?txs)" "(\<Sum>tx\<leftarrow>map fst ?txs. tx_weight_of tx) \<le> 68000000" by simp_all
  then have "(\<Sum>tx\<leftarrow>map fst ?txs. full_items (witness tx)) \<le> 9375"
    using seq_txs_inputs [OF seq] by (intro block_checks_fit) (auto simp: list_all_iff)
  then have room: "room ?reg (\<Sum>tx\<leftarrow>map fst ?txs. full_items (witness tx)) ?q" using q by (simp add: room_def)
  obtain q' where a: "collect_queued_txs ssl H p ctx ?txs w 0 {} ?q = (Ok (w', fees), q')"
    using collect_fits [OF seq wf'(1) sums room] by blast
  with collect_agrees [OF q(1), of ssl H p ?txs w 0 "{}"] seq obtain ts where
    ts: "queued ?reg ?q ts q'" "Ok (w', fees) = and_then (try_for_each (task_check ssl (Some ?reg)) ts) (\<lambda>_. Ok (w', fees))"
    unfolding agrees_def by auto
  have q': "q_tasks q' = ts" "q_cache q' = None" "ts \<noteq> [] \<Longrightarrow> q_registry q' = Some ?reg"
    using ts(1) q by (auto simp: queued_def extends_def)
  have "try_for_each (task_check ssl (Some ?reg)) ts = Ok ()"
    using ts(2) by (cases "try_for_each (task_check ssl (Some ?reg)) ts") (simp_all del: try_for_each_Inr)
  then have "fst (queue_flush par sched ssl H q') = Returned (Ok ())"
    using flush_no_cache [OF q'(2)] q'(1,3) by (cases "ts = []") (auto simp del: try_for_each_Inr)
  then show ?thesis using a
    by (simp add: apply_non_coinbase_txs_parallel_def collect_queued_non_coinbase_txs_def Let_def)
qed

section \<open>Every block the sequential path accepts\<close>

text \<open>
  C6: deferring the signature checks never refuses a block for lack of room. Every block
  that the sequential path accepts is accepted by the parallel path, for any number
  of workers and any interleaving, with the same new state and the same summary but
  for the count of signature tasks. The queue cannot overflow, since each check in it
  carries an ML-DSA-87 key and signature whose witness item and transaction weigh
  more than the check takes. The registry's key and signature lengths are assumed to
  have sums below \<open>2 ^ 64\<close>.
\<close>

theorem parallel_connect_accepts:
  assumes "biguint_spec L" and "\<And>x. length (H x) = 32"
    and "connect_block_basic_in_memory_with_context L ssl H b ctx st = (Inr sm, st')"
    and "sums_fit (registry_or_default (cc_registry ctx))"
  shows "\<exists>n. connect_block_parallel_sig_verify_with_context par sched L ssl H b ctx workers st =
    Some (Inr (sm\<lparr>cb_sig_task_count := n\<rparr>), st')"
proof -
  obtain p w0 w fees where c: "prepare_connect_block L H b (cs_already_generated st) ctx = Ok p"
      "apply_coinbase_outputs (pc_pb p) (cs_utxos st) (cc_block_height ctx) (cc_rotation ctx) = Ok w0"
      "seq_txs ssl H (cc_block_height ctx) (timestamp (pb_header (pc_pb p))) (pc_block_mtp p) (cc_chain_id ctx)
        (cc_rotation ctx) (cc_registry ctx) (drop 1 (zip (pb_txs (pc_pb p)) (pb_txids (pc_pb p)))) w0 0 {} = Ok (w, fees)"
      "finalize_connected_block H p w fees 0 st = (Inr sm, st')" "wf_parsed_block H (pc_pb p)"
      "pc_block_height p = cc_block_height ctx"
    using assms(3) by (rule connect_Ok)
  obtain stats where "validate_parsed_block_preflight L H (pc_pb p) (cc_expected_prev_hash ctx) (cc_expected_target ctx)
      (cc_block_height ctx) (cc_prev_timestamps ctx) = Ok stats"
    using c(1) by (auto simp: prepare_connect_block_def validate_connect_preflight_def split: if_splits)
  then have weight: "(\<Sum>tx\<leftarrow>pb_txs (pc_pb p). tx_weight_of tx) \<le> 68000000"
    unfolding preflight_iff [OF assms(1,2) c(5)] preflight_rules_def resource_rules_def by blast
  have wf: "list_all wf_tx (pb_txs (pc_pb p))" using c(5) by (simp add: wf_parsed_block_def)
  have "apply_non_coinbase_txs_sequential ssl H (pc_pb p) w0 (pc_block_height p) (pc_block_mtp p)
      (cc_chain_id ctx) (cc_rotation ctx) (cc_registry ctx) = Ok (w, fees)"
    unfolding sequential_eq c(6) by (rule c(3))
  from parallel_txs_live [OF this wf weight assms(4)] obtain n where
    "apply_non_coinbase_txs_parallel par sched ssl H p w0 ctx workers = Some (Ok (w, fees, n))" by blast
  then show ?thesis
    using c(1,2,4,6) finalize_task_count [of H p w fees n st]
    by (intro exI [of _ n]) (simp add: connect_block_parallel_sig_verify_with_context_def)
qed

theorem parallel_connect_accepts_witness:
  "\<exists>sm st'. connect_block_parallel_sig_verify_with_context 8 [1, 0, 1] be_lib demo_ssl zero_hash (block_encoding demo_block)
      demo_cc 4 demo_chain_state = Some (Inr sm, st') \<and> cs_already_generated st' = 4673004190"
proof -
  have len: "length (zero_hash x) = 32" for x by (simp add: zero_hash_def)
  have "cc_registry demo_cc = None" by (simp add: demo_cc_def connect_context_def)
  then have "sums_fit (registry_or_default (cc_registry demo_cc))"
    by (simp add: sums_fit_def registry_or_default_def default_registry_def ml_dsa_87_params_def checked_add_def const_defs)
  moreover obtain sm where "connect_block_basic_in_memory_with_context be_lib demo_ssl zero_hash (block_encoding demo_block) demo_cc
      demo_chain_state = (Inr sm, \<lparr>cs_utxos = (cs_utxos demo_chain_state)(fst demo_paid \<mapsto> snd demo_paid),
      cs_already_generated = 4673004190\<rparr>)" using demo_connects by blast
  ultimately obtain n where "connect_block_parallel_sig_verify_with_context 8 [1, 0, 1] be_lib demo_ssl zero_hash
      (block_encoding demo_block) demo_cc 4 demo_chain_state = Some (Inr (sm\<lparr>cb_sig_task_count := n\<rparr>),
      \<lparr>cs_utxos = (cs_utxos demo_chain_state)(fst demo_paid \<mapsto> snd demo_paid), cs_already_generated = 4673004190\<rparr>)"
    using parallel_connect_accepts [where H = zero_hash, OF be_lib_spec len] by blast
  then show ?thesis by auto
qed

end
