(* ===== verification/Dep_Graph.thy ===== *)
theory Dep_Graph
  imports Covenants "HOL-Library.Product_Lexorder"
begin

text \<open>
  The scheduling graph over the non-coinbase transactions of a block
  (\<^verbatim>\<open>tx_dep_graph.rs\<close>): parent and child edges, conflicts over an outpoint, levels and
  the order of the levels. The debug assertions of the code are lemmas here.
\<close>

record TxValidationContext =
  tv_tx_index :: nat
  tv_txid :: bytes32
  tv_input_outpoints :: "Outpoint list"

datatype TxDepEdgeKind = ParentChild | SamePrevout

instantiation TxDepEdgeKind :: linorder
begin

definition less_eq_TxDepEdgeKind :: "TxDepEdgeKind \<Rightarrow> TxDepEdgeKind \<Rightarrow> bool" where
  "less_eq_TxDepEdgeKind a b \<longleftrightarrow> a = ParentChild \<or> b = SamePrevout"

definition less_TxDepEdgeKind :: "TxDepEdgeKind \<Rightarrow> TxDepEdgeKind \<Rightarrow> bool" where
  "less_TxDepEdgeKind a b \<longleftrightarrow> a = ParentChild \<and> b = SamePrevout"

instance
proof
  fix x y z :: TxDepEdgeKind
  show "(x < y) = (x \<le> y \<and> \<not> y \<le> x)" "x \<le> x" "x \<le> y \<or> y \<le> x" "x \<le> y \<Longrightarrow> y \<le> z \<Longrightarrow> x \<le> z" "x \<le> y \<Longrightarrow> y \<le> x \<Longrightarrow> x = y"
    by (cases x; cases y; cases z; simp add: less_eq_TxDepEdgeKind_def less_TxDepEdgeKind_def)+
qed

end

record TxDepEdge =
  producer_idx :: nat
  consumer_idx :: nat
  edge_kind :: TxDepEdgeKind

record TxDepGraph =
  dg_tx_count :: nat
  dg_edges :: "TxDepEdge list"
  dg_levels :: "nat list"
  dg_level_order :: "nat list"
  dg_max_level :: nat

abbreviation TxDepGraph_default :: TxDepGraph where
  "TxDepGraph_default \<equiv> \<lparr>dg_tx_count = 0, dg_edges = [], dg_levels = [], dg_level_order = [], dg_max_level = 0\<rparr>"

definition tx_dep_edge_sort_key :: "TxDepEdge \<Rightarrow> nat \<times> nat \<times> TxDepEdgeKind" where
  "tx_dep_edge_sort_key edge = (consumer_idx edge, producer_idx edge, edge_kind edge)"

definition sort_tx_dep_edges :: "TxDepEdge list \<Rightarrow> TxDepEdge list" where
  "sort_tx_dep_edges edges = sort_key tx_dep_edge_sort_key edges"

text \<open>One pass of the level loop.\<close>

definition raise_level :: "nat list \<Rightarrow> TxDepEdge \<Rightarrow> nat list" where
  "raise_level levels edge =
    levels[consumer_idx edge := max (levels ! consumer_idx edge) (levels ! producer_idx edge + 1)]"

definition compute_tx_dep_levels :: "nat \<Rightarrow> TxDepEdge list \<Rightarrow> nat list \<times> nat" where
  "compute_tx_dep_levels tx_count edges =
    (let levels = foldl raise_level (replicate tx_count 0) edges in
     (levels, foldr max levels 0))"

definition tx_dep_level_order_key :: "TxValidationContext list \<Rightarrow> nat list \<Rightarrow> nat \<Rightarrow> nat \<times> bytes32" where
  "tx_dep_level_order_key contexts levels idx = (levels ! idx, tv_txid (contexts ! idx))"

definition compute_tx_dep_level_order :: "TxValidationContext list \<Rightarrow> nat list \<Rightarrow> nat list" where
  "compute_tx_dep_level_order contexts levels =
    sort_key (tx_dep_level_order_key contexts levels) [0..<length contexts]"

definition txid_index :: "TxValidationContext list \<Rightarrow> (bytes32 \<rightharpoonup> nat)" where
  "txid_index contexts = foldl (\<lambda>m (idx, ctx). m(tv_txid ctx \<mapsto> idx)) Map.empty (List.enumerate 0 contexts)"

definition parent_child_edge :: "(bytes32 \<rightharpoonup> nat) \<Rightarrow> nat \<Rightarrow> Outpoint \<Rightarrow> TxDepEdge option" where
  "parent_child_edge txid_to_idx consumer op =
    (case txid_to_idx (op_txid op) of
       None \<Rightarrow> None
     | Some producer \<Rightarrow>
       if producer < consumer
       then Some \<lparr>producer_idx = producer, consumer_idx = consumer, edge_kind = ParentChild\<rparr> else None)"

type_synonym edge_state = "(Outpoint \<rightharpoonup> nat) \<times> TxDepEdge list"

definition push_same_prevout_edge :: "edge_state \<Rightarrow> nat \<Rightarrow> Outpoint \<Rightarrow> edge_state" where
  "push_same_prevout_edge = (\<lambda>(first_consumer, edges) consumer op.
    case first_consumer op of
      Some first \<Rightarrow>
        if first \<noteq> consumer
        then let (p, c) = (if first < consumer then (first, consumer) else (consumer, first)) in
          (first_consumer, edges @ [\<lparr>producer_idx = p, consumer_idx = c, edge_kind = SamePrevout\<rparr>])
        else (first_consumer, edges)
    | None \<Rightarrow> (first_consumer(op \<mapsto> consumer), edges))"

text \<open>The body of the loop over the inputs.\<close>

definition collect_input_edge :: "(bytes32 \<rightharpoonup> nat) \<Rightarrow> nat \<Rightarrow> edge_state \<Rightarrow> Outpoint \<Rightarrow> edge_state" where
  "collect_input_edge txid_to_idx consumer st op =
    (case parent_child_edge txid_to_idx consumer op of
       Some edge \<Rightarrow> (fst st, snd st @ [edge])
     | None \<Rightarrow> push_same_prevout_edge st consumer op)"

definition collect_tx_dep_edges :: "TxValidationContext list \<Rightarrow> (bytes32 \<rightharpoonup> nat) \<Rightarrow> TxDepEdge list" where
  "collect_tx_dep_edges contexts txid_to_idx =
    snd (foldl (\<lambda>st (consumer, ctx). foldl (collect_input_edge txid_to_idx consumer) st (tv_input_outpoints ctx))
      (Map.empty, []) (List.enumerate 0 contexts))"

definition build_tx_dep_graph :: "TxValidationContext list \<Rightarrow> TxDepGraph" where
  "build_tx_dep_graph contexts =
    (let tx_count = length contexts in
     if tx_count = 0 then TxDepGraph_default
     else
     let txid_to_idx = txid_index contexts;
         edges = sort_tx_dep_edges (collect_tx_dep_edges contexts txid_to_idx);
         (levels, max_level) = compute_tx_dep_levels tx_count edges;
         level_order = compute_tx_dep_level_order contexts levels in
     \<lparr>dg_tx_count = tx_count, dg_edges = edges, dg_levels = levels, dg_level_order = level_order, dg_max_level = max_level\<rparr>)"

section \<open>Levels\<close>

definition longest_paths :: "nat list \<Rightarrow> TxDepEdge set \<Rightarrow> bool" where
  "longest_paths levels es \<longleftrightarrow> (\<forall>c < length levels.
    levels ! c = Max (insert 0 ((\<lambda>e. levels ! producer_idx e + 1) ` {e \<in> es. consumer_idx e = c})))"

definition edge_in_range :: "nat \<Rightarrow> TxDepEdge \<Rightarrow> bool" where
  "edge_in_range n e \<longleftrightarrow> producer_idx e < consumer_idx e \<and> consumer_idx e < n"

lemma length_raise: "length (foldl raise_level ls es) = length ls"
  by (induction es arbitrary: ls) (simp_all add: raise_level_def)

lemma levels_longest:
  assumes "sorted (map consumer_idx es)" and "list_all (edge_in_range n) es"
  shows "longest_paths (foldl raise_level (replicate n 0) es) (set es)"
  using assms
proof (induction es rule: rev_induct)
  case Nil
  then show ?case by (simp add: longest_paths_def)
next
  case (snoc e es)
  let ?L = "foldl raise_level (replicate n 0) es"
  let ?L' = "foldl raise_level (replicate n 0) (es @ [e])"
  have IH: "longest_paths ?L (set es)" using snoc by (simp add: sorted_append)
  have e: "producer_idx e < consumer_idx e" "consumer_idx e < n" using snoc.prems(2) by (simp_all add: edge_in_range_def)
  have n: "length ?L = n" "length ?L' = n" by (simp_all add: length_raise raise_level_def)
  have L': "?L' ! i = (if i = consumer_idx e then max (?L ! i) (?L ! producer_idx e + 1) else ?L ! i)" if "i < n" for i
    using that e n(1) by (simp add: raise_level_def)
  have same: "?L' ! producer_idx d = ?L ! producer_idx d" if d: "d \<in> insert e (set es)" for d
  proof -
    have "producer_idx d < consumer_idx d" "consumer_idx d \<le> consumer_idx e" "consumer_idx d < n"
      using d snoc.prems by (auto simp: sorted_append list_all_iff edge_in_range_def)
    then show ?thesis using L' [of "producer_idx d"] by simp
  qed
  show ?case unfolding longest_paths_def n(2)
  proof (intro allI impI)
    fix c assume c: "c < n"
    let ?S = "{d \<in> set es. consumer_idx d = c}"
    have old: "?L ! c = Max (insert 0 ((\<lambda>e. ?L ! producer_idx e + 1) ` ?S))" using IH c n(1) by (simp add: longest_paths_def)
    have img: "(\<lambda>e. ?L' ! producer_idx e + 1) ` {d \<in> set (es @ [e]). consumer_idx d = c} =
        (\<lambda>e. ?L ! producer_idx e + 1) ` {d \<in> set (es @ [e]). consumer_idx d = c}"
      using same by (intro image_cong) auto
    show "?L' ! c = Max (insert 0 ((\<lambda>e. ?L' ! producer_idx e + 1) ` {d \<in> set (es @ [e]). consumer_idx d = c}))"
    proof (cases "consumer_idx e = c")
      case True
      then have "{d \<in> set (es @ [e]). consumer_idx d = c} = insert e ?S" by auto
      then have "Max (insert 0 ((\<lambda>e. ?L' ! producer_idx e + 1) ` {d \<in> set (es @ [e]). consumer_idx d = c})) =
          Max (insert (?L ! producer_idx e + 1) (insert 0 ((\<lambda>e. ?L ! producer_idx e + 1) ` ?S)))"
        unfolding img by (simp add: insert_commute)
      also have "\<dots> = max (?L ! producer_idx e + 1) (?L ! c)" unfolding old by (rule Max_insert) simp_all
      finally show ?thesis using True L' [OF c] by (simp add: max.commute)
    next
      case False
      then have "{d \<in> set (es @ [e]). consumer_idx d = c} = ?S" by auto
      then show ?thesis using False L' [OF c] old img by simp
    qed
  qed
qed

lemma level_increases:
  assumes "longest_paths levels es" and "e \<in> es" and "finite es" and "edge_in_range (length levels) e"
  shows "levels ! producer_idx e < levels ! consumer_idx e"
proof -
  let ?X = "insert 0 ((\<lambda>e. levels ! producer_idx e + 1) ` {d \<in> es. consumer_idx d = consumer_idx e})"
  have "levels ! producer_idx e + 1 \<le> Max ?X" using assms(2,3) by (intro Max_ge) auto
  then show ?thesis using assms(1,4) by (simp add: longest_paths_def edge_in_range_def)
qed

section \<open>Edges\<close>

definition input_pairs :: "TxValidationContext list \<Rightarrow> (nat \<times> Outpoint) list" where
  "input_pairs contexts = concat (map (\<lambda>(c, ctx). map (Pair c) (tv_input_outpoints ctx)) (List.enumerate 0 contexts))"

lemma foldl_pairs:
  "foldl (\<lambda>st (c, ctx). foldl (f c) st (tv_input_outpoints ctx)) st xs =
    foldl (\<lambda>st (c, op). f c st op) st (concat (map (\<lambda>(c, ctx). map (Pair c) (tv_input_outpoints ctx)) xs))"
  by (induction xs arbitrary: st) (auto simp: foldl_map)

lemma input_pairs_iff: "(c, op) \<in> set (input_pairs contexts) \<longleftrightarrow> c < length contexts \<and> op \<in> set (tv_input_outpoints (contexts ! c))"
  by (auto simp: input_pairs_def in_set_enumerate_eq intro!: bexI [of _ "(c, contexts ! c)"])

lemma input_pairs_sorted: "sorted (map fst (input_pairs contexts))"
proof -
  have "sorted (map fst (concat (map (\<lambda>(c, ctx). map (Pair c) (tv_input_outpoints ctx)) (List.enumerate k xs))))" for k xs
  proof (induction xs arbitrary: k)
    case (Cons x xs)
    let ?rest = "map fst (concat (map (\<lambda>(c, ctx). map (Pair c) (tv_input_outpoints ctx)) (List.enumerate (Suc k) xs)))"
    have "k \<le> y" if "y \<in> set ?rest" for y using that by (auto simp: in_set_enumerate_eq)
    then have "sorted (replicate (length (tv_input_outpoints x)) k @ ?rest)"
      using Cons.IH [of "Suc k"] by (auto simp: sorted_append)
    then show ?case by (simp add: comp_def map_replicate_const)
  qed simp
  then show ?thesis by (simp add: input_pairs_def)
qed

definition rivals :: "(bytes32 \<rightharpoonup> nat) \<Rightarrow> (nat \<times> Outpoint) list \<Rightarrow> Outpoint \<Rightarrow> nat set" where
  "rivals idx ps op = {c. (c, op) \<in> set ps \<and> parent_child_edge idx c op = None}"

lemma finite_rivals: "finite (rivals idx ps op)"
proof (rule finite_subset)
  show "rivals idx ps op \<subseteq> fst ` set ps" by (force simp: rivals_def)
qed simp

definition conflict :: "nat set \<Rightarrow> TxDepEdge \<Rightarrow> bool" where
  "conflict R e \<longleftrightarrow> edge_kind e = SamePrevout \<and> consumer_idx e \<in> R \<and> producer_idx e = Min R \<and> producer_idx e < consumer_idx e"

definition edge_set :: "(bytes32 \<rightharpoonup> nat) \<Rightarrow> (nat \<times> Outpoint) list \<Rightarrow> TxDepEdge set" where
  "edge_set idx ps = {e. (\<exists>(c, op) \<in> set ps. parent_child_edge idx c op = Some e) \<or> (\<exists>op. conflict (rivals idx ps op) e)}"

lemma collect_edges:
  assumes "sorted (map fst ps)"
  shows "(\<forall>op. fst (foldl (\<lambda>st (c, op). collect_input_edge idx c st op) (Map.empty, []) ps) op =
      (if rivals idx ps op = {} then None else Some (Min (rivals idx ps op)))) \<and>
    set (snd (foldl (\<lambda>st (c, op). collect_input_edge idx c st op) (Map.empty, []) ps)) = edge_set idx ps"
  using assms
proof (induction ps rule: rev_induct)
  case Nil
  then show ?case by (simp add: rivals_def edge_set_def conflict_def)
next
  case (snoc x ps)
  obtain c op where x: "x = (c, op)" by (rule prod.exhaust)
  let ?st = "foldl (\<lambda>st (c, op). collect_input_edge idx c st op) (Map.empty, []) ps"
  obtain first edges where st: "?st = (first, edges)" by (rule prod.exhaust)
  have IH: "first o' = (if rivals idx ps o' = {} then None else Some (Min (rivals idx ps o')))" "set edges = edge_set idx ps" for o'
    using snoc st by (auto simp: sorted_append)
  have le: "d \<le> c" if "d \<in> rivals idx ps op" for d
    using that snoc.prems by (force simp: x sorted_append rivals_def)
  have step: "foldl (\<lambda>st (c, op). collect_input_edge idx c st op) (Map.empty, []) (ps @ [x]) = collect_input_edge idx c (first, edges) op"
    using st by (simp add: x)
  show ?case
  proof (cases "parent_child_edge idx c op")
    case (Some e)
    then have r: "rivals idx (ps @ [x]) = rivals idx ps" by (auto simp: rivals_def x fun_eq_iff)
    have "edge_set idx (ps @ [x]) = insert e (edge_set idx ps)" unfolding edge_set_def r using Some by (auto simp: x)
    then show ?thesis unfolding step r using IH Some by (simp add: collect_input_edge_def)
  next
    case None
    have r: "rivals idx (ps @ [x]) o' = (if o' = op then insert c (rivals idx ps op) else rivals idx ps o')" for o'
      using None by (auto simp: rivals_def x)
    have p: "(\<exists>(c, op) \<in> set (ps @ [x]). parent_child_edge idx c op = Some e) \<longleftrightarrow> (\<exists>(c, op) \<in> set ps. parent_child_edge idx c op = Some e)" for e
      using None by (auto simp: x)
    have r': "(\<exists>o'. conflict (rivals idx (ps @ [x]) o') e) \<longleftrightarrow> conflict (insert c (rivals idx ps op)) e \<or> (\<exists>o'. o' \<noteq> op \<and> conflict (rivals idx ps o') e)"
      "(\<exists>o'. conflict (rivals idx ps o') e) \<longleftrightarrow> conflict (rivals idx ps op) e \<or> (\<exists>o'. o' \<noteq> op \<and> conflict (rivals idx ps o') e)" for e
      unfolding r by (auto split: if_splits)
    show ?thesis
    proof (cases "rivals idx ps op = {}")
      case True
      have "edge_set idx (ps @ [x]) = edge_set idx ps" unfolding edge_set_def p r' using True by (auto simp: conflict_def)
      then show ?thesis unfolding step r using IH True None
        by (auto simp: collect_input_edge_def push_same_prevout_edge_def)
    next
      case False
      let ?m = "Min (rivals idx ps op)"
      have m: "?m \<in> rivals idx ps op" "?m \<le> c" using False finite_rivals le by (auto intro: Min_in)
      then have mi: "Min (insert c (rivals idx ps op)) = ?m" using False finite_rivals by (simp add: Min_insert min_absorb2)
      let ?e = "\<lparr>producer_idx = ?m, consumer_idx = c, edge_kind = SamePrevout\<rparr>"
      have "conflict (insert c (rivals idx ps op)) e \<longleftrightarrow> conflict (rivals idx ps op) e \<or> ?m < c \<and> e = ?e" for e
        unfolding conflict_def mi using m by (cases e) auto
      then have "edge_set idx (ps @ [x]) = (if ?m < c then insert ?e (edge_set idx ps) else edge_set idx ps)"
        unfolding edge_set_def p r' by auto
      then show ?thesis unfolding step r using IH False None m(2) mi
        by (auto simp: collect_input_edge_def push_same_prevout_edge_def)
    qed
  qed
qed

text \<open>The edges in terms of the index: of transactions with one id it keeps the last.\<close>

definition last_with_txid :: "TxValidationContext list \<Rightarrow> bytes32 \<Rightarrow> nat \<Rightarrow> bool" where
  "last_with_txid contexts t p \<longleftrightarrow> p < length contexts \<and> tv_txid (contexts ! p) = t \<and>
    (\<forall>q. p < q \<and> q < length contexts \<longrightarrow> tv_txid (contexts ! q) \<noteq> t)"

text \<open>The transaction that the index of the code gives for an outpoint, when it is an earlier one.\<close>

definition indexed_parent :: "TxValidationContext list \<Rightarrow> nat \<Rightarrow> nat \<Rightarrow> Outpoint \<Rightarrow> bool" where
  "indexed_parent contexts p c op \<longleftrightarrow> c < length contexts \<and> op \<in> set (tv_input_outpoints (contexts ! c)) \<and> p < c \<and>
    last_with_txid contexts (op_txid op) p"

definition indexed_spend :: "TxValidationContext list \<Rightarrow> Outpoint \<Rightarrow> nat \<Rightarrow> bool" where
  "indexed_spend contexts op c \<longleftrightarrow> c < length contexts \<and> op \<in> set (tv_input_outpoints (contexts ! c)) \<and>
    \<not> (\<exists>p. indexed_parent contexts p c op)"

lemma last_with_txidD: "last_with_txid contexts t p \<Longrightarrow> p < q \<Longrightarrow> q < length contexts \<Longrightarrow> tv_txid (contexts ! q) \<noteq> t"
  unfolding last_with_txid_def by blast

lemma txid_index_iff: "txid_index contexts t = Some p \<longleftrightarrow> last_with_txid contexts t p"
proof (induction contexts rule: rev_induct)
  case Nil
  then show ?case by (simp add: txid_index_def last_with_txid_def)
next
  case (snoc x xs)
  have "txid_index (xs @ [x]) = (txid_index xs)(tv_txid x \<mapsto> length xs)"
    by (simp add: txid_index_def enumerate_append_eq)
  moreover have "last_with_txid (xs @ [x]) t p \<longleftrightarrow> (if tv_txid x = t then p = length xs else last_with_txid xs t p)"
  proof (cases "tv_txid x = t")
    case True
    have "last_with_txid (xs @ [x]) t (length xs)" using True by (auto simp: last_with_txid_def)
    moreover have "p = length xs" if "last_with_txid (xs @ [x]) t p"
    proof (rule ccontr)
      assume "p \<noteq> length xs"
      with that have "p < length xs" by (simp add: last_with_txid_def)
      then have "tv_txid ((xs @ [x]) ! length xs) \<noteq> t" using last_with_txidD [OF that, of "length xs"] by simp
      then show False using True by simp
    qed
    ultimately show ?thesis using True by metis
  next
    case False
    have "p < length xs" if "last_with_txid (xs @ [x]) t p"
      using that False by (cases "p = length xs") (simp_all add: last_with_txid_def)
    then show ?thesis using False by (auto simp: last_with_txid_def nth_append)
  qed
  ultimately show ?case using snoc by auto
qed

lemma parent_child_iff:
  "c < length contexts \<Longrightarrow> op \<in> set (tv_input_outpoints (contexts ! c)) \<Longrightarrow>
    parent_child_edge (txid_index contexts) c op = Some e \<longleftrightarrow>
      (\<exists>p. indexed_parent contexts p c op \<and> e = \<lparr>producer_idx = p, consumer_idx = c, edge_kind = ParentChild\<rparr>)"
  by (auto simp: parent_child_edge_def indexed_parent_def txid_index_iff [symmetric] split: option.splits if_splits)

lemma rivals_spend: "rivals (txid_index contexts) (input_pairs contexts) op = {c. indexed_spend contexts op c}"
proof -
  have "parent_child_edge (txid_index contexts) c op = None \<longleftrightarrow> \<not> (\<exists>p. indexed_parent contexts p c op)"
    if "c < length contexts" "op \<in> set (tv_input_outpoints (contexts ! c))" for c
    using parent_child_iff [OF that] by (cases "parent_child_edge (txid_index contexts) c op") auto
  then show ?thesis by (auto simp: rivals_def input_pairs_iff indexed_spend_def)
qed

text \<open>The edges of the graph.\<close>

lemma collected_edges:
  "set (collect_tx_dep_edges contexts (txid_index contexts)) = edge_set (txid_index contexts) (input_pairs contexts)"
  using collect_edges [where idx = "txid_index contexts", OF input_pairs_sorted [of contexts]]
  unfolding collect_tx_dep_edges_def foldl_pairs input_pairs_def by blast

lemma parent_edges:
  "\<lparr>producer_idx = p, consumer_idx = c, edge_kind = ParentChild\<rparr> \<in> set (collect_tx_dep_edges contexts (txid_index contexts)) \<longleftrightarrow>
    (\<exists>op. indexed_parent contexts p c op)"
proof -
  have "(\<exists>(c', op) \<in> set (input_pairs contexts). parent_child_edge (txid_index contexts) c' op =
      Some \<lparr>producer_idx = p, consumer_idx = c, edge_kind = ParentChild\<rparr>) \<longleftrightarrow> (\<exists>op. indexed_parent contexts p c op)" (is "?l \<longleftrightarrow> ?r")
  proof
    assume ?l
    then obtain c' op where "c' < length contexts" "op \<in> set (tv_input_outpoints (contexts ! c'))"
        "parent_child_edge (txid_index contexts) c' op = Some \<lparr>producer_idx = p, consumer_idx = c, edge_kind = ParentChild\<rparr>"
      by (auto simp: input_pairs_iff)
    then show ?r using parent_child_iff by auto
  next
    assume ?r
    then obtain op where op: "indexed_parent contexts p c op" by blast
    then have c: "c < length contexts" "op \<in> set (tv_input_outpoints (contexts ! c))" by (simp_all add: indexed_parent_def)
    show ?l using op parent_child_iff [OF c] c by (intro bexI [of _ "(c, op)"]) (auto simp: input_pairs_iff)
  qed
  then show ?thesis unfolding collected_edges edge_set_def by (simp add: conflict_def)
qed

lemma conflict_edges:
  "\<lparr>producer_idx = p, consumer_idx = c, edge_kind = SamePrevout\<rparr> \<in> set (collect_tx_dep_edges contexts (txid_index contexts)) \<longleftrightarrow>
    (\<exists>op. indexed_spend contexts op p \<and> indexed_spend contexts op c \<and> p < c \<and> (\<forall>q < p. \<not> indexed_spend contexts op q))"
proof -
  let ?e = "\<lparr>producer_idx = p, consumer_idx = c, edge_kind = SamePrevout\<rparr>"
  have none: "parent_child_edge idx c' op \<noteq> Some ?e" for idx c' op
    by (simp add: parent_child_edge_def split: option.split)
  have "conflict {c. indexed_spend contexts op c} ?e \<longleftrightarrow>
      indexed_spend contexts op p \<and> indexed_spend contexts op c \<and> p < c \<and> (\<forall>q < p. \<not> indexed_spend contexts op q)" for op
  proof -
    let ?R = "{c. indexed_spend contexts op c}"
    have fin: "finite ?R" unfolding rivals_spend [symmetric] by (rule finite_rivals)
    have "p = Min ?R \<longleftrightarrow> p \<in> ?R \<and> (\<forall>q < p. q \<notin> ?R)" if "?R \<noteq> {}"
      using Min_eq_iff [OF fin that, of p] by (auto simp: not_le [symmetric])
    then show ?thesis unfolding conflict_def by auto
  qed
  then show ?thesis unfolding collected_edges edge_set_def rivals_spend using none by auto
qed

lemma edges_in_range: "e \<in> set (collect_tx_dep_edges contexts (txid_index contexts)) \<Longrightarrow> edge_in_range (length contexts) e"
  using parent_edges [of "producer_idx e" "consumer_idx e" contexts] conflict_edges [of "producer_idx e" "consumer_idx e" contexts]
  by (cases e; cases "edge_kind e") (auto simp: edge_in_range_def indexed_parent_def indexed_spend_def)

section \<open>The schedule\<close>

lemma foldr_max: "foldr max xs 0 = Max (insert 0 (set xs))" for xs :: "nat list"
  by (induction xs) (simp_all add: insert_commute)

lemma built_graph:
  fixes contexts :: "TxValidationContext list"
  defines "g \<equiv> build_tx_dep_graph contexts" and "n \<equiv> length contexts"
  shows "dg_tx_count g = n" and "set (dg_edges g) = set (collect_tx_dep_edges contexts (txid_index contexts))"
    and "length (dg_levels g) = n" and "longest_paths (dg_levels g) (set (dg_edges g))"
    and "dg_max_level g = Max (insert 0 (set (dg_levels g)))"
    and "dg_level_order g = sort_key (tx_dep_level_order_key contexts (dg_levels g)) [0..<n]"
proof -
  let ?E = "collect_tx_dep_edges contexts (txid_index contexts)"
  let ?L = "foldl raise_level (replicate n 0) (sort_tx_dep_edges ?E)"
  have nil: "?E = []" if "n = 0" using that by (simp add: n_def collect_tx_dep_edges_def)
  have g: "g = \<lparr>dg_tx_count = n, dg_edges = sort_tx_dep_edges ?E, dg_levels = ?L,
      dg_level_order = compute_tx_dep_level_order contexts ?L, dg_max_level = foldr max ?L 0\<rparr>"
  proof (cases "n = 0")
    case True
    then show ?thesis using nil
      by (simp add: g_def n_def build_tx_dep_graph_def sort_tx_dep_edges_def compute_tx_dep_level_order_def)
  next
    case False
    then show ?thesis by (simp add: g_def n_def build_tx_dep_graph_def compute_tx_dep_levels_def Let_def)
  qed
  have sorted: "sorted (map consumer_idx (sort_tx_dep_edges ?E))"
  proof -
    have "sorted (map tx_dep_edge_sort_key (sort_tx_dep_edges ?E))" by (simp add: sort_tx_dep_edges_def)
    then show ?thesis by (auto simp: sorted_map tx_dep_edge_sort_key_def elim!: sorted_wrt_mono_rel [rotated])
  qed
  have range: "list_all (edge_in_range n) (sort_tx_dep_edges ?E)"
    using edges_in_range by (auto simp: list_all_iff sort_tx_dep_edges_def n_def)
  show "dg_tx_count g = n" "set (dg_edges g) = set ?E" "length (dg_levels g) = n" "dg_max_level g = Max (insert 0 (set (dg_levels g)))"
      "dg_level_order g = sort_key (tx_dep_level_order_key contexts (dg_levels g)) [0..<n]"
    by (simp_all add: g sort_tx_dep_edges_def length_raise foldr_max compute_tx_dep_level_order_def n_def)
  show "longest_paths (dg_levels g) (set (dg_edges g))" using levels_longest [OF sorted range] by (simp add: g)
qed

lemma schedule_sorted:
  assumes "i < j" and "j < length contexts"
  defines "g \<equiv> build_tx_dep_graph contexts"
  shows "tx_dep_level_order_key contexts (dg_levels g) (dg_level_order g ! i) \<le> tx_dep_level_order_key contexts (dg_levels g) (dg_level_order g ! j)"
proof -
  let ?k = "tx_dep_level_order_key contexts (dg_levels g)"
  have o: "dg_level_order g = sort_key ?k [0..<length contexts]" unfolding g_def by (rule built_graph)
  have "sorted (map ?k (dg_level_order g))" unfolding o by (rule sorted_sort_key)
  then show ?thesis using assms(1,2) o by (auto simp: sorted_map sorted_wrt_iff_nth_less)
qed

lemma schedule_respects_edges:
  assumes "i < j" and "j < length contexts"
  defines "g \<equiv> build_tx_dep_graph contexts"
  assumes e: "e \<in> set (dg_edges g)" "producer_idx e = dg_level_order g ! j" "consumer_idx e = dg_level_order g ! i"
  shows False
proof -
  have "dg_levels g ! producer_idx e < dg_levels g ! consumer_idx e"
    using e(1) edges_in_range [of e contexts] unfolding g_def
    by (intro level_increases [OF built_graph(4)]) (simp_all add: built_graph)
  then show False using schedule_sorted [OF assms(1,2)] e(2,3) by (auto simp: g_def tx_dep_level_order_key_def)
qed

text \<open>
  The edges that the documentation asks for: from a parent to a later transaction that
  refers to its id, and between the spenders of an outpoint of the state before the block.
\<close>

definition parent_of :: "TxValidationContext list \<Rightarrow> nat \<Rightarrow> nat \<Rightarrow> Outpoint \<Rightarrow> bool" where
  "parent_of contexts p c op \<longleftrightarrow> p < c \<and> c < length contexts \<and> op \<in> set (tv_input_outpoints (contexts ! c)) \<and>
    tv_txid (contexts ! p) = op_txid op"

definition spends_snapshot :: "TxValidationContext list \<Rightarrow> Outpoint \<Rightarrow> nat \<Rightarrow> bool" where
  "spends_snapshot contexts op c \<longleftrightarrow> c < length contexts \<and> op \<in> set (tv_input_outpoints (contexts ! c)) \<and>
    (\<forall>p < c. tv_txid (contexts ! p) \<noteq> op_txid op)"

lemma indexed_parent_sound: "indexed_parent contexts p c op \<Longrightarrow> parent_of contexts p c op"
  by (simp add: indexed_parent_def parent_of_def last_with_txid_def)

lemma indexed_parent_eq:
  assumes "distinct (map tv_txid contexts)"
  shows "indexed_parent contexts p c op \<longleftrightarrow> parent_of contexts p c op"
proof
  assume p: "parent_of contexts p c op"
  have "tv_txid (contexts ! q) \<noteq> tv_txid (contexts ! p)" if "p < q" "q < length contexts" for q
    using nth_eq_iff_index_eq [OF assms, of q p] that by auto
  then show "indexed_parent contexts p c op" using p by (auto simp: indexed_parent_def parent_of_def last_with_txid_def)
qed (rule indexed_parent_sound)

lemma indexed_spend_eq:
  assumes "distinct (map tv_txid contexts)"
  shows "indexed_spend contexts op c \<longleftrightarrow> spends_snapshot contexts op c"
  unfolding indexed_spend_def spends_snapshot_def indexed_parent_eq [OF assms] by (auto simp: parent_of_def)

text \<open>
  C20: the scheduling graph of a block is right. For transactions with different ids it has an
  edge from a transaction to a later one exactly when the later one refers to the transaction id of the
  earlier, or when both spend the same outpoint of the state before the block and
  the earlier is the first that does; when ids repeat, a parent edge still joins a transaction
  to a later one that refers to its id. The level of each transaction is the
  length of the longest chain of edges that ends in it. The order lists every transaction
  once, by level and then by transaction id, so no transaction comes before one that
  it has an edge from.
\<close>

theorem dep_graph_schedule:
  "let g = build_tx_dep_graph contexts; n = length contexts; order = dg_level_order g in
    (distinct (map tv_txid contexts) \<longrightarrow>
      (\<forall>p c. \<lparr>producer_idx = p, consumer_idx = c, edge_kind = ParentChild\<rparr> \<in> set (dg_edges g) \<longleftrightarrow> (\<exists>op. parent_of contexts p c op)) \<and>
      (\<forall>p c. \<lparr>producer_idx = p, consumer_idx = c, edge_kind = SamePrevout\<rparr> \<in> set (dg_edges g) \<longleftrightarrow>
        (\<exists>op. spends_snapshot contexts op p \<and> spends_snapshot contexts op c \<and> p < c \<and> (\<forall>q < p. \<not> spends_snapshot contexts op q)))) \<and>
    (\<forall>p c. \<lparr>producer_idx = p, consumer_idx = c, edge_kind = ParentChild\<rparr> \<in> set (dg_edges g) \<longrightarrow> (\<exists>op. parent_of contexts p c op)) \<and>
    length (dg_levels g) = n \<and> longest_paths (dg_levels g) (set (dg_edges g)) \<and> dg_max_level g = Max (insert 0 (set (dg_levels g))) \<and>
    mset order = mset [0..<n] \<and>
    (\<forall>i j. i < j \<and> j < n \<longrightarrow> (dg_levels g ! (order ! i), tv_txid (contexts ! (order ! i))) \<le>
      (dg_levels g ! (order ! j), tv_txid (contexts ! (order ! j)))) \<and>
    (\<forall>i j e. i < j \<and> j < n \<and> e \<in> set (dg_edges g) \<longrightarrow> \<not> (producer_idx e = order ! j \<and> consumer_idx e = order ! i))"
  unfolding Let_def
proof (intro conjI allI impI)
  let ?g = "build_tx_dep_graph contexts"
  show "(\<lparr>producer_idx = p, consumer_idx = c, edge_kind = ParentChild\<rparr> \<in> set (dg_edges ?g)) = (\<exists>op. parent_of contexts p c op)"
    if "distinct (map tv_txid contexts)" for p c
    unfolding built_graph parent_edges indexed_parent_eq [OF that] by (rule refl)
  show "(\<lparr>producer_idx = p, consumer_idx = c, edge_kind = SamePrevout\<rparr> \<in> set (dg_edges ?g)) =
      (\<exists>op. spends_snapshot contexts op p \<and> spends_snapshot contexts op c \<and> p < c \<and> (\<forall>q < p. \<not> spends_snapshot contexts op q))"
    if "distinct (map tv_txid contexts)" for p c
    unfolding built_graph conflict_edges indexed_spend_eq [OF that] by (rule refl)
  show "\<exists>op. parent_of contexts p c op"
    if "\<lparr>producer_idx = p, consumer_idx = c, edge_kind = ParentChild\<rparr> \<in> set (dg_edges ?g)" for p c
    using that indexed_parent_sound unfolding built_graph parent_edges by blast
  show "length (dg_levels ?g) = length contexts" "longest_paths (dg_levels ?g) (set (dg_edges ?g))"
      "dg_max_level ?g = Max (insert 0 (set (dg_levels ?g)))"
    by (rule built_graph)+
  show "mset (dg_level_order ?g) = mset [0..<length contexts]" by (subst built_graph(6)) simp
  show "(dg_levels ?g ! (dg_level_order ?g ! i), tv_txid (contexts ! (dg_level_order ?g ! i))) \<le>
      (dg_levels ?g ! (dg_level_order ?g ! j), tv_txid (contexts ! (dg_level_order ?g ! j)))" if "i < j \<and> j < length contexts" for i j
    using schedule_sorted [of i j contexts] that by (simp only: tx_dep_level_order_key_def)
  show "\<not> (producer_idx e = dg_level_order ?g ! j \<and> consumer_idx e = dg_level_order ?g ! i)"
    if "i < j \<and> j < length contexts \<and> e \<in> set (dg_edges ?g)" for i j e
    using schedule_respects_edges [of i j contexts e] that by blast
qed

definition demo_contexts :: "TxValidationContext list" where
  "demo_contexts =
    [\<lparr>tv_tx_index = 1, tv_txid = replicate 32 7, tv_input_outpoints = [\<lparr>op_txid = replicate 32 9, op_vout = 0\<rparr>]\<rparr>,
     \<lparr>tv_tx_index = 2, tv_txid = replicate 32 5, tv_input_outpoints = [\<lparr>op_txid = replicate 32 7, op_vout = 1\<rparr>]\<rparr>,
     \<lparr>tv_tx_index = 3, tv_txid = replicate 32 3, tv_input_outpoints = [\<lparr>op_txid = replicate 32 9, op_vout = 0\<rparr>]\<rparr>]"

lemma demo_graph:
  "build_tx_dep_graph demo_contexts = \<lparr>dg_tx_count = 3,
    dg_edges = [\<lparr>producer_idx = 0, consumer_idx = 1, edge_kind = ParentChild\<rparr>, \<lparr>producer_idx = 0, consumer_idx = 2, edge_kind = SamePrevout\<rparr>],
    dg_levels = [0, 1, 1], dg_level_order = [0, 2, 1], dg_max_level = 1\<rparr>"
  by code_simp

theorem dep_graph_schedule_witness:
  "(\<exists>op. parent_of demo_contexts 0 1 op) \<and> (\<exists>op. spends_snapshot demo_contexts op 0 \<and> spends_snapshot demo_contexts op 2) \<and>
    \<not> (\<exists>op. parent_of demo_contexts 0 2 op) \<and> dg_levels (build_tx_dep_graph demo_contexts) = [0, 1, 1] \<and>
    dg_level_order (build_tx_dep_graph demo_contexts) = [0, 2, 1]"
proof -
  have "distinct (map tv_txid demo_contexts)" by code_simp
  note spec = dep_graph_schedule [of demo_contexts, unfolded demo_graph Let_def, THEN conjunct1, rule_format, OF this]
  note parent = spec [THEN conjunct1, rule_format] and conflict = spec [THEN conjunct2, rule_format]
  show ?thesis using parent [of 0 1] parent [of 0 2] conflict [of 0 2] by (simp add: demo_graph)
qed

text \<open>
  With a repeated id the index keeps the last transaction that has it. The second
  transaction below spends an output of the first and the third repeats the id of the
  first: the graph has no edge.
\<close>

lemma repeated_txid_loses_edge:
  "let ctxs = [\<lparr>tv_tx_index = 1, tv_txid = replicate 32 7, tv_input_outpoints = []\<rparr>,
     \<lparr>tv_tx_index = 2, tv_txid = replicate 32 5, tv_input_outpoints = [\<lparr>op_txid = replicate 32 7, op_vout = 0\<rparr>]\<rparr>,
     \<lparr>tv_tx_index = 3, tv_txid = replicate 32 7, tv_input_outpoints = []\<rparr>] in
   dg_edges (build_tx_dep_graph ctxs) = [] \<and> parent_of ctxs 0 1 \<lparr>op_txid = replicate 32 7, op_vout = 0\<rparr>"
proof -
  let ?ctxs = "[\<lparr>tv_tx_index = 1, tv_txid = replicate 32 7, tv_input_outpoints = []\<rparr>,
     \<lparr>tv_tx_index = 2, tv_txid = replicate 32 5, tv_input_outpoints = [\<lparr>op_txid = replicate 32 7, op_vout = 0\<rparr>]\<rparr>,
     \<lparr>tv_tx_index = 3, tv_txid = replicate 32 7, tv_input_outpoints = []\<rparr>] :: TxValidationContext list"
  have "dg_edges (build_tx_dep_graph ?ctxs) = []" by code_simp
  then show ?thesis by (simp add: Let_def parent_of_def)
qed

end
