(* ===== verification/Node_State.thy ===== *)
theory Node_State
  imports Chain_State
begin

text \<open>
  The chain state of the node (\<^verbatim>\<open>rubin-node/src/chainstate.rs\<close>) and the guard on the genesis
  block (\<^verbatim>\<open>genesis.rs\<close>): the tip beside the unspent outputs, and connecting the next
  block to it through the consensus crate. The node reports errors as strings; each
  message is a constructor here.
\<close>

datatype NodeError =
    NodeConsensus TxError
  | HeightOverflow
  | GenesisChainIdMismatch
  | GenesisHashMismatch
  | TxidLengthMismatch
  | UndoMissingUtxo Outpoint
  | UndoDuplicateSpend Outpoint
  | NoTip
  | DisconnectHeightMismatch u64 u64
  | UndoTxCountMismatch
  | NotCurrentTip
  | MissingCreatedOutput Outpoint
  | DuplicateRestore Outpoint
  | RestoreTargetPresent Outpoint

record ChainState =
  has_tip :: bool
  ns_height :: u64
  tip_hash :: bytes32
  ns_already_generated :: u128
  ns_utxos :: utxo_set

definition ChainState_new :: ChainState where
  "ChainState_new = \<lparr>has_tip = False, ns_height = 0, tip_hash = replicate 32 0, ns_already_generated = 0, ns_utxos = Map.empty\<rparr>"

record CanonicalAppliedBlock =
  ca_hash :: bytes32
  complete_da_ids :: "bytes32 list"

record ChainStateConnectSummary =
  sc_block_height :: u64
  sc_block_hash :: bytes32
  sc_sum_fees :: u128
  sc_already_generated :: u128
  sc_already_generated_n1 :: u128
  sc_utxo_count :: u64
  canonical_applied_blocks :: "CanonicalAppliedBlock list"

section \<open>The genesis block\<close>

definition devnet_genesis_block_bytes :: bytes where
  "devnet_genesis_block_bytes =
    [1, 0, 0, 0] @
    replicate 32 0 @
    [111, 115, 46, 97, 94, 47, 67, 51, 122, 83, 233, 136, 74, 219, 167, 218, 50, 37, 125, 91, 181, 112, 26, 220, 126, 208, 189, 64,
     111, 45, 249, 19, 64, 228, 158, 105, 0, 0, 0, 0] @
    replicate 32 255 @
    [0, 0, 0, 0, 0, 0, 0, 0] @
    encode_compact_size 1 @
    [1, 0, 0, 0, 0, 0, 0, 0, 0, 0, 0, 0, 0, 1] @
    replicate 32 0 @
    [255, 255, 255, 255, 0, 255, 255, 255, 255, 2, 0, 64, 122, 16, 243, 90, 0, 0, 0, 0, 33, 1, 132, 72, 185, 27, 136, 209,
     166, 251, 182, 94, 135, 43, 114, 195, 129, 178, 169, 243, 206, 40, 106, 35, 47, 86, 48, 150, 103, 246, 57, 221, 114, 121, 0, 0,
     0, 0, 0, 0, 0, 0, 2, 0, 32, 183, 22, 164, 183, 244, 192, 250, 182, 101, 41, 138, 185, 184, 25, 155, 96, 26, 185, 250,
     126, 10, 39, 240, 113, 51, 131, 243, 76, 243, 112, 113, 168, 0, 0, 0, 0, 0, 0]"

definition devnet_genesis_chain_id :: bytes32 where
  "devnet_genesis_chain_id =
    [136, 248, 169, 172, 222, 235, 144, 46, 39, 170, 47, 220, 184, 196, 110, 207, 129, 139, 246, 141, 236, 82, 115, 236, 27, 204, 80, 132,
     226, 51, 49, 3]"

definition devnet_genesis_hash :: "(bytes \<Rightarrow> bytes32) \<Rightarrow> bytes32" where
  "devnet_genesis_hash H = H (take BLOCK_HEADER_BYTES devnet_genesis_block_bytes)"

definition validate_incoming_chain_id :: "u64 \<Rightarrow> bytes32 \<Rightarrow> NodeError + unit" where
  "validate_incoming_chain_id block_height chain_id =
    (if block_height = 0 \<and> chain_id \<noteq> replicate 32 0 \<and> chain_id \<noteq> devnet_genesis_chain_id
     then Inl GenesisChainIdMismatch else Inr ())"

definition validate_genesis_identity :: "(bytes \<Rightarrow> bytes32) \<Rightarrow> u64 \<Rightarrow> bytes32 \<Rightarrow> bytes \<Rightarrow> NodeError + unit" where
  "validate_genesis_identity H block_height chain_id block_bytes =
    and_then (validate_incoming_chain_id block_height chain_id) (\<lambda>_.
    if block_height \<noteq> 0 \<or> chain_id \<noteq> devnet_genesis_chain_id then Inr ()
    else if length block_bytes < BLOCK_HEADER_BYTES then Inr ()
    else case block_hash H (take BLOCK_HEADER_BYTES block_bytes) of
      Inl _ \<Rightarrow> Inr ()
    | Inr hash \<Rightarrow> if hash \<noteq> devnet_genesis_hash H then Inl GenesisHashMismatch else Inr ())"

section \<open>Connecting a block\<close>

definition next_block_context :: "ChainState \<Rightarrow> NodeError + u64 \<times> bytes32 option" where
  "next_block_context st =
    (if \<not> has_tip st then Inr (0, None)
     else if ns_height st = - 1 then Inl HeightOverflow
     else Inr (ns_height st + 1, Some (tip_hash st)))"

definition apply_connected_block ::
  "ChainState \<Rightarrow> u64 \<Rightarrow> bytes32 \<Rightarrow> InMemoryChainState \<Rightarrow> ConnectBlockBasicSummary \<Rightarrow>
   (NodeError + ChainStateConnectSummary) \<times> ChainState" where
  "apply_connected_block st block_height hash work_state sm =
    (Inr \<lparr>sc_block_height = block_height, sc_block_hash = hash, sc_sum_fees = cb_sum_fees sm,
       sc_already_generated = cb_already_generated sm, sc_already_generated_n1 = cb_already_generated_n1 sm,
       sc_utxo_count = cb_utxo_count sm, canonical_applied_blocks = []\<rparr>,
     st\<lparr>has_tip := True, ns_height := block_height, tip_hash := hash,
       ns_already_generated := cs_already_generated work_state, ns_utxos := cs_utxos work_state\<rparr>)"

definition connect_block_with_suite_context ::
  "BigUintLib \<Rightarrow> OpenSSL \<Rightarrow> (bytes \<Rightarrow> bytes32) \<Rightarrow> bytes \<Rightarrow> bytes32 option \<Rightarrow> u64 list option \<Rightarrow> bytes32 \<Rightarrow>
   RotationProvider option \<Rightarrow> SuiteRegistry option \<Rightarrow> ChainState \<Rightarrow> (NodeError + ChainStateConnectSummary) \<times> ChainState" where
  "connect_block_with_suite_context L ssl H block_bytes expected_target prev_timestamps chain_id rotation registry st =
    (case and_then (next_block_context st) (\<lambda>(block_height, prev).
       and_then (validate_genesis_identity H block_height chain_id block_bytes) (\<lambda>_. Inr (block_height, prev))) of
       Inl e \<Rightarrow> (Inl e, st)
     | Inr (block_height, prev) \<Rightarrow>
       (case connect_block_basic_in_memory_at_height_with_suite_context L ssl H block_bytes prev expected_target block_height
          prev_timestamps chain_id rotation registry
          \<lparr>cs_utxos = ns_utxos st, cs_already_generated = ns_already_generated st\<rparr> of
          (Inl e, _) \<Rightarrow> (Inl (NodeConsensus e), st)
        | (Inr sm, work_state) \<Rightarrow>
          (case and_then (parse_block_bytes H block_bytes) (\<lambda>parsed. block_hash H (pb_header_bytes parsed)) of
             Inl e \<Rightarrow> (Inl (NodeConsensus e), st)
           | Inr hash \<Rightarrow> apply_connected_block st block_height hash work_state sm)))"

section \<open>The built-in genesis block\<close>

text \<open>What the bytes of the built-in block mean: one coinbase that pays the genesis allocation to a key.\<close>

definition genesis_coinbase :: Tx where
  "genesis_coinbase = \<lparr>version = 1, tx_kind = 0, tx_nonce = 0,
    inputs = [\<lparr>prev_txid = replicate 32 0, prev_vout = - 1, script_sig = [], sequence = - 1\<rparr>],
    outputs = [\<lparr>out_value = GENESIS_ALLOCATION, out_covenant_type = COV_TYPE_P2PK, out_covenant_data =
      [1, 132, 72, 185, 27, 136, 209, 166, 251, 182, 94, 135, 43, 114, 195, 129, 178, 169, 243, 206, 40, 106, 35, 47, 86, 48,
      150, 103, 246, 57, 221, 114, 121]\<rparr>,
      \<lparr>out_value = 0, out_covenant_type = COV_TYPE_ANCHOR, out_covenant_data =
      [183, 22, 164, 183, 244, 192, 250, 182, 101, 41, 138, 185, 184, 25, 155, 96, 26, 185, 250, 126, 10, 39, 240, 113, 51, 131,
      243, 76, 243, 112, 113, 168]\<rparr>],
    locktime = 0, da_commit_core = None, da_chunk_core = None, witness = [], da_payload = []\<rparr>"

definition genesis_header :: BlockHeader where
  "genesis_header = \<lparr>hdr_version = 1, prev_block_hash = replicate 32 0, merkle_root =
      [111, 115, 46, 97, 94, 47, 67, 51, 122, 83, 233, 136, 74, 219, 167, 218, 50, 37, 125, 91, 181, 112, 26, 220, 126, 208,
      189, 64, 111, 45, 249, 19],
      timestamp = 1772020800, target = POW_LIMIT, nonce = 0\<rparr>"

definition genesis_block :: "(bytes \<Rightarrow> bytes32) \<Rightarrow> ParsedBlock" where
  "genesis_block H = \<lparr>pb_header = genesis_header, pb_header_bytes = header_bytes_of genesis_header, pb_tx_count = 1,
    pb_txs = [genesis_coinbase], pb_txids = [H (marshal_core genesis_coinbase)],
    pb_wtxids = [H (marshal_core genesis_coinbase @ marshal_tail genesis_coinbase)]\<rparr>"

lemma genesis_coinbase_wf: "wf_tx genesis_coinbase"
  by (simp add: wf_tx_def wf_core_def genesis_coinbase_def wf_input_def wf_output_def wf_payload_def wf_witnesses_def)

lemma le_bytes: "nat_le 2 v = [of_nat (v), of_nat (v div 256)]" "nat_le 4 v = [of_nat (v), of_nat (v div 256), of_nat (v div 256 div 256), of_nat (v div 256 div 256 div 256)]" "nat_le 8 v = [of_nat (v), of_nat (v div 256), of_nat (v div 256 div 256), of_nat (v div 256 div 256 div 256), of_nat (v div 256 div 256 div 256 div 256), of_nat (v div 256 div 256 div 256 div 256 div 256), of_nat (v div 256 div 256 div 256 div 256 div 256 div 256), of_nat (v div 256 div 256 div 256 div 256 div 256 div 256 div 256)]"
proof -
  have n: "2 = Suc (Suc 0)" "4 = Suc (Suc (Suc (Suc 0)))" "8 = Suc (Suc (Suc (Suc (Suc (Suc (Suc (Suc 0)))))))" by simp_all
  show "nat_le 2 v = [of_nat (v), of_nat (v div 256)]" "nat_le 4 v = [of_nat (v), of_nat (v div 256), of_nat (v div 256 div 256), of_nat (v div 256 div 256 div 256)]" "nat_le 8 v = [of_nat (v), of_nat (v div 256), of_nat (v div 256 div 256), of_nat (v div 256 div 256 div 256), of_nat (v div 256 div 256 div 256 div 256), of_nat (v div 256 div 256 div 256 div 256 div 256), of_nat (v div 256 div 256 div 256 div 256 div 256 div 256), of_nat (v div 256 div 256 div 256 div 256 div 256 div 256 div 256)]"
    by (simp_all only: n nat_le.simps)
qed

lemma genesis_le: "to_le32 1 = [1,0,0,0]" "to_le32 0 = [0,0,0,0]" "to_le32 (-1) = [255,255,255,255]" "to_le16 0 = [0,0]" "to_le16 2 = [2,0]"
  "to_le64 0 = [0,0,0,0,0,0,0,0]" "to_le64 100000000000000 = [0, 64, 122, 16, 243, 90, 0, 0]" "to_le64 1772020800 = [64, 228, 158, 105, 0, 0, 0, 0]"
  by (simp_all add: to_le16_def to_le32_def to_le64_def le_bytes unsigned_minus_1_eq_mask mask_eq_exp_minus_1)

lemma genesis_encoding: "block_encoding (genesis_block H) = devnet_genesis_block_bytes"
proof -
  have "header_bytes_of genesis_header = take 116 devnet_genesis_block_bytes"
    by (simp add: header_bytes_of_def genesis_header_def genesis_le devnet_genesis_block_bytes_def POW_LIMIT_def)
  moreover have "encode_compact_size 1 @ marshal_core genesis_coinbase @ marshal_tail genesis_coinbase = drop 116 devnet_genesis_block_bytes"
    by (simp add: genesis_coinbase_def marshal_core_def marshal_tail_def marshal_input_def marshal_output_def genesis_le
        devnet_genesis_block_bytes_def encode_compact_size_def const_defs)
  ultimately show ?thesis by (simp add: block_encoding_def genesis_block_def)
qed

lemma devnet_genesis_parses: "parse_block_bytes H devnet_genesis_block_bytes = Ok (genesis_block H)"
proof (rule parse_block_complete)
  show "wf_parsed_block H (genesis_block H)"
    using genesis_coinbase_wf by (simp add: wf_parsed_block_def genesis_block_def genesis_header_def POW_LIMIT_def)
  show "devnet_genesis_block_bytes = block_encoding (genesis_block H)" by (rule genesis_encoding [symmetric])
  show "length devnet_genesis_block_bytes \<le> usize_max + 116"
    by (simp add: devnet_genesis_block_bytes_def usize_max_def length_encode_compact_size)
qed

text \<open>The guard pins the block of height zero under the chain id of the network, and nothing else.\<close>

lemma genesis_identity_iff:
  "validate_genesis_identity H h chain_id b = Inr () \<longleftrightarrow> h \<noteq> 0 \<or> chain_id = replicate 32 0 \<or>
    chain_id = devnet_genesis_chain_id \<and> (length b < BLOCK_HEADER_BYTES \<or> H (take BLOCK_HEADER_BYTES b) = devnet_genesis_hash H)"
proof -
  have "hd devnet_genesis_chain_id \<noteq> hd (replicate 32 0)" by (simp add: devnet_genesis_chain_id_def)
  then have "devnet_genesis_chain_id \<noteq> replicate 32 0" by metis
  then show ?thesis
    by (auto simp: validate_genesis_identity_def validate_incoming_chain_id_def block_hash_def)
qed

lemma new_state_accepts_genesis_identity:
  "next_block_context ChainState_new = Inr (0, None) \<and>
   validate_genesis_identity H 0 devnet_genesis_chain_id devnet_genesis_block_bytes = Inr ()"
  by (simp add: next_block_context_def ChainState_new_def genesis_identity_iff devnet_genesis_hash_def)

end
