(* ===== verification/Undo.thy ===== *)
theory Undo
  imports Node_State
begin

text \<open>
  Undo records and the disconnection of a block (\<^verbatim>\<open>rubin-node/src/undo.rs\<close> and the parts of
  \<^verbatim>\<open>sync_disconnect.rs\<close> and \<^verbatim>\<open>sync_reorg.rs\<close> that work on a loaded block). The loops of the code
  over a mutable map and its sets pass them from one pass to the next. The JSON form of
  the records is not modelled.
\<close>

record SpentUndo =
  su_outpoint :: Outpoint
  su_entry :: UtxoEntry

record TxUndo =
  tu_spent :: "SpentUndo list"

record BlockUndo =
  bu_block_height :: u64
  previous_already_generated :: u128
  bu_txs :: "TxUndo list"

record ChainStateDisconnectSummary =
  disconnected_height :: u64
  ds_block_hash :: bytes32
  new_height :: u64
  new_tip_hash :: bytes32
  ds_has_tip :: bool
  ds_already_generated :: u128
  ds_utxo_count :: u64

section \<open>Building the record\<close>

definition is_spendable_output :: "u16 \<Rightarrow> bool" where
  "is_spendable_output covenant_type \<longleftrightarrow> covenant_type \<noteq> COV_TYPE_ANCHOR \<and> covenant_type \<noteq> COV_TYPE_DA_COMMIT"

text \<open>The outpoints that the loops over the outputs visit, and the inputs that a transaction spends: none for the coinbase.\<close>

definition created_outpoints :: "bytes32 \<Rightarrow> Tx \<Rightarrow> Outpoint list" where
  "created_outpoints txid tx =
    map (\<lambda>(output_index, out). \<lparr>op_txid = txid, op_vout = of_nat output_index\<rparr>)
      (filter (\<lambda>(output_index, out). is_spendable_output (out_covenant_type out)) (List.enumerate 0 (outputs tx)))"

definition spent_outpoints :: "nat \<Rightarrow> Tx \<Rightarrow> Outpoint list" where
  "spent_outpoints i tx =
    (if i > 0 then map (\<lambda>input. \<lparr>op_txid = prev_txid input, op_vout = prev_vout input\<rparr>) (inputs tx) else [])"

definition undo_input ::
  "utxo_set \<Rightarrow> Outpoint set \<times> Outpoint set \<times> SpentUndo list \<Rightarrow> Outpoint \<Rightarrow>
   NodeError + Outpoint set \<times> Outpoint set \<times> SpentUndo list" where
  "undo_input prev_utxos = (\<lambda>(spent_prev_outpoints, block_outputs, spent) op.
    if op \<in> block_outputs then Inr (spent_prev_outpoints, block_outputs - {op}, spent)
    else and_then (ok_or (UndoMissingUtxo op) (prev_utxos op)) (\<lambda>entry.
    if op \<in> spent_prev_outpoints then Inl (UndoDuplicateSpend op)
    else Inr (insert op spent_prev_outpoints, block_outputs, spent @ [\<lparr>su_outpoint = op, su_entry = entry\<rparr>])))"

definition undo_tx ::
  "utxo_set \<Rightarrow> Outpoint set \<times> Outpoint set \<times> TxUndo list \<Rightarrow> nat \<times> Tx \<times> bytes32 \<Rightarrow>
   NodeError + Outpoint set \<times> Outpoint set \<times> TxUndo list" where
  "undo_tx prev_utxos = (\<lambda>(spent_prev_outpoints, block_outputs, tx_undos) (i, tx, txid).
    and_then (try_fold (undo_input prev_utxos) (spent_prev_outpoints, block_outputs, []) (spent_outpoints i tx))
      (\<lambda>(spent_prev_outpoints, block_outputs, spent).
    Inr (spent_prev_outpoints, block_outputs \<union> set (created_outpoints txid tx), tx_undos @ [\<lparr>tu_spent = spent\<rparr>])))"

definition build_block_undo :: "(bytes \<Rightarrow> bytes32) \<Rightarrow> ChainState \<Rightarrow> bytes \<Rightarrow> u64 \<Rightarrow> NodeError + BlockUndo" where
  "build_block_undo H prev_state block_bytes block_height =
    and_then (map_err NodeConsensus (parse_block_bytes H block_bytes)) (\<lambda>pb.
    if length (pb_txs pb) \<noteq> length (pb_txids pb) then Inl TxidLengthMismatch
    else and_then (try_fold (undo_tx (ns_utxos prev_state)) ({}, {}, []) (List.enumerate 0 (zip (pb_txs pb) (pb_txids pb))))
      (\<lambda>(_, _, tx_undos).
    Inr \<lparr>bu_block_height = block_height, previous_already_generated = ns_already_generated prev_state, bu_txs = tx_undos\<rparr>))"

section \<open>Disconnecting a block\<close>

text \<open>The outpoints created by the block that the block itself spends: the first loop.\<close>

definition scan_tx :: "Outpoint set \<times> Outpoint set \<Rightarrow> nat \<times> Tx \<times> bytes32 \<Rightarrow> Outpoint set \<times> Outpoint set" where
  "scan_tx = (\<lambda>(created, same_block_spent) (tx_index, tx, txid).
    (created \<union> set (created_outpoints txid tx),
     same_block_spent \<union> set (filter (\<lambda>op. op \<in> created) (spent_outpoints tx_index tx))))"

definition remove_created :: "Outpoint set \<Rightarrow> utxo_set \<Rightarrow> Outpoint \<Rightarrow> NodeError + utxo_set" where
  "remove_created same_block_spent work_utxos op =
    (if work_utxos op = None \<and> op \<notin> same_block_spent then Inl (MissingCreatedOutput op) else Inr (work_utxos(op := None)))"

definition restore_spent :: "Outpoint set \<times> utxo_set \<Rightarrow> SpentUndo \<Rightarrow> NodeError + Outpoint set \<times> utxo_set" where
  "restore_spent = (\<lambda>(restored, work_utxos) spent.
    if su_outpoint spent \<in> restored then Inl (DuplicateRestore (su_outpoint spent))
    else if work_utxos (su_outpoint spent) \<noteq> None then Inl (RestoreTargetPresent (su_outpoint spent))
    else Inr (insert (su_outpoint spent) restored, work_utxos(su_outpoint spent \<mapsto> su_entry spent)))"

definition disconnect_tx ::
  "Outpoint set \<Rightarrow> Outpoint set \<times> utxo_set \<Rightarrow> (Tx \<times> bytes32) \<times> TxUndo \<Rightarrow> NodeError + Outpoint set \<times> utxo_set" where
  "disconnect_tx same_block_spent = (\<lambda>(restored, work_utxos) ((tx, txid), undo).
    and_then (try_fold (remove_created same_block_spent) work_utxos (created_outpoints txid tx)) (\<lambda>work_utxos.
    try_fold restore_spent (restored, work_utxos) (tu_spent undo)))"

text \<open>The second loop, over the transactions from the last to the first, and the new state: the code has both twice.\<close>

definition disconnect_txs :: "ParsedBlock \<Rightarrow> BlockUndo \<Rightarrow> utxo_set \<Rightarrow> NodeError + utxo_set" where
  "disconnect_txs pb undo utxos =
    (let same_block_spent = snd (foldl scan_tx ({}, {}) (List.enumerate 0 (zip (pb_txs pb) (pb_txids pb)))) in
     and_then (try_fold (disconnect_tx same_block_spent) ({}, utxos)
       (rev (zip (zip (pb_txs pb) (pb_txids pb)) (bu_txs undo)))) (\<lambda>(_, work_utxos). Inr work_utxos))"

definition disconnected_state :: "ParsedBlock \<Rightarrow> BlockUndo \<Rightarrow> utxo_set \<Rightarrow> ChainState \<Rightarrow> ChainState" where
  "disconnected_state pb undo work_utxos st =
    (let st = st\<lparr>ns_utxos := work_utxos, ns_already_generated := previous_already_generated undo\<rparr> in
     if ns_height st = 0 then st\<lparr>has_tip := False, ns_height := 0, tip_hash := replicate 32 0\<rparr>
     else st\<lparr>ns_height := ns_height st - 1, tip_hash := prev_block_hash (pb_header pb)\<rparr>)"

definition disconnect_summary :: "BlockUndo \<Rightarrow> bytes32 \<Rightarrow> ChainState \<Rightarrow> ChainStateDisconnectSummary" where
  "disconnect_summary undo hash st =
    \<lparr>disconnected_height = bu_block_height undo, ds_block_hash = hash, new_height = ns_height st, new_tip_hash = tip_hash st,
     ds_has_tip = has_tip st, ds_already_generated = ns_already_generated st, ds_utxo_count = of_nat (card (dom (ns_utxos st)))\<rparr>"

definition disconnect_block ::
  "(bytes \<Rightarrow> bytes32) \<Rightarrow> bytes \<Rightarrow> BlockUndo \<Rightarrow> ChainState \<Rightarrow> (NodeError + ChainStateDisconnectSummary) \<times> ChainState" where
  "disconnect_block H block_bytes undo st =
    (let checked =
       (if \<not> has_tip st then Inl NoTip
        else if ns_height st \<noteq> bu_block_height undo then Inl (DisconnectHeightMismatch (ns_height st) (bu_block_height undo))
        else and_then (map_err NodeConsensus (parse_block_bytes H block_bytes)) (\<lambda>pb.
          if length (pb_txs pb) \<noteq> length (pb_txids pb) then Inl TxidLengthMismatch
          else if length (bu_txs undo) \<noteq> length (pb_txs pb) then Inl UndoTxCountMismatch
          else and_then (map_err NodeConsensus (block_hash H (pb_header_bytes pb))) (\<lambda>bh.
          if tip_hash st \<noteq> bh then Inl NotCurrentTip
          else and_then (disconnect_txs pb undo (ns_utxos st)) (\<lambda>work_utxos. Inr (pb, bh, work_utxos))))) in
     case checked of
       Inl e \<Rightarrow> (Inl e, st)
     | Inr (pb, bh, work_utxos) \<Rightarrow>
       let st = disconnected_state pb undo work_utxos st in (Inr (disconnect_summary undo bh st), st))"

section \<open>Disconnecting stored blocks\<close>

record VerifiedStoredBlock =
  lookup_hash :: bytes32
  vs_block_bytes :: bytes
  vs_parsed :: ParsedBlock

record PreparedDisconnect =
  pd_stored :: VerifiedStoredBlock
  pd_tip_height :: u64
  pd_undo :: BlockUndo
  parent_timestamp :: u64

definition disconnect_verified_stored_block ::
  "VerifiedStoredBlock \<Rightarrow> BlockUndo \<Rightarrow> ChainState \<Rightarrow> (NodeError + ChainStateDisconnectSummary) \<times> ChainState" where
  "disconnect_verified_stored_block stored undo st =
    (let pb = vs_parsed stored;
         checked =
       (if \<not> has_tip st then Inl NoTip
        else if ns_height st \<noteq> bu_block_height undo then Inl (DisconnectHeightMismatch (ns_height st) (bu_block_height undo))
        else if length (pb_txs pb) \<noteq> length (pb_txids pb) then Inl TxidLengthMismatch
        else if length (bu_txs undo) \<noteq> length (pb_txs pb) then Inl UndoTxCountMismatch
        else if tip_hash st \<noteq> lookup_hash stored then Inl NotCurrentTip
        else disconnect_txs pb undo (ns_utxos st)) in
     case checked of
       Inl e \<Rightarrow> (Inl e, st)
     | Inr work_utxos \<Rightarrow>
       let st = disconnected_state pb undo work_utxos st in (Inr (disconnect_summary undo (lookup_hash stored) st), st))"

fun preview_disconnect_packet :: "PreparedDisconnect list \<Rightarrow> ChainState \<Rightarrow> (NodeError + unit) \<times> ChainState" where
  "preview_disconnect_packet [] st = (Inr (), st)"
| "preview_disconnect_packet (prepared # packet) st =
    (case disconnect_verified_stored_block (pd_stored prepared) (pd_undo prepared) st of
       (Inl e, st) \<Rightarrow> (Inl e, st)
     | (Inr _, st) \<Rightarrow> preview_disconnect_packet packet st)"

section \<open>The effect of a block on the unspent outputs\<close>

text \<open>
  A block as the outpoints that its transactions spend and create: each spends
  outputs that are there and adds entries for the new ones.
\<close>

fun effects :: "utxo_set \<Rightarrow> (Outpoint list \<times> Outpoint list) list \<Rightarrow> utxo_set \<Rightarrow> bool" where
  "effects u [] u' \<longleftrightarrow> u' = u"
| "effects u ((ins, outs) # ios) u' \<longleftrightarrow> distinct ins \<and> set ins \<subseteq> dom u \<and>
    (\<exists>C. dom C = set outs \<and> effects (u |` (- set ins) ++ C) ios u')"

definition fresh :: "utxo_set \<Rightarrow> (Outpoint list \<times> Outpoint list) list \<Rightarrow> bool" where
  "fresh u ios \<longleftrightarrow> distinct (concat (map snd ios)) \<and> set (concat (map snd ios)) \<inter> dom u = {}"

lemma fresh_Cons:
  assumes "fresh u ((ins, outs) # ios)" and "dom C = set outs"
  shows "fresh (u |` (- set ins) ++ C) ios" and "distinct outs" and "set outs \<inter> dom u = {}"
  using assms by (auto simp: fresh_def)

lemma effects_gone:
  assumes "effects u ios u'" and "op \<notin> dom u" and "op \<notin> set (concat (map snd ios))"
  shows "op \<notin> dom u' \<and> (\<forall>(ins, outs) \<in> set ios. op \<notin> set ins)"
  using assms
proof (induction ios arbitrary: u)
  case (Cons x ios)
  obtain ins outs where x: "x = (ins, outs)" by (rule prod.exhaust)
  obtain C where C: "dom C = set outs" "effects (u |` (- set ins) ++ C) ios u'" "set ins \<subseteq> dom u"
    using Cons.prems(1) x by auto
  have "op \<notin> dom (u |` (- set ins) ++ C)" using Cons.prems(2,3) C(1) x by auto
  from Cons.IH [OF C(2) this] Cons.prems(2,3) C(3) x show ?case by auto
qed simp

lemma effects_spent:
  assumes "effects u ios u'" and "fresh u ios" and "(ins, outs) \<in> set ios" and "op \<in> set ins"
  shows "op \<notin> dom u'"
  using assms
proof (induction ios arbitrary: u)
  case (Cons x ios)
  obtain ins0 outs0 where x: "x = (ins0, outs0)" by (rule prod.exhaust)
  obtain C where C: "dom C = set outs0" "effects (u |` (- set ins0) ++ C) ios u'" "set ins0 \<subseteq> dom u"
    using Cons.prems(1) x by auto
  have f: "fresh (u |` (- set ins0) ++ C) ios" using Cons.prems(2) C(1) x by (auto intro: fresh_Cons)
  show ?case
  proof (cases "(ins, outs) \<in> set ios")
    case True
    then show ?thesis using Cons.IH [OF C(2) f] Cons.prems(4) by blast
  next
    case False
    then have "op \<in> set ins0" using Cons.prems(3,4) x by auto
    then have "op \<in> dom u" using C(3) by blast
    then have "op \<notin> set (concat (map snd (x # ios)))" using Cons.prems(2) by (auto simp: fresh_def)
    then have "op \<notin> dom (u |` (- set ins0) ++ C)" "op \<notin> set (concat (map snd ios))" using \<open>op \<in> set ins0\<close> C(1) x by auto
    from effects_gone [OF C(2) this] show ?thesis by (rule conjunct1)
  qed
qed simp

definition io :: "nat \<times> Tx \<times> bytes32 \<Rightarrow> Outpoint list \<times> Outpoint list" where
  "io = (\<lambda>(i, tx, txid). (spent_outpoints i tx, created_outpoints txid tx))"

section \<open>The record of a block\<close>

definition spent_of :: "utxo_set \<Rightarrow> Outpoint list \<Rightarrow> SpentUndo list" where
  "spent_of u0 ins = map (\<lambda>op. \<lparr>su_outpoint = op, su_entry = the (u0 op)\<rparr>) (filter (\<lambda>op. op \<in> dom u0) ins)"

lemma undo_inputs:
  assumes "distinct ins" and "B \<inter> dom u0 = {}" and "\<forall>op \<in> set ins. op \<in> B \<or> op \<in> dom u0 - S"
  shows "try_fold (undo_input u0) (S, B, spent) ins = Inr (S \<union> (set ins \<inter> dom u0), B - set ins, spent @ spent_of u0 ins)"
  using assms
proof (induction ins arbitrary: S B spent)
  case Nil
  then show ?case by (simp add: spent_of_def)
next
  case (Cons op ins)
  show ?case
  proof (cases "op \<in> B")
    case True
    then have "op \<notin> dom u0" using Cons.prems(2) by blast
    moreover have "undo_input u0 (S, B, spent) op = Inr (S, B - {op}, spent)" using True by (simp add: undo_input_def)
    moreover have "try_fold (undo_input u0) (S, B - {op}, spent) ins =
        Inr (S \<union> (set ins \<inter> dom u0), B - {op} - set ins, spent @ spent_of u0 ins)"
      using Cons.prems by (intro Cons.IH) auto
    ultimately show ?thesis by (simp add: spent_of_def Diff_insert2 [symmetric])
  next
    case False
    then obtain e where e: "u0 op = Some e" "op \<notin> S" using Cons.prems(3) by auto
    let ?sp = "\<lparr>su_outpoint = op, su_entry = e\<rparr>"
    have "undo_input u0 (S, B, spent) op = Inr (insert op S, B, spent @ [?sp])" using False e by (simp add: undo_input_def)
    moreover have "try_fold (undo_input u0) (insert op S, B, spent @ [?sp]) ins =
        Inr (insert op S \<union> (set ins \<inter> dom u0), B - set ins, (spent @ [?sp]) @ spent_of u0 ins)"
      using Cons.prems by (intro Cons.IH) auto
    moreover have "op \<in> dom u0" using e by blast
    ultimately show ?thesis using False e by (simp add: spent_of_def Int_insert_left)
  qed
qed

lemma undo_txs:
  assumes "effects u (map io xs) u'" and "set (concat (map snd (map io xs))) \<inter> dom u0 = {}"
    and "dom u = (dom u0 - S) \<union> B" and "B \<inter> dom u0 = {}"
  shows "\<exists>S' B'. try_fold (undo_tx u0) (S, B, acc) xs = Inr (S', B', acc @ map (\<lambda>x. \<lparr>tu_spent = spent_of u0 (fst (io x))\<rparr>) xs)"
  using assms
proof (induction xs arbitrary: u S B acc)
  case (Cons x xs)
  obtain i tx txid where x: "x = (i, tx, txid)" by (rule prod_cases3)
  let ?ins = "spent_outpoints i tx" and ?outs = "created_outpoints txid tx"
  have io: "io x = (?ins, ?outs)" by (simp add: io_def x)
  obtain C where C: "dom C = set ?outs" "effects (u |` (- set ?ins) ++ C) (map io xs) u'" "distinct ?ins" "set ?ins \<subseteq> dom u"
    using Cons.prems(1) io by auto
  let ?S = "S \<union> (set ?ins \<inter> dom u0)" and ?B = "B - set ?ins \<union> set ?outs"
  have "try_fold (undo_input u0) (S, B, []) ?ins = Inr (?S, B - set ?ins, [] @ spent_of u0 ?ins)"
    using C(3,4) Cons.prems(3,4) by (intro undo_inputs) auto
  then have "undo_tx u0 (S, B, acc) x = Inr (?S, ?B, acc @ [\<lparr>tu_spent = spent_of u0 ?ins\<rparr>])"
    by (simp add: undo_tx_def x)
  moreover have "\<exists>S' B'. try_fold (undo_tx u0) (?S, ?B, acc @ [\<lparr>tu_spent = spent_of u0 ?ins\<rparr>]) xs =
      Inr (S', B', (acc @ [\<lparr>tu_spent = spent_of u0 ?ins\<rparr>]) @ map (\<lambda>x. \<lparr>tu_spent = spent_of u0 (fst (io x))\<rparr>) xs)"
  proof (rule Cons.IH [OF C(2)])
    show "set (concat (map snd (map io xs))) \<inter> dom u0 = {}" "?B \<inter> dom u0 = {}" using Cons.prems(2,4) io by auto
    show "dom (u |` (- set ?ins) ++ C) = dom u0 - ?S \<union> ?B" using Cons.prems(3) C(1) by auto
  qed
  ultimately show ?case using io by simp
qed simp

section \<open>Undoing the effect\<close>

lemma scan_txs:
  assumes "effects u (map io xs) u'" and "set (concat (map snd (map io xs))) \<inter> dom u0 = {}"
    and "dom u \<subseteq> dom u0 \<union> K" and "K \<inter> dom u0 = {}"
  shows "snd (foldl scan_tx (K, T) xs) = T \<union> (\<Union>x\<in>set xs. set (fst (io x)) - dom u0)"
  using assms
proof (induction xs arbitrary: u K T)
  case (Cons x xs)
  obtain i tx txid where x: "x = (i, tx, txid)" by (rule prod_cases3)
  let ?ins = "spent_outpoints i tx" and ?outs = "created_outpoints txid tx"
  have io: "io x = (?ins, ?outs)" by (simp add: io_def x)
  obtain C where C: "dom C = set ?outs" "effects (u |` (- set ?ins) ++ C) (map io xs) u'" "set ?ins \<subseteq> dom u"
    using Cons.prems(1) io by auto
  have "set (filter (\<lambda>op. op \<in> K) ?ins) = set ?ins - dom u0" using C(3) Cons.prems(3,4) by auto
  then have "scan_tx (K, T) x = (K \<union> set ?outs, T \<union> (set ?ins - dom u0))" by (simp add: scan_tx_def x)
  moreover have "snd (foldl scan_tx (K \<union> set ?outs, T \<union> (set ?ins - dom u0)) xs) =
      T \<union> (set ?ins - dom u0) \<union> (\<Union>x\<in>set xs. set (fst (io x)) - dom u0)"
  proof (rule Cons.IH [OF C(2)])
    show "set (concat (map snd (map io xs))) \<inter> dom u0 = {}" "(K \<union> set ?outs) \<inter> dom u0 = {}" using Cons.prems(2,4) io by auto
    show "dom (u |` (- set ?ins) ++ C) \<subseteq> dom u0 \<union> (K \<union> set ?outs)" using Cons.prems(3) C(1) by auto
  qed
  ultimately show ?case using io by auto
qed simp

lemma remove_all:
  assumes "distinct outs" and "\<forall>op \<in> set outs. w op \<noteq> None \<or> op \<in> T"
  shows "try_fold (remove_created T) w outs = Inr (w |` (- set outs))"
  using assms
proof (induction outs arbitrary: w)
  case (Cons op outs)
  have "remove_created T w op = Inr (w(op := None))" using Cons.prems(2) by (auto simp: remove_created_def)
  moreover have "try_fold (remove_created T) (w(op := None)) outs = Inr ((w(op := None)) |` (- set outs))"
    using Cons.prems by (intro Cons.IH) auto
  moreover have "(w(op := None)) |` (- set outs) = w |` (- set (op # outs))" by (auto simp: restrict_map_def)
  ultimately show ?case by simp
qed (simp add: restrict_map_def)

lemma restore_all:
  assumes "distinct ins" and "R \<inter> (set ins \<inter> dom u0) = {}" and "\<forall>op \<in> set ins \<inter> dom u0. w op = None"
  shows "try_fold restore_spent (R, w) (spent_of u0 ins) =
    Inr (R \<union> (set ins \<inter> dom u0), \<lambda>op. if op \<in> set ins \<inter> dom u0 then u0 op else w op)"
  using assms
proof (induction ins arbitrary: R w)
  case Nil
  then show ?case by (simp add: spent_of_def)
next
  case (Cons op ins)
  show ?case
  proof (cases "u0 op")
    case None
    then have "try_fold restore_spent (R, w) (spent_of u0 ins) =
        Inr (R \<union> (set ins \<inter> dom u0), \<lambda>op. if op \<in> set ins \<inter> dom u0 then u0 op else w op)"
      using Cons.prems by (intro Cons.IH) auto
    moreover have "set (op # ins) \<inter> dom u0 = set ins \<inter> dom u0" "spent_of u0 (op # ins) = spent_of u0 ins"
      using None by (auto simp: spent_of_def)
    ultimately show ?thesis by simp
  next
    case (Some e)
    then have d: "op \<in> dom u0" by blast
    let ?w = "w(op \<mapsto> e)"
    have "spent_of u0 (op # ins) = \<lparr>su_outpoint = op, su_entry = e\<rparr> # spent_of u0 ins" using Some d by (simp add: spent_of_def)
    moreover have "restore_spent (R, w) \<lparr>su_outpoint = op, su_entry = e\<rparr> = Inr (insert op R, ?w)"
      using d Cons.prems(2,3) by (auto simp: restore_spent_def)
    moreover have "try_fold restore_spent (insert op R, ?w) (spent_of u0 ins) =
        Inr (insert op R \<union> (set ins \<inter> dom u0), \<lambda>op. if op \<in> set ins \<inter> dom u0 then u0 op else ?w op)"
      using Cons.prems by (intro Cons.IH) auto
    moreover have "(\<lambda>op'. if op' \<in> set ins \<inter> dom u0 then u0 op' else ?w op') =
        (\<lambda>op'. if op' \<in> set (op # ins) \<inter> dom u0 then u0 op' else w op')"
      using Some d by (intro ext) auto
    ultimately show ?thesis using d by (simp add: Int_insert_left)
  qed
qed

text \<open>Undoing one transaction: the outputs that the block spends itself stay away.\<close>

lemma disconnect_one:
  assumes "dom C = set outs" and "distinct outs" and "set outs \<inter> dom u = {}" and "distinct ins" and "set ins \<subseteq> dom u"
    and agree: "\<And>op. op \<in> dom u \<Longrightarrow> op \<in> dom u0 \<Longrightarrow> u op = u0 op"
    and T: "T \<inter> dom u0 = {}" "set ins - dom u0 \<subseteq> T" and R: "R \<inter> (set ins \<inter> dom u0) = {}"
    and outs: "outs = created_outpoints txid tx"
  shows "disconnect_tx T (R, (u |` (- set ins) ++ C) |` (- T)) ((tx, txid), \<lparr>tu_spent = spent_of u0 ins\<rparr>) =
    Inr (R \<union> (set ins \<inter> dom u0), u |` (- T))"
proof -
  let ?u1 = "u |` (- set ins) ++ C"
  have rm: "try_fold (remove_created T) (?u1 |` (- T)) outs = Inr (?u1 |` (- T) |` (- set outs))"
    using assms(1,2) by (intro remove_all) (auto simp: restrict_map_def map_add_def split: option.splits)
  have w: "?u1 |` (- T) |` (- set outs) = u |` (- set ins) |` (- T)"
  proof
    fix op
    show "(?u1 |` (- T) |` (- set outs)) op = (u |` (- set ins) |` (- T)) op"
    proof (cases "op \<in> set outs")
      case True
      then have "u op = None" using assms(3) by blast
      then show ?thesis using True by (simp add: restrict_map_def)
    next
      case False
      then have "C op = None" using assms(1) by blast
      then show ?thesis using False by (simp add: restrict_map_def map_add_def)
    qed
  qed
  have rs: "try_fold restore_spent (R, u |` (- set ins) |` (- T)) (spent_of u0 ins) =
      Inr (R \<union> (set ins \<inter> dom u0), \<lambda>op. if op \<in> set ins \<inter> dom u0 then u0 op else (u |` (- set ins) |` (- T)) op)"
    using assms(4) R by (intro restore_all) (auto simp: restrict_map_def)
  have "(\<lambda>op. if op \<in> set ins \<inter> dom u0 then u0 op else (u |` (- set ins) |` (- T)) op) = u |` (- T)"
  proof
    fix op
    have "op \<in> set ins \<Longrightarrow> op \<in> dom u0 \<Longrightarrow> u op = u0 op" using agree assms(5) by blast
    moreover have "op \<in> set ins \<Longrightarrow> op \<notin> dom u0 \<Longrightarrow> op \<in> T" using T(2) by blast
    moreover have "op \<in> dom u0 \<Longrightarrow> op \<notin> T" using T(1) by blast
    ultimately show "(if op \<in> set ins \<inter> dom u0 then u0 op else (u |` (- set ins) |` (- T)) op) = (u |` (- T)) op"
      by (simp add: restrict_map_def)
  qed
  with rs rm [unfolded w] show ?thesis by (simp del: restrict_restrict add: disconnect_tx_def outs [symmetric])
qed

definition undo_of :: "utxo_set \<Rightarrow> nat \<times> Tx \<times> bytes32 \<Rightarrow> TxUndo" where
  "undo_of u0 x = \<lparr>tu_spent = spent_of u0 (fst (io x))\<rparr>"

lemma disconnect_all:
  assumes "effects u (map io xs) u'" and "fresh u (map io xs)" and "set (concat (map snd (map io xs))) \<inter> dom u0 = {}"
    and agree: "\<And>op. op \<in> dom u \<Longrightarrow> op \<in> dom u0 \<Longrightarrow> u op = u0 op"
    and T: "T \<inter> dom u0 = {}" "\<And>x. x \<in> set xs \<Longrightarrow> set (fst (io x)) - dom u0 \<subseteq> T"
    and R: "\<And>x. x \<in> set xs \<Longrightarrow> R \<inter> (set (fst (io x)) \<inter> dom u0) = {}"
  shows "try_fold (disconnect_tx T) (R, u' |` (- T)) (rev (zip (map snd xs) (map (undo_of u0) xs))) =
    Inr (R \<union> (\<Union>x\<in>set xs. set (fst (io x)) \<inter> dom u0), u |` (- T))"
  using assms
proof (induction xs arbitrary: u)
  case (Cons x xs)
  obtain i tx txid where x: "x = (i, tx, txid)" by (rule prod_cases3)
  let ?ins = "spent_outpoints i tx" and ?outs = "created_outpoints txid tx"
  have io: "io x = (?ins, ?outs)" by (simp add: io_def x)
  obtain C where C: "dom C = set ?outs" "effects (u |` (- set ?ins) ++ C) (map io xs) u'" "distinct ?ins" "set ?ins \<subseteq> dom u"
    using Cons.prems(1) io by auto
  let ?u1 = "u |` (- set ?ins) ++ C" and ?later = "\<Union>x\<in>set xs. set (fst (io x)) \<inter> dom u0"
  have fr: "fresh u ((?ins, ?outs) # map io xs)" using Cons.prems(2) io by simp
  note f = fresh_Cons [OF fr C(1)]
  have outs0: "set ?outs \<inter> dom u0 = {}" "set (concat (map snd (map io xs))) \<inter> dom u0 = {}" using Cons.prems(3) io by auto
  have IH: "try_fold (disconnect_tx T) (R, u' |` (- T)) (rev (zip (map snd xs) (map (undo_of u0) xs))) =
      Inr (R \<union> ?later, ?u1 |` (- T))"
  proof (rule Cons.IH [OF C(2) f(1) outs0(2)])
    show "?u1 op = u0 op" if "op \<in> dom ?u1" "op \<in> dom u0" for op
    proof -
      have "C op = None" using that(2) outs0(1) C(1) by blast
      moreover from this that(1) have \<open>op \<notin> set ?ins\<close> \<open>op \<in> dom u\<close> by (auto simp: restrict_map_def map_add_def split: if_splits)
      ultimately show ?thesis using Cons.prems(4) [OF _ that(2)] by (simp add: restrict_map_def map_add_def)
    qed
  qed (use Cons.prems(5,6,7) in auto)
  have "set ?ins \<inter> dom u0 \<inter> ?later = {}"
  proof -
    have "op \<notin> ?later" if "op \<in> set ?ins" "op \<in> dom u0" for op
    proof -
      have "op \<notin> dom ?u1" "op \<notin> set (concat (map snd (map io xs)))" using that outs0 C(1) by auto
      then show ?thesis using effects_gone [OF C(2)] by (fastforce simp: split_def)
    qed
    then show ?thesis by blast
  qed
  then have "(R \<union> ?later) \<inter> (set ?ins \<inter> dom u0) = {}" using Cons.prems(7) [of x] io by auto
  moreover have "set ?ins - dom u0 \<subseteq> T" using Cons.prems(6) [of x] io by simp
  ultimately have "disconnect_tx T (R \<union> ?later, ?u1 |` (- T)) ((tx, txid), \<lparr>tu_spent = spent_of u0 ?ins\<rparr>) =
      Inr (R \<union> ?later \<union> (set ?ins \<inter> dom u0), u |` (- T))"
    using Cons.prems(4,5) C f(2,3) by (intro disconnect_one) auto
  moreover have "rev (zip (map snd (x # xs)) (map (undo_of u0) (x # xs))) =
      rev (zip (map snd xs) (map (undo_of u0) xs)) @ [((tx, txid), \<lparr>tu_spent = spent_of u0 ?ins\<rparr>)]"
    using io by (simp add: undo_of_def) (simp add: x)
  moreover have "(\<Union>x\<in>set (x # xs). set (fst (io x)) \<inter> dom u0) = ?later \<union> (set ?ins \<inter> dom u0)" using io by auto
  ultimately show ?case using IH by (simp add: try_fold_append Un_assoc del: and_then_Inr)
qed simp

lemma restrict_away: "T \<inter> dom m = {} \<Longrightarrow> m |` (- T) = m"
  by (rule ext) (fastforce simp: restrict_map_def domIff disjoint_iff)

text \<open>A block on fresh outpoints is undone by its record.\<close>

lemma effects_undone:
  assumes "effects u (map io xs) u'" and "fresh u (map io xs)"
    and xs: "xs = List.enumerate 0 (zip (pb_txs pb) (pb_txids pb))" and "bu_txs undo = map (undo_of u) xs"
    and "length (pb_txs pb) = length (pb_txids pb)"
  shows "disconnect_txs pb undo u' = Inr u"
proof -
  let ?T = "\<Union>x\<in>set xs. set (fst (io x)) - dom u"
  have outs: "set (concat (map snd (map io xs))) \<inter> dom u = {}" using assms(2) by (simp add: fresh_def)
  have T: "snd (foldl scan_tx ({}, {}) xs) = ?T" using scan_txs [OF assms(1) outs, of "{}" "{}"] by simp
  have "op \<notin> dom u'" if "op \<in> ?T" for op
    using that effects_spent [OF assms(1,2), of "fst (io x)" "snd (io x)" op for x] by auto
  then have "?T \<inter> dom u' = {}" by blast
  then have "u' |` (- ?T) = u'" by (rule restrict_away)
  moreover have "u |` (- ?T) = u" by (rule restrict_away) blast
  moreover have "try_fold (disconnect_tx ?T) ({}, u' |` (- ?T)) (rev (zip (map snd xs) (map (undo_of u) xs))) =
      Inr ({} \<union> (\<Union>x\<in>set xs. set (fst (io x)) \<inter> dom u), u |` (- ?T))"
    using assms(1,2) outs by (intro disconnect_all) auto
  moreover have "map snd xs = zip (pb_txs pb) (pb_txids pb)" by (simp add: xs)
  ultimately show ?thesis by (simp add: disconnect_txs_def T [unfolded xs] xs assms(4))
qed

section \<open>Connecting has that effect\<close>

lemma created_iff:
  assumes "length (outputs tx) \<le> 2 ^ 32"
  shows "op \<in> set (created_outpoints txid tx) \<longleftrightarrow> op_txid op = txid \<and> unat (op_vout op) < length (outputs tx) \<and>
    \<not> unspendable_type (out_covenant_type (outputs tx ! unat (op_vout op)))"
proof -
  have "unat (of_nat k :: u32) = k" if "k < length (outputs tx)" for k using that assms by (simp add: unat_of_nat)
  then show ?thesis
    by (auto simp: created_outpoints_def in_set_enumerate_eq is_spendable_output_def unspendable_type_def image_iff
        intro!: bexI [of _ "(unat (op_vout op), outputs tx ! unat (op_vout op))"])
qed

lemma created_txid: "op \<in> set (created_outpoints txid tx) \<Longrightarrow> op_txid op = txid"
  by (auto simp: created_outpoints_def)

lemma created_distinct:
  assumes "length (outputs tx) \<le> 2 ^ 32"
  shows "distinct (created_outpoints txid tx)"
proof -
  let ?xs = "filter (\<lambda>(k, out). is_spendable_output (out_covenant_type out)) (List.enumerate 0 (outputs tx))"
  have "inj_on (\<lambda>(k, out). \<lparr>op_txid = txid, op_vout = of_nat k :: u32\<rparr>) (set ?xs)"
  proof (rule inj_onI)
    fix x y assume "x \<in> set ?xs" "y \<in> set ?xs"
      and eq: "(case x of (k, out) \<Rightarrow> \<lparr>op_txid = txid, op_vout = of_nat k :: u32\<rparr>) = (case y of (k, out) \<Rightarrow> \<lparr>op_txid = txid, op_vout = of_nat k\<rparr>)"
    then have b: "fst x < length (outputs tx)" "fst y < length (outputs tx)" "snd x = outputs tx ! fst x" "snd y = outputs tx ! fst y"
      by (auto simp: in_set_enumerate_eq)
    have "(of_nat (fst x) :: u32) = of_nat (fst y)" using eq by (simp add: split_def)
    then have "unat (of_nat (fst x) :: u32) = unat (of_nat (fst y) :: u32)" by simp
    then have "fst x = fst y" using b(1,2) assms by (simp add: unat_of_nat)
    then show "x = y" using b(3,4) by (simp add: prod_eq_iff)
  qed
  then show ?thesis by (simp add: created_outpoints_def distinct_map distinct_enumerate)
qed

lemma coinbase_effect:
  assumes "apply_coinbase_outputs pb u h rotation = Ok u'" and "pb_txs pb = cb # txs" and "pb_txids pb = txid # txids"
  shows "\<exists>C. dom C = set (created_outpoints txid cb) \<and> u' = u ++ C"
proof -
  obtain cmrs where f: "try_fold (apply_coinbase_output (tx_kind cb) txid h (rotation_or_default rotation))
      ([], u) (List.enumerate 0 (outputs cb)) = Ok (cmrs, u')"
    using assms by (auto simp: apply_coinbase_outputs_def coinbase_and_txid_def first_or_def Let_def)
  let ?ops = "\<lambda>k outs. map (\<lambda>(k, out). \<lparr>op_txid = txid, op_vout = of_nat k\<rparr>)
      (filter (\<lambda>(k, out). is_spendable_output (out_covenant_type out)) (List.enumerate k outs))"
  have "\<exists>C. dom C = set (?ops k outs) \<and> u' = u ++ C"
    if "try_fold (apply_coinbase_output (tx_kind cb) txid h rp) (c, u) (List.enumerate k outs) = Ok (cmrs, u')" for c k outs u rp
    using that
  proof (induction outs arbitrary: c u k)
    case (Cons out outs)
    let ?op = "\<lparr>op_txid = txid, op_vout = of_nat k :: u32\<rparr>"
    let ?e = "\<lparr>ue_value = out_value out, ue_covenant_type = out_covenant_type out, ue_covenant_data = out_covenant_data out,
       creation_height = h, created_by_coinbase = True\<rparr>"
    obtain c1 u1 where 1: "apply_coinbase_output (tx_kind cb) txid h rp (c, u) (k, out) = Ok (c1, u1)"
        "try_fold (apply_coinbase_output (tx_kind cb) txid h rp) (c1, u1) (List.enumerate (Suc k) outs) = Ok (cmrs, u')"
      using Cons.prems by auto
    obtain C where C: "dom C = set (?ops (Suc k) outs)" "u' = u1 ++ C" using Cons.IH [OF 1(2)] by blast
    show ?case
    proof (cases "is_spendable_output (out_covenant_type out)")
      case True
      then have "u1 = u(?op \<mapsto> ?e)"
        using 1(1) by (auto simp: apply_coinbase_output_def Let_def is_spendable_output_def split: if_splits)
      then have "u' = u ++ ([?op \<mapsto> ?e] ++ C)" using C(2) by simp
      moreover have "dom ([?op \<mapsto> ?e] ++ C) = set (?ops k (out # outs))" using C(1) True by auto
      ultimately show ?thesis by blast
    next
      case False
      then have "u1 = u"
        using 1(1) by (auto simp: apply_coinbase_output_def Let_def is_spendable_output_def split: if_splits)
      then show ?thesis using C False by auto
    qed
  qed (auto intro: exI [of _ Map.empty])
  from this [OF f] show ?thesis by (simp add: created_outpoints_def)
qed

lemma tx_effect:
  assumes "apply_with_suite_context ssl H tx txid u h ts mtp chain_id rotation registry = Ok (u', sm)"
    and "length (outputs tx) \<le> 2 ^ 32" and "0 < i"
  shows "distinct (spent_outpoints i tx) \<and> set (spent_outpoints i tx) \<subseteq> dom u \<and>
    (\<exists>C. dom C = set (created_outpoints txid tx) \<and> u' = u |` (- set (spent_outpoints i tx)) ++ C)"
proof -
  let ?ctx = "apply_context tx txid u h ts mtp chain_id rotation registry"
  have c: "cx_tx ?ctx = tx" "cx_utxo_set ?ctx = u" "cx_txid ?ctx = txid" by (simp_all add: apply_context_def)
  obtain q' where "apply_impl ssl H ?ctx None = (Ok (u', sm), q')"
    using assms(1) by (metis apply_with_suite_context_def prod.collapse)
  from apply_impl_conserves [OF this] assms(2) obtain entries where
    e: "distinct (map signing_outpoint (inputs tx))" "map (\<lambda>i. u (signing_outpoint i)) (inputs tx) = map Some entries"
      "u' = u |` (- set (map signing_outpoint (inputs tx))) ++ created_from ?ctx 0 (outputs tx)"
    by (auto simp: c)
  have s: "spent_outpoints i tx = map signing_outpoint (inputs tx)"
    using assms(3) by (simp add: spent_outpoints_def signing_outpoint_def)
  have "u (signing_outpoint i) \<noteq> None" if "i \<in> set (inputs tx)" for i
  proof -
    have "u (signing_outpoint i) \<in> set (map (\<lambda>i. u (signing_outpoint i)) (inputs tx))" using that by simp
    then show ?thesis unfolding e(2) by auto
  qed
  moreover have "dom (created_from ?ctx 0 (outputs tx)) = set (created_outpoints txid tx)"
    by (auto simp: created_iff [OF assms(2)] created_from_def c Let_def split: if_splits)
  ultimately show ?thesis unfolding s using e by auto
qed

lemma seq_txs_effect:
  assumes "seq_txs ssl H h ts mtp chain_id rotation registry txs u fees seen = Ok (u', fees')"
    and "list_all (\<lambda>(tx, _). length (outputs tx) \<le> 2 ^ 32) txs" and "0 < i"
  shows "effects u (map io (List.enumerate i txs)) u'"
  using assms
proof (induction txs arbitrary: u fees seen i)
  case (Cons x txs)
  obtain tx txid where x: "x = (tx, txid)" by (rule prod.exhaust)
  obtain seen1 u1 sm fees1 where s: "apply_with_suite_context ssl H tx txid u h ts mtp chain_id rotation registry = Ok (u1, sm)"
      "seq_txs ssl H h ts mtp chain_id rotation registry txs u1 fees1 seen1 = Ok (u', fees')"
    using Cons.prems(1) x by auto
  have "effects u1 (map io (List.enumerate (Suc i) txs)) u'" using Cons.IH [OF s(2)] Cons.prems(2) by simp
  moreover have "length (outputs tx) \<le> 2 ^ 32" using Cons.prems(2) x by simp
  ultimately show ?case using tx_effect [OF s(1) _ Cons.prems(3)] by (auto simp: x io_def)
qed simp

lemma connect_effect:
  assumes "connect_block_basic_in_memory_with_context L ssl H b ctx st = (Inr sm, st')"
  obtains pb where "parse_block_bytes H b = Ok pb" and "wf_parsed_block H pb"
    and "effects (cs_utxos st) (map io (List.enumerate 0 (zip (pb_txs pb) (pb_txids pb)))) (cs_utxos st')"
    and "\<And>prev. cc_expected_prev_hash ctx = Some prev \<Longrightarrow> prev_block_hash (pb_header pb) = prev"
proof -
  obtain p w0 w fees where c: "prepare_connect_block L H b (cs_already_generated st) ctx = Ok p"
      "apply_coinbase_outputs (pc_pb p) (cs_utxos st) (cc_block_height ctx) (cc_rotation ctx) = Ok w0"
      "seq_txs ssl H (cc_block_height ctx) (timestamp (pb_header (pc_pb p))) (pc_block_mtp p) (cc_chain_id ctx)
        (cc_rotation ctx) (cc_registry ctx) (drop 1 (zip (pb_txs (pc_pb p)) (pb_txids (pc_pb p)))) w0 0 {} = Ok (w, fees)"
      "finalize_connected_block H p w fees 0 st = (Inr sm, st')" and wf: "wf_parsed_block H (pc_pb p)"
    using assms by (rule connect_Ok)
  let ?pb = "pc_pb p"
  have parse: "parse_block_bytes H b = Ok ?pb"
    and pre: "\<exists>stats. validate_parsed_block_preflight L H ?pb (cc_expected_prev_hash ctx) (cc_expected_target ctx)
      (cc_block_height ctx) (cc_prev_timestamps ctx) = Ok stats"
    using c(1) by (auto simp: prepare_connect_block_def validate_connect_preflight_def split: if_splits)
  obtain cb txs txid txids where l: "pb_txs ?pb = cb # txs" "pb_txids ?pb = txid # txids" "length txs = length txids"
    using wf by (cases "pb_txs ?pb") (auto simp: wf_parsed_block_def)
  obtain C where C: "dom C = set (created_outpoints txid cb)" "w0 = cs_utxos st ++ C"
    using coinbase_effect [OF c(2) l(1,2)] by blast
  have "length (outputs tx) \<le> 2 ^ 32" if "tx \<in> set (pb_txs ?pb)" for tx
    using that wf by (auto simp: wf_parsed_block_def list_all_iff wf_tx_def wf_core_def)
  then have "list_all (\<lambda>(tx, _). length (outputs tx) \<le> 2 ^ 32) (zip txs txids)"
    by (auto simp: list_all_iff l dest: set_zip_leftD)
  then have "effects w0 (map io (List.enumerate (Suc 0) (zip txs txids))) w"
    using c(3) by (intro seq_txs_effect) (simp_all add: l)
  moreover have "cs_utxos st' = w"
    using c(4) by (auto simp: finalize_connected_block_def Let_def split: sum.splits if_splits)
  moreover have "cs_utxos st |` (- set []) = cs_utxos st" by (rule restrict_away) simp
  ultimately have "effects (cs_utxos st) (map io (List.enumerate 0 (zip (pb_txs ?pb) (pb_txids ?pb)))) (cs_utxos st')"
    using C by (auto simp: l io_def spent_outpoints_def)
  moreover have "prev_block_hash (pb_header ?pb) = prev" if "cc_expected_prev_hash ctx = Some prev" for prev
    using pre that by (auto simp: validate_parsed_block_preflight_def validate_header_commitments_def split: if_splits)
  ultimately show thesis using that [OF parse wf] by blast
qed

section \<open>Disconnecting undoes connecting\<close>

text \<open>
  The transaction ids of the block are new: no two of its transactions share one, and
  none is the id of an unspent output. Transaction ids are hashes of transactions that
  spend different outputs or carry the height, so this fails only when the hash collides.
\<close>

definition fresh_block :: "(bytes \<Rightarrow> bytes32) \<Rightarrow> utxo_set \<Rightarrow> bytes \<Rightarrow> bool" where
  "fresh_block H utxos b \<longleftrightarrow> (case parse_block_bytes H b of
     Inl _ \<Rightarrow> False
   | Inr pb \<Rightarrow> distinct (pb_txids pb) \<and> (\<forall>op \<in> dom utxos. op_txid op \<notin> set (pb_txids pb)))"

text \<open>A chain state without a tip is at height zero.\<close>

definition tip_ok :: "ChainState \<Rightarrow> bool" where
  "tip_ok st \<longleftrightarrow> has_tip st \<or> ns_height st = 0 \<and> tip_hash st = replicate 32 0"

lemma block_fresh:
  assumes "distinct txids" and "\<forall>op \<in> dom u. op_txid op \<notin> set txids" and "\<forall>tx \<in> set txs. length (outputs tx) \<le> 2 ^ 32"
    and "length txs = length txids"
  shows "fresh u (map io (List.enumerate k (zip txs txids)))"
proof -
  have sub: "op_txid op \<in> set txids" if "op \<in> set (concat (map snd (map io (List.enumerate k (zip txs txids)))))" for op k txs txids
    using that created_txid by (fastforce simp: io_def in_set_enumerate_eq set_zip)
  have "distinct (concat (map snd (map io (List.enumerate k (zip txs txids)))))"
    using assms(4,1,3)
  proof (induction txs txids arbitrary: k rule: list_induct2)
    case (Cons tx txs txid txids)
    have "set (created_outpoints txid tx) \<inter> set (concat (map snd (map io (List.enumerate (Suc k) (zip txs txids))))) = {}"
      using Cons.prems(1) sub created_txid by fastforce
    then show ?case using Cons created_distinct [of tx] by (simp add: io_def)
  qed simp
  then show ?thesis using sub assms(2) by (fastforce simp: fresh_def)
qed

lemma connected_undo:
  assumes "connect_block_with_suite_context L ssl H b tgt ts chain_id rotation registry st = (Inr sm, st')"
    and "tip_ok st" and "fresh_block H (ns_utxos st) b"
  obtains pb undo where "parse_block_bytes H b = Ok pb" and "build_block_undo H st b (ns_height st') = Inr undo"
    and "length (pb_txids pb) = length (pb_txs pb)" and "length (bu_txs undo) = length (pb_txs pb)"
    and "disconnect_txs pb undo (ns_utxos st') = Inr (ns_utxos st)" and "disconnected_state pb undo (ns_utxos st) st' = st"
    and "has_tip st'" and "bu_block_height undo = ns_height st'" and "block_hash H (pb_header_bytes pb) = Ok (tip_hash st')"
    and "sc_block_height sm = ns_height st'"
proof -
  obtain h prev bsm work_state hash where c: "next_block_context st = Inr (h, prev)"
      "connect_block_basic_in_memory_with_context L ssl H b (connect_context prev tgt h ts chain_id rotation registry)
        \<lparr>cs_utxos = ns_utxos st, cs_already_generated = ns_already_generated st\<rparr> = (Inr bsm, work_state)"
      "and_then (parse_block_bytes H b) (\<lambda>parsed. block_hash H (pb_header_bytes parsed)) = Inr hash"
      "apply_connected_block st h hash work_state bsm = (Inr sm, st')"
    using assms(1) by (auto simp: connect_block_with_suite_context_def connect_block_basic_in_memory_at_height_with_suite_context_def
        split: sum.splits prod.splits)
  from c(2) obtain pb where pb: "parse_block_bytes H b = Ok pb" "wf_parsed_block H pb"
      "effects (ns_utxos st) (map io (List.enumerate 0 (zip (pb_txs pb) (pb_txids pb)))) (cs_utxos work_state)"
      "\<And>p. prev = Some p \<Longrightarrow> prev_block_hash (pb_header pb) = p"
    by (rule connect_effect) (simp add: connect_context_def)
  let ?xs = "List.enumerate 0 (zip (pb_txs pb) (pb_txids pb))"
  have len: "length (pb_txs pb) = length (pb_txids pb)" using pb(2) by (simp add: wf_parsed_block_def)
  have st': "st' = \<lparr>has_tip = True, ns_height = h, tip_hash = hash, ns_already_generated = cs_already_generated work_state,
      ns_utxos = cs_utxos work_state\<rparr>" "sc_block_height sm = h"
    using c(4) by (auto simp: apply_connected_block_def)
  have fr: "fresh (ns_utxos st) (map io ?xs)"
    using assms(3) pb(1,2) by (intro block_fresh) (auto simp: fresh_block_def wf_parsed_block_def list_all_iff wf_tx_def wf_core_def)
  then have outs: "set (concat (map snd (map io ?xs))) \<inter> dom (ns_utxos st) = {}" by (simp add: fresh_def)
  let ?undo = "\<lparr>bu_block_height = h, previous_already_generated = ns_already_generated st, bu_txs = map (undo_of (ns_utxos st)) ?xs\<rparr>"
  have "build_block_undo H st b h = Inr ?undo"
    using undo_txs [OF pb(3) outs, of "{}" "{}" "[]"] pb(1) len
    by (auto simp: build_block_undo_def undo_of_def simp del: and_then_Inr)
  moreover have "disconnect_txs pb ?undo (cs_utxos work_state) = Inr (ns_utxos st)"
    using pb(3) fr len by (intro effects_undone) simp_all
  moreover have "disconnected_state pb ?undo (ns_utxos st) st' = st"
    using c(1) pb(4) assms(2)
    by (cases st) (auto simp: st' disconnected_state_def next_block_context_def tip_ok_def Let_def eq_neg_iff_add_eq_0
        split: if_splits)
  moreover have "block_hash H (pb_header_bytes pb) = Ok hash" using c(3) pb(1) by simp
  ultimately show thesis using that [of pb ?undo] pb(1) len by (simp add: st')
qed

lemma disconnect_connected:
  assumes "connect_block_with_suite_context L ssl H b tgt ts chain_id rotation registry st = (Inr sm, st')"
    and "tip_ok st" and "fresh_block H (ns_utxos st) b"
  shows "\<exists>undo. build_block_undo H st b (sc_block_height sm) = Inr undo \<and>
    disconnect_block H b undo st' = (Inr (disconnect_summary undo (tip_hash st') st), st)"
proof -
  from assms obtain pb undo where u: "parse_block_bytes H b = Ok pb" "build_block_undo H st b (ns_height st') = Inr undo"
      "length (pb_txids pb) = length (pb_txs pb)" "length (bu_txs undo) = length (pb_txs pb)"
      "disconnect_txs pb undo (ns_utxos st') = Inr (ns_utxos st)" "disconnected_state pb undo (ns_utxos st) st' = st"
      "has_tip st'" "bu_block_height undo = ns_height st'" "block_hash H (pb_header_bytes pb) = Ok (tip_hash st')"
      "sc_block_height sm = ns_height st'"
    by (rule connected_undo)
  then have "disconnect_block H b undo st' = (Inr (disconnect_summary undo (tip_hash st') st), st)"
    by (simp add: disconnect_block_def Let_def del: and_then_Inr)
  then show ?thesis using u(2,10) by auto
qed

text \<open>
  C3: disconnecting a block undoes connecting it. When the chain state of the node
  accepts a block whose transaction ids are new, an undo record can be built from the
  state before the block, and disconnecting the block with that record from the state
  after it succeeds and gives back the state before it in full: the unspent outputs,
  the generated amount, the height and the tip, also when transactions of the block
  spend each other and when the block was the first of the chain.
\<close>

theorem disconnect_inverts_connect:
  assumes "connect_block_with_suite_context L ssl H b tgt ts chain_id rotation registry st = (Inr sm, st')"
    and "tip_ok st" and "fresh_block H (ns_utxos st) b"
  shows "\<exists>undo. build_block_undo H st b (sc_block_height sm) = Inr undo \<and>
    disconnect_block H b undo st' = (Inr (disconnect_summary undo (tip_hash st') st), st)"
  using assms by (rule disconnect_connected)

definition demo_node :: ChainState where
  "demo_node = \<lparr>has_tip = True, ns_height = 6, tip_hash = replicate 32 3, ns_already_generated = 40, ns_utxos = cs_utxos demo_chain_state\<rparr>"

definition demo_node_after :: ChainState where
  "demo_node_after = \<lparr>has_tip = True, ns_height = 7, tip_hash = replicate 32 0, ns_already_generated = 4673004190,
    ns_utxos = (cs_utxos demo_chain_state)(fst demo_paid \<mapsto> snd demo_paid)\<rparr>"

lemma demo_node_connects:
  "\<exists>sm. connect_block_with_suite_context be_lib ssl zero_hash (block_encoding demo_block) (Some (replicate 32 1))
     (Some [8, 1, 2, 3, 4, 5, 6]) (replicate 32 0) None None demo_node = (Inr sm, demo_node_after) \<and> sc_block_height sm = 7"
proof -
  obtain bsm where c: "connect_block_basic_in_memory_with_context be_lib ssl zero_hash (block_encoding demo_block) demo_cc
      \<lparr>cs_utxos = cs_utxos demo_chain_state, cs_already_generated = 40\<rparr> =
      (Inr bsm, \<lparr>cs_utxos = (cs_utxos demo_chain_state)(fst demo_paid \<mapsto> snd demo_paid), cs_already_generated = 4673004190\<rparr>)"
    using demo_connects [of ssl] by (auto simp: demo_chain_state_def)
  have h: "next_block_context demo_node = Inr (7, Some (replicate 32 3))" by (simp add: next_block_context_def demo_node_def)
  have g: "validate_genesis_identity zero_hash 7 (replicate 32 0) b = Inr ()" for b
    by (simp add: validate_genesis_identity_def validate_incoming_chain_id_def)
  have "block_hash zero_hash (pb_header_bytes demo_block) = Ok (replicate 32 0)"
    by (simp add: block_hash_def zero_hash_def demo_block_def Let_def header_bytes_of_def BLOCK_HEADER_BYTES_def)
  moreover have "ns_utxos demo_node = cs_utxos demo_chain_state" "ns_already_generated demo_node = 40" by (simp_all add: demo_node_def)
  ultimately show ?thesis using c
    by (simp add: connect_block_with_suite_context_def h g connect_block_basic_in_memory_at_height_with_suite_context_def
        demo_cc_def [symmetric] demo_block_parses del: and_then_Inr) (simp add: apply_connected_block_def demo_node_def demo_node_after_def)
qed

lemma demo_node_fresh: "tip_ok demo_node" "fresh_block zero_hash (ns_utxos demo_node) (block_encoding demo_block)"
proof -
  have "pb_txids demo_block = [replicate 32 0]" by (simp add: demo_block_def Let_def)
  then show "fresh_block zero_hash (ns_utxos demo_node) (block_encoding demo_block)"
    by (simp add: fresh_block_def demo_block_parses demo_node_def demo_chain_state_def)
qed (simp add: tip_ok_def demo_node_def)

theorem disconnect_inverts_connect_witness:
  "demo_node_after \<noteq> demo_node \<and> (\<exists>undo. build_block_undo zero_hash demo_node (block_encoding demo_block) 7 = Inr undo \<and>
    (\<exists>sm. disconnect_block zero_hash (block_encoding demo_block) undo demo_node_after = (Inr sm, demo_node)))"
proof -
  obtain sm where sm: "connect_block_with_suite_context be_lib demo_ssl zero_hash (block_encoding demo_block) (Some (replicate 32 1))
     (Some [8, 1, 2, 3, 4, 5, 6]) (replicate 32 0) None None demo_node = (Inr sm, demo_node_after)" "sc_block_height sm = 7"
    using demo_node_connects by blast
  have "demo_node_after \<noteq> demo_node" by (simp add: demo_node_def demo_node_after_def)
  then show ?thesis using disconnect_inverts_connect [OF sm(1) demo_node_fresh] sm(2) by auto
qed

section \<open>Going back to an ancestor\<close>

text \<open>Steps with a record each, and a loop that undoes them from the last to the first.\<close>

fun steps :: "('s \<Rightarrow> 'r \<Rightarrow> 's \<Rightarrow> bool) \<Rightarrow> 's \<Rightarrow> 'r list \<Rightarrow> 's \<Rightarrow> bool" where
  "steps step s [] s' \<longleftrightarrow> s' = s"
| "steps step s (r # rs) s' \<longleftrightarrow> (\<exists>t. step s r t \<and> steps step t rs s')"

locale reversible =
  fixes step :: "'s \<Rightarrow> 'r \<Rightarrow> 's \<Rightarrow> bool" and revert :: "'r \<Rightarrow> 's \<Rightarrow> ('e + 'x) \<times> 's"
    and revert_all :: "'r list \<Rightarrow> 's \<Rightarrow> ('e + unit) \<times> 's"
  assumes inverse: "step s r s' \<Longrightarrow> \<exists>x. revert r s' = (Inr x, s)"
    and revert_nil: "revert_all [] s = (Inr (), s)"
    and revert_cons: "revert r s = (Inr x, t) \<Longrightarrow> revert_all (r # rs) s = revert_all rs t"
begin

lemma revert_append: "revert_all rs s = (Inr (), t) \<Longrightarrow> steps step u (rev rs) s \<Longrightarrow> t = u \<and> revert_all (rs @ rs') s = revert_all rs' u"
proof (induction rs arbitrary: s)
  case Nil
  then show ?case by (simp add: revert_nil)
next
  case (Cons r rs)
  have split: "steps step u (xs @ [r]) s \<longleftrightarrow> (\<exists>m. steps step u xs m \<and> step m r s)" for u xs s
    by (induction xs arbitrary: u) auto
  obtain m where m: "steps step u (rev rs) m" "step m r s" using Cons.prems(2) split by auto
  obtain x where "revert r s = (Inr x, m)" using inverse [OF m(2)] by blast
  then have "revert_all (r # ys) s = revert_all ys m" for ys by (rule revert_cons)
  then show ?case using Cons.IH [OF _ m(1)] Cons.prems(1) by simp
qed

lemma rewind: "steps step s rs s' \<Longrightarrow> revert_all (rev rs) s' = (Inr (), s)"
proof (induction rs arbitrary: s)
  case Nil
  then show ?case by (simp add: revert_nil)
next
  case (Cons r rs)
  then obtain t where t: "step s r t" "steps step t rs s'" by auto
  obtain x where "revert r t = (Inr x, s)" using inverse [OF t(1)] by blast
  then have "revert_all [r] t = (Inr (), s)" by (simp add: revert_cons revert_nil)
  then show ?case using revert_append [of "rev rs" s' t t "[r]"] Cons.IH [OF t(2)] t(2) by simp
qed

end

text \<open>The packet entry of a block that was connected on top of a state: its bytes as loaded, and the record built for it.\<close>

definition connected_by :: "BigUintLib \<Rightarrow> OpenSSL \<Rightarrow> (bytes \<Rightarrow> bytes32) \<Rightarrow> ChainState \<Rightarrow> PreparedDisconnect \<Rightarrow> ChainState \<Rightarrow> bool" where
  "connected_by L ssl H st p st' \<longleftrightarrow> (let b = vs_block_bytes (pd_stored p) in
    (\<exists>tgt ts chain_id rotation registry sm.
      connect_block_with_suite_context L ssl H b tgt ts chain_id rotation registry st = (Inr sm, st')) \<and>
    parse_block_bytes H b = Ok (vs_parsed (pd_stored p)) \<and> lookup_hash (pd_stored p) = tip_hash st' \<and>
    build_block_undo H st b (ns_height st') = Inr (pd_undo p))"

lemma connected_by_undone:
  assumes "connected_by L ssl H st p st'" and "tip_ok st" and "fresh_block H (ns_utxos st) (vs_block_bytes (pd_stored p))"
  shows "\<exists>x. disconnect_verified_stored_block (pd_stored p) (pd_undo p) st' = (Inr x, st)" and "tip_ok st'"
proof -
  obtain tgt ts chain_id rotation registry sm where
    c: "connect_block_with_suite_context L ssl H (vs_block_bytes (pd_stored p)) tgt ts chain_id rotation registry st = (Inr sm, st')"
    and l: "parse_block_bytes H (vs_block_bytes (pd_stored p)) = Ok (vs_parsed (pd_stored p))"
      "lookup_hash (pd_stored p) = tip_hash st'" "build_block_undo H st (vs_block_bytes (pd_stored p)) (ns_height st') = Inr (pd_undo p)"
    using assms(1) unfolding connected_by_def Let_def by blast
  from c assms(2,3) obtain pb undo where u: "parse_block_bytes H (vs_block_bytes (pd_stored p)) = Ok pb"
      "build_block_undo H st (vs_block_bytes (pd_stored p)) (ns_height st') = Inr undo"
      "length (pb_txids pb) = length (pb_txs pb)" "length (bu_txs undo) = length (pb_txs pb)"
      "disconnect_txs pb undo (ns_utxos st') = Inr (ns_utxos st)" "disconnected_state pb undo (ns_utxos st) st' = st"
      "has_tip st'" "bu_block_height undo = ns_height st'"
    by (rule connected_undo)
  then show "\<exists>x. disconnect_verified_stored_block (pd_stored p) (pd_undo p) st' = (Inr x, st)"
    using l by (simp add: disconnect_verified_stored_block_def Let_def)
  show "tip_ok st'" using u(7) by (simp add: tip_ok_def)
qed

text \<open>The block of a packet entry has transaction ids that are new in the state it is connected to.\<close>

abbreviation connected_fresh :: "BigUintLib \<Rightarrow> OpenSSL \<Rightarrow> (bytes \<Rightarrow> bytes32) \<Rightarrow> ChainState \<Rightarrow> PreparedDisconnect \<Rightarrow> ChainState \<Rightarrow> bool" where
  "connected_fresh L ssl H st p st' \<equiv> connected_by L ssl H st p st' \<and> fresh_block H (ns_utxos st) (vs_block_bytes (pd_stored p))"

interpretation stored: reversible "\<lambda>st p st'. tip_ok st \<and> connected_fresh L ssl H st p st'"
    "\<lambda>p. disconnect_verified_stored_block (pd_stored p) (pd_undo p)" preview_disconnect_packet
  for L ssl H
  by unfold_locales (use connected_by_undone(1) in blast, simp_all)

lemma steps_tip_ok:
  "tip_ok st \<Longrightarrow> steps (connected_fresh L ssl H) st packet st' \<Longrightarrow>
    steps (\<lambda>st p st'. tip_ok st \<and> connected_fresh L ssl H st p st') st packet st'"
proof (induction packet arbitrary: st)
  case (Cons p packet)
  then obtain t where "connected_fresh L ssl H st p t" "steps (connected_fresh L ssl H) t packet st'" by auto
  then show ?case using Cons connected_by_undone(2) [of L ssl H st p t] by auto
qed simp

text \<open>
  C8: going back to a common ancestor restores its state. Take any chain of blocks connected
  from a state on, in which the transaction ids of every block are new in the state it is
  connected to: none repeats in the block and none belongs to an unspent output. The first
  state has a tip or is at height zero with the zero hash. Then disconnecting the stored
  blocks from the tip downwards with the undo records built for them succeeds at every
  block and ends in exactly the state they were connected from.
\<close>

theorem rewind_restores_ancestor:
  assumes "tip_ok st"
    and "steps (\<lambda>s p s'. connected_by L ssl H s p s' \<and> fresh_block H (ns_utxos s) (vs_block_bytes (pd_stored p))) st packet st'"
  shows "preview_disconnect_packet (rev packet) st' = (Inr (), st)"
  by (rule stored.rewind [OF steps_tip_ok [OF assms]])

theorem rewind_restores_ancestor_witness:
  "\<exists>p. vs_block_bytes (pd_stored p) = block_encoding demo_block \<and> preview_disconnect_packet (rev [p]) demo_node_after = (Inr (), demo_node)"
proof -
  obtain sm undo where sm: "connect_block_with_suite_context be_lib demo_ssl zero_hash (block_encoding demo_block) (Some (replicate 32 1))
     (Some [8, 1, 2, 3, 4, 5, 6]) (replicate 32 0) None None demo_node = (Inr sm, demo_node_after)"
      "build_block_undo zero_hash demo_node (block_encoding demo_block) 7 = Inr undo"
    using demo_node_connects [of demo_ssl] disconnect_connected [OF _ demo_node_fresh] by metis
  let ?p = "\<lparr>pd_stored = \<lparr>lookup_hash = replicate 32 0, vs_block_bytes = block_encoding demo_block, vs_parsed = demo_block\<rparr>,
    pd_tip_height = 7, pd_undo = undo, parent_timestamp = 0\<rparr>"
  have "connected_by be_lib demo_ssl zero_hash demo_node ?p demo_node_after"
    unfolding connected_by_def Let_def using sm demo_block_parses
    by (intro conjI exI) (simp_all, simp_all add: demo_node_after_def)
  then have "steps (connected_fresh be_lib demo_ssl zero_hash) demo_node [?p] demo_node_after"
    using demo_node_fresh(2) by simp
  from rewind_restores_ancestor [OF demo_node_fresh(1) this] show ?thesis by (intro exI [of _ ?p]) simp
qed

end
