(* ===== verification/Spec2Isabelle.thy ===== *)
theory Spec2Isabelle
  imports Tx_Codec Merkle Pow Subsidy Deployments Suite_Registry Covenants Sighash Verify_Sig
    Worker_Pool Sig_Queue Spend Utxo Weight Da_Set Block_Basic Connect Chain_State
    Connect_Live Dep_Graph Undo
begin

text \<open>
  Verification of the Rust client of the RUBIN protocol: the consensus crate
  \<^verbatim>\<open>clients/rust/crates/rubin-consensus\<close>, and the chain state of the node with its undo
  records from \<^verbatim>\<open>clients/rust/crates/rubin-node\<close>.

  \<^bold>\<open>The program.\<close> A block arrives as bytes. It is parsed into a header and transactions;
  the header, the coinbase, the resource limits and the data-availability sets are
  checked; then the coinbase outputs and, one by one, the transactions are applied to
  the map of unspent outputs. Applying a transaction resolves its inputs, checks that
  the witness authorises each spend under the covenant of the output, and checks the
  balance of values. Signatures are checked on the way, or queued and checked at the end
  on a pool of worker threads. The node keeps the resulting map with the height and
  the tip, builds an undo record for each block, and uses it to disconnect the block
  when another branch wins.

  \<^bold>\<open>Correspondence.\<close> Sources are relative to \<^verbatim>\<open>rubin-consensus/src\<close> unless they start with
  \<^verbatim>\<open>rubin-node\<close>. Definitions have the names of the functions and types they translate;
  record fields carry a short prefix where two types share a field name, a method that
  would clash gets its type or component as a prefix (\<open>SigCache_insert\<close>, \<open>queue_flush\<close>), and
  the body of a loop that fails or carries a state is a definition of its own.

  \<^item> \<open>Prelude\<close>, \<open>Base\<close>, \<open>State_Result\<close>, \<open>BTree_Map\<close>: the shared vocabulary. Words of the
    widths of the source, \<open>Result\<close> as a sum with \<open>and_then\<close> for the question mark, loops with
    early exit as \<open>try_fold\<close>, methods on a mutable reference as functions that return
    the state beside the result, ordered maps as sorted association lists behind the
    locale of their interface; \<^verbatim>\<open>constants.rs\<close> and \<^verbatim>\<open>error.rs\<close>.
  \<^item> \<open>Wire\<close> (\<^verbatim>\<open>wire_read.rs\<close>, \<^verbatim>\<open>compactsize.rs\<close>), \<open>Tx_Codec\<close> (\<^verbatim>\<open>tx.rs\<close>, \<^verbatim>\<open>tx_helpers.rs\<close>): the reader, the
    transaction parser and the serialiser.
  \<^item> \<open>Merkle\<close> (\<^verbatim>\<open>merkle.rs\<close>), \<open>Pow\<close> (\<^verbatim>\<open>block.rs\<close>, \<^verbatim>\<open>pow.rs\<close>, \<^verbatim>\<open>fork_choice.rs\<close>), \<open>Subsidy\<close> (\<^verbatim>\<open>subsidy.rs\<close>),
    \<open>Deployments\<close> (\<^verbatim>\<open>featurebits.rs\<close>, \<^verbatim>\<open>flagday.rs\<close>), \<open>Suite_Registry\<close> (\<^verbatim>\<open>suite_registry.rs\<close>).
  \<^item> \<open>Covenants\<close> (\<^verbatim>\<open>vault.rs\<close>, \<^verbatim>\<open>htlc.rs\<close>, \<^verbatim>\<open>stealth.rs\<close>, \<^verbatim>\<open>simplicity_covenant.rs\<close>, \<^verbatim>\<open>covenant_genesis.rs\<close>):
    the parsers of covenant data and the rules for creating outputs.
  \<^item> \<open>Sighash\<close> (\<^verbatim>\<open>sighash.rs\<close>), \<open>Verify_Sig\<close> (\<^verbatim>\<open>live_binding_policy.rs\<close>, \<^verbatim>\<open>verify_sig_openssl.rs\<close> and its
    modules): the digest an input signs, with its cache, and the way from a suite to
    the OpenSSL calls.
  \<^item> \<open>Worker_Pool\<close> (\<^verbatim>\<open>worker_pool.rs\<close>), \<open>Sig_Queue\<close> (\<^verbatim>\<open>sig_cache.rs\<close>, \<^verbatim>\<open>sig_queue.rs\<close>), \<open>Deferral\<close>: threads that
    take tasks from a shared queue, the positive cache and the queue of signature checks,
    and what it means that an operation may defer its checks.
  \<^item> \<open>Spend\<close> (\<^verbatim>\<open>spend_verify.rs\<close>, the spend rules of \<^verbatim>\<open>htlc.rs\<close> and \<^verbatim>\<open>stealth.rs\<close>, signing in
    \<^verbatim>\<open>tx_helpers.rs\<close>), \<open>Utxo\<close> (\<^verbatim>\<open>utxo_basic.rs\<close>), \<open>Queue_Room\<close>: the authorisation of a spend, the
    state machine that applies a transaction, and how much of the queue it needs.
  \<^item> \<open>Weight\<close> (\<^verbatim>\<open>block_basic/weight.rs\<close>), \<open>Da_Set\<close> (\<^verbatim>\<open>block_basic/da_set.rs\<close>), \<open>Block_Basic\<close>
    (\<^verbatim>\<open>block_basic.rs\<close> and its modules): a block before it touches the state.
  \<^item> \<open>Connect\<close>, \<open>Chain_State\<close>, \<open>Connect_Live\<close> (\<^verbatim>\<open>connect_block_inmem.rs\<close>, \<^verbatim>\<open>block_basic/orchestration.rs\<close>): both
    ways to connect a block, the states a chain leads to, and that the parallel way
    never refuses for lack of room.
  \<^item> \<open>Dep_Graph\<close> (\<^verbatim>\<open>tx_dep_graph.rs\<close>): the graph that schedules the transactions of a block.
  \<^item> \<open>Node_State\<close> (\<^verbatim>\<open>rubin-node/src/chainstate.rs\<close>, \<^verbatim>\<open>genesis.rs\<close>), \<open>Undo\<close> (\<^verbatim>\<open>rubin-node/src/undo.rs\<close>, parts of
    \<^verbatim>\<open>sync_disconnect.rs\<close> and \<^verbatim>\<open>sync_reorg.rs\<close>): the state of the node, the genesis guard, undo
    records, and going back to an ancestor.

  \<^bold>\<open>What is shown.\<close> The codecs are exact: the parsers of CompactSize integers, transactions,
  headers, vaults and blocks accept the encodings of well-formed values and nothing
  else. Identifiers, Merkle roots, signature digests and the digest of the state
  commit to what they stand for, up to a collision of the hash on the strings at hand.
  Arithmetic on targets, work, subsidies, weights and values is that of the unbounded
  integers within the stated bounds. Each covenant opens exactly under its rule, an
  accepted transaction is authorised and conserves value, and a block is accepted exactly
  when it obeys a list of rules that has no order. Deferring and parallelising signature
  checks terminates for every interleaving, changes neither what is accepted nor the new
  state, and refuses nothing for lack of room. Along any chain the value of the unspent
  outputs is bounded by what was generated and every unspent output stays well typed.
  Disconnecting blocks whose transaction ids are new gives back the state before them in full.
  The scheduling graph of transactions with different ids has the edges that it documents,
  and its levels and order follow its edges for all transactions; the transactions of an accepted
  block other than the coinbase have different ids, since their nonces differ, unless the hash collides. The flag-day check
  finds every overlap of reservations that start below the largest height.

  \<^bold>\<open>Parameters.\<close> SHA3-256 is a function \<open>H\<close> on byte strings; a theorem that needs its output
  length or the absence of a collision says so. OpenSSL is the record \<open>OpenSSL\<close> of the
  calls that \<^verbatim>\<open>verify_sig_openssl.rs\<close> makes, and the byte conversions of the big integer
  library are the record \<open>BigUintLib\<close> with the contract \<open>biguint_spec\<close>, which \<open>be_lib\<close> meets.
  A signer is the record \<open>DigestSigner\<close>. Panics and aborted threads are results:
  \<open>None\<close> or \<open>Panicked\<close>.

  \<^bold>\<open>Bounds and termination.\<close> There is no fuel: loops are recursive functions with a
  termination proof. An interleaving of threads is a list saying who moves next; when
  the list ends the remaining work is done in order, and the pool terminates for every
  such list, so nothing depends on its length. The type \<open>usize\<close> is a natural number, and where the
  code computes with it in a way that could exceed 64 bits the check is written out.
  Disconnecting assumes that the transaction ids of a block are new, which the code
  relies on as well: a second output with an existing outpoint would replace the first.

  \<^bold>\<open>Not modelled.\<close> In the consensus crate: key generation (calls into OpenSSL only),
  the Simplicity runtime (an external library; consensus refuses every such spend, which is
  modelled), the short ids of compact relay, the serde adapter of 128-bit integers, the
  parallel form of the data-availability checks, the contexts of \<^verbatim>\<open>precompute.rs\<close> with their
  workers and snapshots, which no production code calls, the cancellation token as an
  argument of a task body, which every body ignores, and wrappers that only fix an
  argument. In the node: everything that reads or writes files (the block store, the JSON
  of states and undo records, recovery), the engine that interleaves these with connect
  and disconnect, the transaction pool, mining, the network, the RPC server and the
  command line, whose behaviour is mostly that of the operating system, the clock, sockets
  and serde. The Go client, the Lean model, the conformance vectors and the scripts are
  other programs.
\<close>

section \<open>Transaction ids of a block\<close>

text \<open>
  The rules of a block give its transactions other than the coinbase different nonces,
  and an id is the hash of a core that contains the nonce. Without a collision among these
  cores the ids differ, as the scheduling graph asks of its contexts.
\<close>

lemma nonces_separate_ids:
  assumes "list_all wf_tx txs" and "distinct (map tx_nonce txs)" and "inj_on H (marshal_core ` set txs)"
  shows "distinct (map (\<lambda>tx. H (marshal_core tx)) txs)"
proof -
  have "x = y" if "x \<in> set txs" "y \<in> set txs" "H (marshal_core x) = H (marshal_core y)" for x y
  proof -
    have "marshal_core x = marshal_core y" using assms(3) that by (auto simp: inj_on_def)
    then have "tx_nonce x = tx_nonce y"
      using marshal_core_inject [of x y] assms(1) that(1,2) by (simp add: list_all_iff wf_tx_def)
    then show ?thesis using assms(2) that(1,2) by (auto simp: distinct_map inj_on_def)
  qed
  then show ?thesis using assms(2) by (auto simp: distinct_map inj_on_def)
qed

lemma block_contexts_distinct:
  assumes "parse_block_bytes H b = Ok pb" and "rest_rules (tl (pb_txs pb))"
    and "inj_on H (marshal_core ` set (tl (pb_txs pb)))" and "map tv_txid contexts = tl (pb_txids pb)"
  shows "distinct (map tv_txid contexts)"
proof -
  have w: "wf_parsed_block H pb" using parse_block_sound [OF assms(1)] by blast
  then have "list_all wf_tx (tl (pb_txs pb))" by (cases "pb_txs pb") (auto simp: wf_parsed_block_def)
  from nonces_separate_ids [OF this _ assms(3)] show ?thesis
    using assms(2,4) w by (simp add: rest_rules_def wf_parsed_block_def map_tl)
qed

end
